(* ===== verification/Prelude.thy ===== *)
theory Prelude
  imports Main "HOL-Library.Word" "HOL-Library.Char_ord" "HOL-Library.List_Lexorder"
begin

text \<open>
  Shared vocabulary of the development: the widths of the Rust integers the sources use,
  the two result shapes (\<open>Option\<close> and \<open>Result\<close>), and the generic list, option and map lemmas
  that several components need. Every other theory imports this one.
\<close>

named_theorems result_simps "unfolding of the Result combinators"
named_theorems str_simps "closed equations of the string functions"

section \<open>Machine integers\<close>

type_synonym u8 = "8 word"
type_synonym u16 = "16 word"
type_synonym u32 = "32 word"
type_synonym u64 = "64 word"

text \<open>\<open>u16::try_from(u64)\<close>: the value when it fits, else nothing.\<close>

definition u16_try_from :: "u64 \<Rightarrow> u16 option" where
  "u16_try_from x = (if unat x < 2 ^ 16 then Some (ucast x) else None)"

lemma unat_u16_to_u64 [simp]: "unat (ucast (p :: u16) :: u64) = unat p"
proof -
  have "unat p < 2 ^ 16"
    using unsigned_less [of p] by simp
  then show ?thesis
    by (simp add: unsigned_ucast_eq take_bit_nat_eq_self)
qed

lemma u16_try_from_ucast [simp]: "u16_try_from (ucast (p :: u16)) = Some p"
proof -
  have "unat p < 2 ^ 16"
    using unsigned_less [of p] by simp
  then show ?thesis
    by (simp add: u16_try_from_def ucast_up_ucast_id is_up)
qed

lemma u16_try_from_Some:
  "u16_try_from x = Some p \<Longrightarrow> unat p = unat x"
  by (auto simp: u16_try_from_def unsigned_ucast_eq take_bit_nat_eq_self split: if_splits)

text \<open>\<open>saturating_add\<close> on \<open>u64\<close>.\<close>

definition saturating_add :: "u64 \<Rightarrow> u64 \<Rightarrow> u64" where
  "saturating_add a b = (if unat a + unat b < 2 ^ 64 then a + b else - 1)"

lemma unat_saturating_add: "unat (saturating_add a b) = min (unat a + unat b) (2 ^ 64 - 1)"
proof (cases "unat a + unat b < 2 ^ 64")
  case True
  then show ?thesis
    by (simp add: saturating_add_def unat_word_ariths)
next
  case False
  have "unat (- 1 :: u64) = 2 ^ 64 - 1"
    by (simp add: unsigned_minus_1_eq_mask mask_eq_exp_minus_1)
  with False show ?thesis
    by (simp add: saturating_add_def)
qed

section \<open>Results\<close>

text \<open>
  A fallible operation returns \<open>Inl\<close> its error or \<open>Inr\<close> its value. \<open>ok_or\<close> is Rust's
  \<open>ok_or_else\<close>, \<open>and_then\<close> the \<open>?\<close> operator on a Result.
\<close>

definition ok_or :: "'e \<Rightarrow> 'a option \<Rightarrow> 'e + 'a" where
  "ok_or e x = (case x of None \<Rightarrow> Inl e | Some a \<Rightarrow> Inr a)"

definition and_then :: "'e + 'a \<Rightarrow> ('a \<Rightarrow> 'e + 'b) \<Rightarrow> 'e + 'b" where
  "and_then m k = (case m of Inl e \<Rightarrow> Inl e | Inr a \<Rightarrow> k a)"

definition to_option :: "'e + 'a \<Rightarrow> 'a option" where
  "to_option m = (case m of Inl _ \<Rightarrow> None | Inr a \<Rightarrow> Some a)"

lemma ok_or_simps [simp, result_simps]:
  "ok_or e None = Inl e" "ok_or e (Some a) = Inr a"
  by (simp_all add: ok_or_def)

lemma and_then_simps [simp, result_simps]:
  "and_then (Inl e) k = Inl e" "and_then (Inr a) k = k a"
  by (simp_all add: and_then_def)

lemma to_option_simps [simp, result_simps]:
  "to_option (Inl e) = None" "to_option (Inr a) = Some a"
  by (simp_all add: to_option_def)

lemma and_then_eq_Inr: "and_then m k = Inr b \<longleftrightarrow> (\<exists>a. m = Inr a \<and> k a = Inr b)"
  by (cases m) auto

lemma to_option_eq_Some [simp]: "to_option m = Some a \<longleftrightarrow> m = Inr a"
  by (cases m) auto

section \<open>Lists\<close>

lemma takeWhile_all: "(\<And>x. x \<in> set xs \<Longrightarrow> P x) \<Longrightarrow> takeWhile P xs = xs"
  by (simp add: takeWhile_eq_all_conv)

lemma dropWhile_all: "(\<And>x. x \<in> set xs \<Longrightarrow> P x) \<Longrightarrow> dropWhile P xs = []"
  by (simp add: dropWhile_eq_Nil_conv)

lemma takeWhile_append_stop:
  "(\<And>x. x \<in> set xs \<Longrightarrow> P x) \<Longrightarrow> \<not> P y \<Longrightarrow> takeWhile P (xs @ y # ys) = xs"
  by (induction xs) auto

lemma dropWhile_append_stop:
  "(\<And>x. x \<in> set xs \<Longrightarrow> P x) \<Longrightarrow> \<not> P y \<Longrightarrow> dropWhile P (xs @ y # ys) = y # ys"
  by (induction xs) auto

lemma length_dropWhile_le' [termination_simp]: "length (dropWhile P xs) < Suc (length xs)"
  using length_dropWhile_le [of P xs] by simp

lemma append_eq_take: "take (length xs) (xs @ ys) = xs"
  by simp

text \<open>Sorting by a key that two related lists share sorts both alike.\<close>

lemma list_all2_insort:
  assumes "list_all2 (\<lambda>x y. R x y \<and> key y = h x) xs ys" and "R x y" "key y = h x" and "\<And>a b. h a \<le> h b \<longleftrightarrow> a \<le> b"
  shows "list_all2 (\<lambda>x y. R x y \<and> key y = h x) (insort x xs) (insort_key key y ys)"
  using assms(1) by (induction rule: list_all2_induct) (use assms(2-4) in auto)

lemma list_all2_sort:
  assumes "list_all2 (\<lambda>x y. R x y \<and> key y = h x) xs ys" and "\<And>a b. h a \<le> h b \<longleftrightarrow> a \<le> b"
  shows "list_all2 (\<lambda>x y. R x y \<and> key y = h x) (sort xs) (sort_key key ys)"
  using assms(1) by (induction rule: list_all2_induct) (auto intro: list_all2_insort simp: assms(2))

end
