(* ===== verification/Rust_Str.thy ===== *)
theory Rust_Str
  imports Prelude
begin

text \<open>
  The part of Rust's \<open>str\<close> the sources use. A \<open>String\<close> or a byte buffer is a list of bytes
  (Isabelle's \<open>char\<close> is a byte); a Rust \<open>char\<close> is a UTF-8 group, one byte that is not a
  continuation byte with the continuation bytes after it.
\<close>

section \<open>Bytes and characters\<close>

definition code :: "char \<Rightarrow> nat" where
  "code c = of_char c"

definition is_cont :: "char \<Rightarrow> bool" where
  "is_cont c = (128 \<le> code c \<and> code c < 192)"

definition is_ascii_digit :: "char \<Rightarrow> bool" where
  "is_ascii_digit c = (48 \<le> code c \<and> code c \<le> 57)"

definition is_ascii_alphabetic :: "char \<Rightarrow> bool" where
  "is_ascii_alphabetic c = (65 \<le> code c \<and> code c \<le> 90 \<or> 97 \<le> code c \<and> code c \<le> 122)"

definition is_ascii_alphanumeric :: "char \<Rightarrow> bool" where
  "is_ascii_alphanumeric c = (is_ascii_digit c \<or> is_ascii_alphabetic c)"

definition is_ascii_hexdigit :: "char \<Rightarrow> bool" where
  "is_ascii_hexdigit c = (is_ascii_digit c \<or> 65 \<le> code c \<and> code c \<le> 70 \<or>
     97 \<le> code c \<and> code c \<le> 102)"

text \<open>\<open>u8::is_ascii_whitespace\<close>: tab, line feed, form feed, carriage return, space.\<close>

definition is_ascii_whitespace :: "char \<Rightarrow> bool" where
  "is_ascii_whitespace c = (code c \<in> {9, 10, 12, 13, 32})"

definition lower_byte :: "char \<Rightarrow> char" where
  "lower_byte c = (if 65 \<le> code c \<and> code c \<le> 90 then char_of (code c + 32) else c)"

lemma lower_byte_upper [str_simps]:
  "lower_byte CHR ''A'' = CHR ''a''" "lower_byte CHR ''B'' = CHR ''b''" "lower_byte CHR ''C'' = CHR ''c''" "lower_byte CHR ''D'' = CHR ''d''"
  "lower_byte CHR ''E'' = CHR ''e''" "lower_byte CHR ''F'' = CHR ''f''" "lower_byte CHR ''G'' = CHR ''g''" "lower_byte CHR ''H'' = CHR ''h''"
  "lower_byte CHR ''I'' = CHR ''i''" "lower_byte CHR ''J'' = CHR ''j''" "lower_byte CHR ''K'' = CHR ''k''" "lower_byte CHR ''L'' = CHR ''l''"
  "lower_byte CHR ''M'' = CHR ''m''" "lower_byte CHR ''N'' = CHR ''n''" "lower_byte CHR ''O'' = CHR ''o''" "lower_byte CHR ''P'' = CHR ''p''"
  "lower_byte CHR ''Q'' = CHR ''q''" "lower_byte CHR ''R'' = CHR ''r''" "lower_byte CHR ''S'' = CHR ''s''" "lower_byte CHR ''T'' = CHR ''t''"
  "lower_byte CHR ''U'' = CHR ''u''" "lower_byte CHR ''V'' = CHR ''v''" "lower_byte CHR ''W'' = CHR ''w''" "lower_byte CHR ''X'' = CHR ''x''"
  "lower_byte CHR ''Y'' = CHR ''y''" "lower_byte CHR ''Z'' = CHR ''z''"
  by (simp_all add: lower_byte_def code_def char_of_def bit_0)

lemma lower_byte_other: "\<not> (65 \<le> code c \<and> code c \<le> 90) \<Longrightarrow> lower_byte c = c"
  by (auto simp: lower_byte_def)

definition to_ascii_lowercase :: "string \<Rightarrow> string" where
  "to_ascii_lowercase s = map lower_byte s"

lemma length_to_ascii_lowercase [simp]: "length (to_ascii_lowercase s) = length s"
  by (simp add: to_ascii_lowercase_def)

lemma lower_byte_idem [simp]: "lower_byte (lower_byte c) = lower_byte c"
  by (auto simp: lower_byte_def code_def)

lemma to_ascii_lowercase_idem [simp]:
  "to_ascii_lowercase (to_ascii_lowercase s) = to_ascii_lowercase s"
  by (simp add: to_ascii_lowercase_def)

lemma to_ascii_lowercase_append:
  "to_ascii_lowercase (s @ t) = to_ascii_lowercase s @ to_ascii_lowercase t"
  by (simp add: to_ascii_lowercase_def)

definition eq_ignore_ascii_case :: "string \<Rightarrow> string \<Rightarrow> bool" where
  "eq_ignore_ascii_case s t = (to_ascii_lowercase s = to_ascii_lowercase t)"

subsection \<open>UTF-8\<close>

fun utf8_chars :: "string \<Rightarrow> string list" where
  "utf8_chars [] = []"
| "utf8_chars (b # bs) = (b # takeWhile is_cont bs) # utf8_chars (dropWhile is_cont bs)"

lemma concat_utf8_chars [simp]: "concat (utf8_chars s) = s"
  by (induction s rule: utf8_chars.induct) simp_all

definition chars_count :: "string \<Rightarrow> nat" where
  "chars_count s = length (utf8_chars s)"

definition take_chars :: "nat \<Rightarrow> string \<Rightarrow> string" where
  "take_chars n s = concat (take n (utf8_chars s))"

lemma chars_count_le_length: "chars_count s \<le> length s"
proof (induction s rule: utf8_chars.induct)
  case 1
  then show ?case by (simp add: chars_count_def)
next
  case (2 b bs)
  have "length (dropWhile is_cont bs) \<le> length bs"
    by (rule length_dropWhile_le)
  with 2 show ?case by (simp add: chars_count_def)
qed

text \<open>A text that starts with no continuation byte splits off as its own groups.\<close>

lemma utf8_chars_append:
  assumes "t = [] \<or> \<not> is_cont (hd t)"
  shows "utf8_chars (s @ t) = utf8_chars s @ utf8_chars t"
proof (induction s rule: utf8_chars.induct)
  case 1
  show ?case by simp
next
  case (2 b bs)
  have tw: "takeWhile is_cont (bs @ t) = takeWhile is_cont bs"
    using assms by (cases t) (simp_all add: takeWhile_append takeWhile_all)
  have dw: "dropWhile is_cont (bs @ t) = dropWhile is_cont bs @ t"
    using assms by (cases t) (auto simp: dropWhile_append dropWhile_eq_Nil_conv)
  show ?case
    using 2 by (simp add: tw dw)
qed

lemma utf8_group_shape:
  "g \<in> set (utf8_chars s) \<Longrightarrow> \<exists>b bs. g = b # bs \<and> (\<forall>x\<in>set bs. is_cont x)"
  by (induction s rule: utf8_chars.induct) (auto dest: set_takeWhileD)

text \<open>\<open>std::str::from_utf8\<close> accepts exactly the well-formed sequences of RFC 3629.\<close>

definition in_byte :: "nat \<Rightarrow> nat \<Rightarrow> char \<Rightarrow> bool" where
  "in_byte lo hi c = (lo \<le> code c \<and> code c \<le> hi)"

fun valid_utf8 :: "string \<Rightarrow> bool" where
  "valid_utf8 [] = True"
| "valid_utf8 (a # r) =
     (if code a < 128 then valid_utf8 r
      else case r of [] \<Rightarrow> False | b # r1 \<Rightarrow>
        (if in_byte 194 223 a then is_cont b \<and> valid_utf8 r1
         else case r1 of [] \<Rightarrow> False | c # r2 \<Rightarrow>
           (if in_byte 224 239 a then
              (if code a = 224 then in_byte 160 191 b
               else if code a = 237 then in_byte 128 159 b else is_cont b) \<and>
              is_cont c \<and> valid_utf8 r2
            else case r2 of [] \<Rightarrow> False | d # r3 \<Rightarrow>
              in_byte 240 244 a \<and>
              (if code a = 240 then in_byte 144 191 b
               else if code a = 244 then in_byte 128 143 b else is_cont b) \<and>
              is_cont c \<and> is_cont d \<and> valid_utf8 r3)))"

lemma valid_utf8_ascii: "(\<And>c. c \<in> set s \<Longrightarrow> code c < 128) \<Longrightarrow> valid_utf8 s"
  by (induction s) simp_all

text \<open>\<open>char::is_whitespace\<close>: Unicode's \<open>White_Space\<close>, by its encodings.\<close>

definition white_space :: "string list" where
  "white_space =
     [[CHR 0x09], [CHR 0x0A], [CHR 0x0B], [CHR 0x0C], [CHR 0x0D], [CHR 0x20],
      [CHR 0xC2, CHR 0x85], [CHR 0xC2, CHR 0xA0], [CHR 0xE1, CHR 0x9A, CHR 0x80],
      [CHR 0xE2, CHR 0x80, CHR 0x80], [CHR 0xE2, CHR 0x80, CHR 0x81],
      [CHR 0xE2, CHR 0x80, CHR 0x82], [CHR 0xE2, CHR 0x80, CHR 0x83],
      [CHR 0xE2, CHR 0x80, CHR 0x84], [CHR 0xE2, CHR 0x80, CHR 0x85],
      [CHR 0xE2, CHR 0x80, CHR 0x86], [CHR 0xE2, CHR 0x80, CHR 0x87],
      [CHR 0xE2, CHR 0x80, CHR 0x88], [CHR 0xE2, CHR 0x80, CHR 0x89],
      [CHR 0xE2, CHR 0x80, CHR 0x8A], [CHR 0xE2, CHR 0x80, CHR 0xA8],
      [CHR 0xE2, CHR 0x80, CHR 0xA9], [CHR 0xE2, CHR 0x80, CHR 0xAF],
      [CHR 0xE2, CHR 0x81, CHR 0x9F], [CHR 0xE3, CHR 0x80, CHR 0x80]]"

definition is_whitespace :: "string \<Rightarrow> bool" where
  "is_whitespace g = (g \<in> set white_space)"

definition trim :: "string \<Rightarrow> string" where
  "trim s = concat (rev (dropWhile is_whitespace (rev (dropWhile is_whitespace (utf8_chars s)))))"


section \<open>Searching and splitting\<close>

definition starts_with :: "string \<Rightarrow> string \<Rightarrow> bool" where
  "starts_with s p = (take (length p) s = p)"

definition ends_with :: "string \<Rightarrow> string \<Rightarrow> bool" where
  "ends_with s p = (length p \<le> length s \<and> drop (length s - length p) s = p)"

definition strip_prefix :: "string \<Rightarrow> string \<Rightarrow> string option" where
  "strip_prefix s p = (if starts_with s p then Some (drop (length p) s) else None)"

definition strip_suffix :: "string \<Rightarrow> string \<Rightarrow> string option" where
  "strip_suffix s p = (if ends_with s p then Some (take (length s - length p) s) else None)"

fun str_contains :: "string \<Rightarrow> string \<Rightarrow> bool" where
  "str_contains [] p = (p = [])"
| "str_contains (c # s) p = (starts_with (c # s) p \<or> str_contains s p)"

lemma starts_with_append [simp]: "starts_with (p @ s) p"
  by (simp add: starts_with_def)

lemma str_contains_prefix [simp]: "str_contains (p @ s) p"
proof (cases "p @ s")
  case (Cons c r)
  then show ?thesis
    using starts_with_append [of p s] by simp
qed simp

text \<open>\<open>find\<close> of a byte or a set of bytes: the index of the first one.\<close>

fun find_index :: "(char \<Rightarrow> bool) \<Rightarrow> string \<Rightarrow> nat option" where
  "find_index P [] = None"
| "find_index P (c # s) = (if P c then Some 0 else map_option Suc (find_index P s))"

text \<open>\<open>split\<close> on a byte predicate: always at least one piece.\<close>

fun split_by :: "(char \<Rightarrow> bool) \<Rightarrow> string \<Rightarrow> string list" where
  "split_by P [] = [[]]"
| "split_by P (c # s) =
     (if P c then [] # split_by P s
      else (c # hd (split_by P s)) # tl (split_by P s))"

definition split_once :: "char \<Rightarrow> string \<Rightarrow> (string \<times> string) option" where
  "split_once c s =
     (case find_index (\<lambda>x. x = c) s of None \<Rightarrow> None
      | Some i \<Rightarrow> Some (take i s, drop (Suc i) s))"

text \<open>\<open>lines\<close>: a carriage return is dropped only in front of a line feed.\<close>

definition strip_cr :: "string \<Rightarrow> string" where
  "strip_cr s = (if s \<noteq> [] \<and> last s = CHR 0x0D then butlast s else s)"

fun str_lines :: "string \<Rightarrow> string list" where
  "str_lines [] = []"
| "str_lines (c # s) =
     (case dropWhile (\<lambda>x. x \<noteq> CHR 0x0A) (c # s) of
        [] \<Rightarrow> [c # s]
      | _ # r \<Rightarrow> strip_cr (takeWhile (\<lambda>x. x \<noteq> CHR 0x0A) (c # s)) #
          (if length r \<le> length s then str_lines r else []))"

text \<open>\<open>split_whitespace\<close>: the maximal runs of characters that are not white space.\<close>

fun group_runs :: "string list \<Rightarrow> string \<Rightarrow> string list" where
  "group_runs [] acc = (if acc = [] then [] else [acc])"
| "group_runs (g # gs) acc =
     (if is_whitespace g then (if acc = [] then group_runs gs [] else acc # group_runs gs [])
      else group_runs gs (acc @ g))"

definition split_whitespace :: "string \<Rightarrow> string list" where
  "split_whitespace s = group_runs (utf8_chars s) []"

lemma split_by_not_Nil [simp]: "split_by P s \<noteq> []"
  by (induction s) simp_all

lemma find_index_None: "find_index P s = None \<longleftrightarrow> (\<forall>c\<in>set s. \<not> P c)"
  by (induction s) auto

lemma find_index_Some:
  "find_index P s = Some i \<Longrightarrow> i < length s \<and> P (s ! i) \<and> (\<forall>j<i. \<not> P (s ! j))"
proof (induction s arbitrary: i)
  case Nil
  then show ?case by simp
next
  case (Cons c s)
  then show ?case
    by (auto split: if_splits simp: nth_Cons split: nat.split)
qed

lemma find_index_stop:
  "(\<And>c. c \<in> set xs \<Longrightarrow> \<not> P c) \<Longrightarrow> P y \<Longrightarrow> find_index P (xs @ y # ys) = Some (length xs)"
  by (induction xs) auto

lemma split_once_stop:
  "c \<notin> set xs \<Longrightarrow> split_once c (xs @ c # ys) = Some (xs, ys)"
  by (subst split_once_def, subst find_index_stop) auto

text \<open>Joining the pieces with the separator gives the text back.\<close>

fun join_with :: "string \<Rightarrow> string list \<Rightarrow> string" where
  "join_with sep [] = []"
| "join_with sep [x] = x"
| "join_with sep (x # y # xs) = x @ sep @ join_with sep (y # xs)"

lemma join_with_Cons: "xs \<noteq> [] \<Longrightarrow> join_with sep (x # xs) = x @ sep @ join_with sep xs"
  by (cases xs) simp_all

lemma join_split_by: "join_with [c] (split_by (\<lambda>x. x = c) s) = s"
proof (induction s)
  case Nil
  show ?case by simp
next
  case (Cons x s)
  obtain p ps where ps: "split_by (\<lambda>x. x = c) s = p # ps"
    by (cases "split_by (\<lambda>x. x = c) s") simp_all
  with Cons show ?case
    by (cases ps) simp_all
qed

lemma split_by_pieces: "p \<in> set (split_by P s) \<Longrightarrow> c \<in> set p \<Longrightarrow> \<not> P c \<and> c \<in> set s"
proof (induction s arbitrary: p)
  case Nil
  then show ?case by simp
next
  case (Cons x s)
  obtain q qs where q: "split_by P s = q # qs"
    by (cases "split_by P s") simp_all
  with Cons show ?case
    by (fastforce split: if_splits)
qed

section \<open>Numbers\<close>

definition digit_char :: "nat \<Rightarrow> char" where
  "digit_char d = char_of (48 + d)"

lemma digit_char_values [str_simps]:
  "digit_char 0 = CHR ''0''"
  "digit_char (Suc 0) = CHR ''1''"
  "digit_char 2 = CHR ''2''"
  "digit_char 3 = CHR ''3''"
  "digit_char 4 = CHR ''4''"
  "digit_char 5 = CHR ''5''"
  "digit_char 6 = CHR ''6''"
  "digit_char 7 = CHR ''7''"
  "digit_char 8 = CHR ''8''"
  "digit_char 9 = CHR ''9''"
  by code_simp+

text \<open>\<open>Display\<close> of an unsigned integer.\<close>

fun show_nat :: "nat \<Rightarrow> string" where
  "show_nat n = (if n < 10 then [digit_char n] else show_nat (n div 10) @ [digit_char (n mod 10)])"

declare show_nat.simps [simp del]

definition digit_value :: "char \<Rightarrow> nat" where
  "digit_value c =
     (if is_ascii_digit c then code c - 48
      else if 97 \<le> code c \<and> code c \<le> 102 then code c - 87 else code c - 55)"

definition radix_value :: "nat \<Rightarrow> string \<Rightarrow> nat" where
  "radix_value r ds = foldl (\<lambda>n c. r * n + digit_value c) 0 ds"

text \<open>\<open>str::parse\<close> at an unsigned type: one optional \<open>+\<close>, digits, and no overflow of \<open>bound\<close>.\<close>

definition strip_plus :: "string \<Rightarrow> string" where
  "strip_plus s = (case s of [] \<Rightarrow> [] | c # r \<Rightarrow> if c = CHR ''+'' then r else s)"

definition parse_uint :: "nat \<Rightarrow> string \<Rightarrow> nat option" where
  "parse_uint bound s =
     (let d = strip_plus s in
      if d = [] \<or> \<not> list_all is_ascii_digit d then None
      else if radix_value 10 d < bound then Some (radix_value 10 d) else None)"

lemma code_digit_char [simp]: "d < 10 \<Longrightarrow> code (digit_char d) = 48 + d"
  by (simp add: code_def digit_char_def)

lemma digit_char_digit [simp]: "d < 10 \<Longrightarrow> is_ascii_digit (digit_char d)"
  by (simp add: is_ascii_digit_def)

lemma digit_value_digit_char [simp]: "d < 10 \<Longrightarrow> digit_value (digit_char d) = d"
  by (simp add: digit_value_def)

lemma radix_value_snoc: "radix_value r (ds @ [c]) = r * radix_value r ds + digit_value c"
  by (simp add: radix_value_def)

lemma show_nat_digits: "c \<in> set (show_nat n) \<Longrightarrow> is_ascii_digit c"
proof (induction n rule: show_nat.induct)
  case (1 n)
  then show ?case
    by (subst (asm) (2) show_nat.simps) (auto split: if_splits)
qed

lemma show_nat_not_Nil [simp]: "show_nat n \<noteq> []"
  by (subst show_nat.simps) simp

lemma radix_value_show_nat [simp]: "radix_value 10 (show_nat n) = n"
proof (induction n rule: show_nat.induct)
  case (1 n)
  show ?case
  proof (cases "n < 10")
    case True
    then show ?thesis
      by (subst show_nat.simps) (simp add: radix_value_def)
  next
    case False
    with 1 show ?thesis
      by (subst show_nat.simps) (simp add: radix_value_snoc)
  qed
qed

lemma length_show_nat: "n < 10 ^ Suc k \<Longrightarrow> length (show_nat n) \<le> Suc k"
proof (induction k arbitrary: n)
  case 0
  then show ?case by (subst show_nat.simps) simp
next
  case (Suc k)
  show ?case
  proof (cases "n < 10")
    case True
    then show ?thesis by (subst show_nat.simps) simp
  next
    case False
    have "n div 10 < 10 ^ Suc k"
      using Suc.prems by (simp add: div_less_iff_less_mult mult.commute)
    with Suc.IH False show ?thesis
      by (subst show_nat.simps) simp
  qed
qed

lemma is_ascii_digit_not_plus: "is_ascii_digit c \<Longrightarrow> c \<noteq> CHR ''+''"
  by (auto simp: is_ascii_digit_def code_def)

lemma strip_plus_show_nat [simp]: "strip_plus (show_nat n) = show_nat n"
proof -
  obtain c r where "show_nat n = c # r"
    using show_nat_not_Nil [of n] by (cases "show_nat n") blast+
  moreover have "c \<noteq> CHR ''+''"
    using calculation is_ascii_digit_not_plus show_nat_digits [of c n] by simp
  ultimately show ?thesis
    by (simp add: strip_plus_def)
qed

lemma parse_uint_show_nat [simp]: "n < bound \<Longrightarrow> parse_uint bound (show_nat n) = Some n"
  by (simp add: parse_uint_def list_all_iff show_nat_digits Let_def)

lemma parse_uint_bound: "parse_uint bound s = Some n \<Longrightarrow> n < bound"
  by (auto simp: parse_uint_def Let_def split: if_splits)

lemma show_nat_inject [simp]: "show_nat m = show_nat n \<longleftrightarrow> m = n"
  by (metis radix_value_show_nat)

text \<open>A text of ASCII bytes that are not white space is its own \<open>trim\<close>.\<close>

lemma utf8_chars_ascii:
  "(\<And>c. c \<in> set s \<Longrightarrow> code c < 128) \<Longrightarrow> utf8_chars s = map (\<lambda>c. [c]) s"
proof (induction s)
  case Nil
  show ?case by simp
next
  case (Cons a s)
  have "takeWhile is_cont s = []" and "dropWhile is_cont s = s"
    using Cons.prems by (cases s; simp add: is_cont_def linorder_not_le)+
  with Cons show ?case by simp
qed

lemma chars_count_ascii:
  "(\<And>c. c \<in> set s \<Longrightarrow> code c < 128) \<Longrightarrow> chars_count s = length s"
  by (simp add: chars_count_def utf8_chars_ascii)

lemma is_whitespace_single:
  "is_whitespace [c] \<longleftrightarrow> c \<in> {CHR 0x09, CHR 0x0A, CHR 0x0B, CHR 0x0C, CHR 0x0D, CHR 0x20}"
  by (auto simp: is_whitespace_def white_space_def)

lemma trim_no_ws:
  assumes ascii: "\<And>c. c \<in> set s \<Longrightarrow> code c < 128"
    and nws: "\<And>c. c \<in> set s \<Longrightarrow> \<not> is_whitespace [c]"
  shows "trim s = s"
proof -
  have u: "utf8_chars s = map (\<lambda>c. [c]) s"
    using ascii by (rule utf8_chars_ascii)
  have "dropWhile is_whitespace (map (\<lambda>c. [c]) s) = map (\<lambda>c. [c]) s"
    using nws by (cases s) simp_all
  moreover have "dropWhile is_whitespace (rev (map (\<lambda>c. [c]) s)) = rev (map (\<lambda>c. [c]) s)"
    using nws by (cases s rule: rev_cases) simp_all
  ultimately show ?thesis
    by (simp add: trim_def u)
qed

lemma digit_ascii: "is_ascii_digit c \<Longrightarrow> code c < 128"
  by (simp add: is_ascii_digit_def)

lemma digit_not_ws: "is_ascii_digit c \<Longrightarrow> \<not> is_whitespace [c]"
proof
  assume d: "is_ascii_digit c" and "is_whitespace [c]"
  then have "c \<in> {CHR 0x09, CHR 0x0A, CHR 0x0B, CHR 0x0C, CHR 0x0D, CHR 0x20}"
    by (simp only: is_whitespace_single)
  then show False
    using d by (elim insertE emptyE) (simp_all add: is_ascii_digit_def code_def)
qed

lemma trim_show_nat [simp]: "trim (show_nat n) = show_nat n"
  by (rule trim_no_ws) (blast dest: show_nat_digits digit_ascii digit_not_ws)+

lemma digits_no_cont:
  "dropWhile is_cont (show_nat n) = show_nat n" "takeWhile is_cont (show_nat n) = []"
proof -
  obtain c r where s: "show_nat n = c # r"
    using show_nat_not_Nil [of n] by (cases "show_nat n") blast+
  then have "is_ascii_digit c"
    using show_nat_digits [of c n] by simp
  then have "\<not> is_cont c"
    by (simp add: is_ascii_digit_def is_cont_def)
  with s show "dropWhile is_cont (show_nat n) = show_nat n" "takeWhile is_cont (show_nat n) = []"
    by simp_all
qed

lemma trim_space_show_nat [simp]: "trim (CHR '' '' # show_nat n) = show_nat n"
proof -
  have "is_whitespace [CHR '' '']"
    by (simp only: is_whitespace_single) simp
  then have "trim (CHR '' '' # show_nat n) = trim (show_nat n)"
    by (simp only: trim_def utf8_chars.simps digits_no_cont dropWhile.simps if_True)
  then show ?thesis by simp
qed

section \<open>Counting and taking characters\<close>

lemma utf8_chars_group: "\<forall>x\<in>set bs. is_cont x \<Longrightarrow> utf8_chars (b # bs) = [b # bs]"
  by (simp add: takeWhile_all dropWhile_all)

lemma hd_take_chars:
  "take_chars n s = [] \<or> hd (take_chars n s) = hd s"
  by (cases s; cases n) (simp_all add: take_chars_def)

lemma utf8_chars_take_chars: "utf8_chars (take_chars n s) = take n (utf8_chars s)"
proof (induction s arbitrary: n rule: utf8_chars.induct)
  case 1
  show ?case by (simp add: take_chars_def)
next
  case (2 b bs)
  show ?case
  proof (cases n)
    case (Suc m)
    let ?r = "dropWhile is_cont bs"
    have t: "take_chars n (b # bs) = (b # takeWhile is_cont bs) @ take_chars m ?r"
      by (simp add: take_chars_def Suc)
    have "take_chars m ?r = [] \<or> \<not> is_cont (hd (take_chars m ?r))"
    proof (cases "?r = []")
      case False
      then show ?thesis
        using hd_take_chars [of m ?r] hd_dropWhile [of is_cont bs] by auto
    next
      case True
      show ?thesis unfolding True by (simp add: take_chars_def)
    qed
    from utf8_chars_append [OF this, of "b # takeWhile is_cont bs"]
    have "utf8_chars (take_chars n (b # bs)) =
        utf8_chars (b # takeWhile is_cont bs) @ take m (utf8_chars ?r)"
      by (simp only: t 2)
    moreover have "utf8_chars (b # takeWhile is_cont bs) = [b # takeWhile is_cont bs]"
      by (rule utf8_chars_group) (blast dest: set_takeWhileD)
    ultimately have "utf8_chars (take_chars n (b # bs)) = (b # takeWhile is_cont bs) # take m (utf8_chars ?r)"
      by (simp only: append_Cons append_Nil)
    then show ?thesis
      by (simp only: utf8_chars.simps(2) Suc take_Suc_Cons)
  qed (simp add: take_chars_def)
qed

lemma chars_count_take_chars [simp]: "chars_count (take_chars n s) = min n (chars_count s)"
  by (simp add: chars_count_def utf8_chars_take_chars)

lemma chars_count_append: "t = [] \<or> \<not> is_cont (hd t) \<Longrightarrow> chars_count (s @ t) = chars_count s + chars_count t"
  by (simp add: chars_count_def utf8_chars_append)

lemma not_cont_ascii: "code c < 128 \<Longrightarrow> \<not> is_cont c"
  by (simp add: is_cont_def)

lemma chars_count_append_ascii:
  "(\<And>c. c \<in> set t \<Longrightarrow> code c < 128) \<Longrightarrow> chars_count (s @ t) = chars_count s + length t"
  using chars_count_append [of t s] chars_count_ascii [of t] by (cases t) (simp_all add: not_cont_ascii)

section \<open>Lossy decoding\<close>

text \<open>\<open>String::from_utf8_lossy\<close>: each maximal ill-formed piece becomes U+FFFD. A step says how many bytes
  after the first belong to the piece, and whether it is well formed.\<close>

definition second_ok :: "char \<Rightarrow> char \<Rightarrow> bool" where
  "second_ok a b =
     (if code a = 224 then in_byte 160 191 b
      else if code a = 237 then in_byte 128 159 b
      else if code a = 240 then in_byte 144 191 b
      else if code a = 244 then in_byte 128 143 b
      else is_cont b)"

definition utf8_step :: "char \<Rightarrow> string \<Rightarrow> nat \<times> bool" where
  "utf8_step a r =
     (if code a < 128 then (0, True)
      else let need = (if in_byte 194 223 a then 1 else if in_byte 224 239 a then 2
                       else if in_byte 240 244 a then 3 else 0);
               first = (case r of [] \<Rightarrow> 0 | b # s \<Rightarrow>
                 if 0 < need \<and> second_ok a b then Suc (length (takeWhile is_cont (take (need - 1) s))) else 0)
           in (first, 0 < need \<and> first = need))"

fun from_utf8_lossy :: "string \<Rightarrow> string" where
  "from_utf8_lossy [] = []"
| "from_utf8_lossy (a # r) =
     (if snd (utf8_step a r) then a # take (fst (utf8_step a r)) r else [CHR 0xEF, CHR 0xBF, CHR 0xBD]) @
     from_utf8_lossy (drop (fst (utf8_step a r)) r)"

text \<open>Text that is well formed is read as it is.\<close>

lemma utf8_step_valid:
  "code a < 128 \<Longrightarrow> utf8_step a r = (0, True)"
  "in_byte 194 223 a \<Longrightarrow> is_cont b \<Longrightarrow> utf8_step a (b # r1) = (1, True)"
  "in_byte 224 239 a \<Longrightarrow> second_ok a b \<Longrightarrow> is_cont c \<Longrightarrow> utf8_step a (b # c # r2) = (2, True)"
  "in_byte 240 244 a \<Longrightarrow> second_ok a b \<Longrightarrow> is_cont c \<Longrightarrow> is_cont d \<Longrightarrow> utf8_step a (b # c # d # r3) = (3, True)"
  by (auto simp: utf8_step_def in_byte_def second_ok_def Let_def)

lemma valid_utf8_cases:
  assumes "valid_utf8 (a # r)"
  obtains "code a < 128" "valid_utf8 r"
  | b s where "r = b # s" "utf8_step a r = (1, True)" "valid_utf8 s"
  | b c s where "r = b # c # s" "utf8_step a r = (2, True)" "valid_utf8 s"
  | b c d s where "r = b # c # d # s" "utf8_step a r = (3, True)" "valid_utf8 s"
proof -
  consider "code a < 128" | "in_byte 194 223 a" "\<not> code a < 128"
    | "in_byte 224 239 a" "\<not> code a < 128" "\<not> in_byte 194 223 a"
    | "\<not> in_byte 224 239 a" "\<not> code a < 128" "\<not> in_byte 194 223 a" by blast
  then show thesis
  proof cases
    case 1 with assms that(1) show thesis by simp
  next
    case 2 with assms that(2) show thesis by (auto split: list.splits simp: utf8_step_valid(2))
  next
    case 3
    then have "second_ok a b = (if code a = 224 then in_byte 160 191 b
       else if code a = 237 then in_byte 128 159 b else is_cont b)" for b
      by (auto simp: second_ok_def in_byte_def)
    with 3 assms that(3) show thesis by (auto split: list.splits simp: utf8_step_valid(3))
  next
    case 4
    then have "second_ok a b = (if code a = 240 then in_byte 144 191 b
       else if code a = 244 then in_byte 128 143 b else is_cont b)" for b
      by (auto simp: second_ok_def in_byte_def)
    with 4 assms that(4) show thesis by (auto split: list.splits simp: utf8_step_valid(4))
  qed
qed

lemma from_utf8_lossy_valid: "valid_utf8 s \<Longrightarrow> from_utf8_lossy s = s"
proof (induction s rule: from_utf8_lossy.induct)
  case (2 a r)
  from 2(2) show ?case
    by (rule valid_utf8_cases) (use 2(1) in \<open>simp_all add: utf8_step_valid(1) eval_nat_numeral del: valid_utf8.simps\<close>)
qed simp

end
