(* ===== verification/Json.thy ===== *)
theory Json
  imports Rust_Str
begin

text \<open>
  \<open>serde_json::Value\<close> as the sources take it apart and build it: the public enum, its
  accessors, and objects as ordered maps (\<open>serde_json\<close> is built without \<open>preserve_order\<close>, so a
  \<open>Map\<close> is a \<open>BTreeMap\<close>: keys distinct and ascending). Parsing and printing are not modelled:
  they are the fields of \<open>serde\<close>, a parameter of every definition that parses or prints.
\<close>

section \<open>Ordered maps\<close>

fun map_insert :: "string \<Rightarrow> 'v \<Rightarrow> (string \<times> 'v) list \<Rightarrow> (string \<times> 'v) list" where
  "map_insert k v [] = [(k, v)]"
| "map_insert k v ((k', v') # m) =
     (if k = k' then (k, v) # m
      else if k < k' then (k, v) # (k', v') # m
      else (k', v') # map_insert k v m)"

text \<open>\<open>entry(k).or_insert(v)\<close>: an existing entry stays.\<close>

definition map_or_insert :: "string \<Rightarrow> 'v \<Rightarrow> (string \<times> 'v) list \<Rightarrow> (string \<times> 'v) list" where
  "map_or_insert k v m = (case map_of m k of None \<Rightarrow> map_insert k v m | Some _ \<Rightarrow> m)"

definition keys_ok :: "(string \<times> 'v) list \<Rightarrow> bool" where
  "keys_ok m = sorted_wrt (<) (map fst m)"

lemma map_of_map_insert [simp]: "map_of (map_insert k v m) = (map_of m)(k \<mapsto> v)"
  by (induction m) (auto simp: fun_eq_iff)

lemma set_keys_map_insert [simp]:
  "fst ` set (map_insert k v m) = insert k (fst ` set m)"
proof -
  have "dom (map_of (map_insert k v m)) = insert k (dom (map_of m))"
    by simp
  then show ?thesis
    by (simp only: dom_map_of_conv_image_fst)
qed

lemma keys_ok_map_insert [simp]: "keys_ok m \<Longrightarrow> keys_ok (map_insert k v m)"
proof (induction m)
  case Nil
  then show ?case by (simp add: keys_ok_def)
next
  case (Cons e m)
  obtain k' v' where e: "e = (k', v')" by fastforce
  from Cons.prems have later: "\<forall>x\<in>fst ` set m. k' < x" and ok: "keys_ok m"
    by (auto simp: keys_ok_def e)
  consider "k = k'" | "k < k'" | "k' < k"
    by (rule linorder_cases [of k k']) blast+
  then show ?case
  proof cases
    case 3
    have "\<forall>x\<in>fst ` set (map_insert k v m). k' < x"
      using later 3 by simp
    then show ?thesis
      using 3 Cons.IH [OF ok] by (auto simp: keys_ok_def e)
  qed (use later ok in \<open>auto simp: keys_ok_def e intro: less_trans\<close>)
qed

lemma map_of_map_or_insert:
  "map_of (map_or_insert k v m) k' =
     (if k' = k then Some (case map_of m k of None \<Rightarrow> v | Some w \<Rightarrow> w) else map_of m k')"
  by (auto simp: map_or_insert_def split: option.splits)

lemma keys_ok_map_or_insert [simp]: "keys_ok m \<Longrightarrow> keys_ok (map_or_insert k v m)"
  by (simp add: map_or_insert_def split: option.splits)

text \<open>
  The interface the rest of the development uses: an insertion is seen by the next lookup and
  keeps the order of the keys. A literal \<open>json!({...})\<close> and a loop of \<open>insert\<close>s are both
  \<open>insert_all\<close>, proved once here.
\<close>

locale ordered_map =
  fixes empty :: "'m"
    and insert :: "'k \<Rightarrow> 'v \<Rightarrow> 'm \<Rightarrow> 'm"
    and lookup :: "'m \<Rightarrow> 'k \<Rightarrow> 'v option"
    and invar :: "'m \<Rightarrow> bool"
  assumes lookup_empty: "lookup empty k = None"
    and lookup_insert: "lookup (insert k v m) k' = (if k' = k then Some v else lookup m k')"
    and invar_empty: "invar empty"
    and invar_insert: "invar m \<Longrightarrow> invar (insert k v m)"
begin

lemma lookup_fold:
  "lookup (foldl (\<lambda>m (k, v). insert k v m) m kvs) k =
     (case map_of (rev kvs) k of None \<Rightarrow> lookup m k | Some v \<Rightarrow> Some v)"
proof (induction kvs rule: rev_induct)
  case Nil
  show ?case by simp
next
  case (snoc e kvs)
  then show ?case
    by (cases e) (simp add: lookup_insert)
qed

lemma invar_fold: "invar m \<Longrightarrow> invar (foldl (\<lambda>m (k, v). insert k v m) m kvs)"
proof (induction kvs rule: rev_induct)
  case Nil
  then show ?case by simp
next
  case (snoc e kvs)
  then show ?case by (cases e) (simp add: invar_insert)
qed

lemma lookup_literal: "lookup (foldl (\<lambda>m (k, v). insert k v m) empty kvs) k = map_of (rev kvs) k"
  by (simp add: lookup_fold lookup_empty split: option.split)

lemma invar_literal: "invar (foldl (\<lambda>m (k, v). insert k v m) empty kvs)"
  by (rule invar_fold) (rule invar_empty)

end

lemma keys_ok_Nil [simp]: "keys_ok []"
  by (simp add: keys_ok_def)

interpretation btree: ordered_map "[]" map_insert map_of keys_ok
  by unfold_locales simp_all

section \<open>Values\<close>

text \<open>A number is a \<open>u64\<close>, a negative \<open>i64\<close> or the bits of an \<open>f64\<close>.\<close>

datatype number = PosInt u64 | NegInt u64 | Float u64

datatype json =
    VNull
  | VBool bool
  | VNumber number
  | VString string
  | VArray "json list"
  | VObject "(string \<times> json) list"

definition jobj :: "(string \<times> json) list \<Rightarrow> json" where
  "jobj kvs = VObject (foldl (\<lambda>m (k, v). map_insert k v m) [] kvs)"

definition num :: "nat \<Rightarrow> json" where
  "num n = VNumber (PosInt (of_nat n))"

definition json_get :: "json \<Rightarrow> string \<Rightarrow> json option" where
  "json_get v k = (case v of VObject m \<Rightarrow> map_of m k | _ \<Rightarrow> None)"

definition as_str :: "json \<Rightarrow> string option" where
  "as_str v = (case v of VString s \<Rightarrow> Some s | _ \<Rightarrow> None)"

definition as_bool :: "json \<Rightarrow> bool option" where
  "as_bool v = (case v of VBool b \<Rightarrow> Some b | _ \<Rightarrow> None)"

definition as_u64 :: "json \<Rightarrow> u64 option" where
  "as_u64 v = (case v of VNumber (PosInt n) \<Rightarrow> Some n | _ \<Rightarrow> None)"

definition as_array :: "json \<Rightarrow> json list option" where
  "as_array v = (case v of VArray a \<Rightarrow> Some a | _ \<Rightarrow> None)"

definition as_object :: "json \<Rightarrow> (string \<times> json) list option" where
  "as_object v = (case v of VObject m \<Rightarrow> Some m | _ \<Rightarrow> None)"

definition is_object :: "json \<Rightarrow> bool" where
  "is_object v = (case v of VObject m \<Rightarrow> True | _ \<Rightarrow> False)"

definition str_field :: "json \<Rightarrow> string \<Rightarrow> string option" where
  "str_field v k = Option.bind (json_get v k) as_str"

definition bool_field :: "json \<Rightarrow> string \<Rightarrow> bool option" where
  "bool_field v k = Option.bind (json_get v k) as_bool"

definition u64_field :: "json \<Rightarrow> string \<Rightarrow> u64 option" where
  "u64_field v k = Option.bind (json_get v k) as_u64"

definition u16_field :: "json \<Rightarrow> string \<Rightarrow> u16 option" where
  "u16_field v k = Option.bind (u64_field v k) u16_try_from"

definition array_field :: "json \<Rightarrow> string \<Rightarrow> json list option" where
  "array_field v k = Option.bind (json_get v k) as_array"

text \<open>\<open>v[k] = x\<close>: a null becomes an object, anything but an object panics (\<open>None\<close>).\<close>

definition index_set :: "string \<Rightarrow> json \<Rightarrow> json \<Rightarrow> json option" where
  "index_set k x v =
     (case v of VObject m \<Rightarrow> Some (VObject (map_insert k x m))
      | VNull \<Rightarrow> Some (VObject [(k, x)]) | _ \<Rightarrow> None)"

text \<open>\<open>if let Value::Object(ref mut m) = v { m.insert(k, x); }\<close>.\<close>

definition insert_if_object :: "string \<Rightarrow> json \<Rightarrow> json \<Rightarrow> json" where
  "insert_if_object k x v = (case v of VObject m \<Rightarrow> VObject (map_insert k x m) | _ \<Rightarrow> v)"

lemma json_get_jobj [simp]: "json_get (jobj kvs) k = map_of (rev kvs) k"
  by (simp add: json_get_def jobj_def btree.lookup_literal)

lemma jobj_object [simp]: "is_object (jobj kvs)" "jobj kvs \<noteq> VNull"
  by (simp_all add: is_object_def jobj_def)

lemma json_get_insert_if_object [simp]:
  "is_object v \<Longrightarrow>
   json_get (insert_if_object k x v) k' = (if k' = k then Some x else json_get v k')"
  by (simp add: is_object_def insert_if_object_def json_get_def split: json.splits)

lemma is_object_insert_if_object [simp]: "is_object (insert_if_object k x v) = is_object v"
  by (simp add: is_object_def insert_if_object_def split: json.splits)

lemma json_get_index_set:
  "index_set k x v = Some v' \<Longrightarrow> json_get v' k' = (if k' = k then Some x else json_get v k')"
  by (auto simp: index_set_def json_get_def split: json.splits)

lemma json_get_not_object: "\<not> is_object v \<Longrightarrow> json_get v k = None"
  by (simp add: is_object_def json_get_def split: json.splits)

lemma json_get_Some_object: "json_get v k = Some x \<Longrightarrow> is_object v"
  by (rule ccontr) (simp add: json_get_not_object)

lemmas json_access =
  as_str_def as_bool_def as_u64_def as_array_def as_object_def
  str_field_def bool_field_def u64_field_def u16_field_def array_field_def

text \<open>Well-formed values: every object's keys ascend.\<close>

fun wf_json :: "json \<Rightarrow> bool" where
  "wf_json (VArray a) = (\<forall>v\<in>set a. wf_json v)"
| "wf_json (VObject m) = (keys_ok m \<and> (\<forall>e\<in>set m. wf_json (snd e)))"
| "wf_json _ = True"

section \<open>The parser and the printer\<close>

text \<open>
  \<open>from_str\<close> (an error carries its message), \<open>to_string\<close>/\<open>to_vec\<close> and \<open>to_string_pretty\<close>.
\<close>

record serde =
  from_str :: "string \<Rightarrow> string + json"
  to_text :: "json \<Rightarrow> string"
  to_pretty :: "json \<Rightarrow> string"

text \<open>What the callers rely on, at one value: the printed text is UTF-8 and parses back.\<close>

definition reads_back :: "serde \<Rightarrow> json \<Rightarrow> bool" where
  "reads_back sj v = (from_str sj (to_text sj v) = Inr v \<and> valid_utf8 (to_text sj v))"

definition reads_back_pretty :: "serde \<Rightarrow> json \<Rightarrow> bool" where
  "reads_back_pretty sj v = (from_str sj (to_pretty sj v) = Inr v)"


text \<open>A concrete codec for the witnesses: it prints and reads the empty object only.\<close>

definition brace_serde :: serde where
  "brace_serde =
     \<lparr>from_str = (\<lambda>s. if s = ''{}'' then Inr (VObject []) else Inl ''expected value''),
      to_text = (\<lambda>_. ''{}''), to_pretty = (\<lambda>_. ''{}'')\<rparr>"

end
