(* ===== verification/Failure.thy ===== *)
theory Failure
  imports Json
begin

text \<open>
  Error values. \<open>anyhow::Error\<close> holds a message, an \<open>io::Error\<close> or the typed
  \<open>BridgeFailure\<close> of \<open>session/forward.rs\<close>; the output layer downcasts to the last one.
\<close>

datatype io_kind =
    NotFound | AlreadyExists | PermissionDenied | WouldBlock | Interrupted | TimedOut
  | ConnectionRefused | ConnectionReset | NotADirectory | IsADirectory | FilesystemLoop
  | InvalidData | BrokenPipe | OtherKind

text \<open>An \<open>io::Error\<close>: its kind and its display text.\<close>

datatype io_error = IoError (io_kind: io_kind) (io_text: string)

record bridge_failure =
  bf_message :: string
  bf_cause :: "string option"
  bf_wait_context :: "json option"
  bf_diagnosis :: "json option"
  bf_target_identity :: "json option"
  bf_requested_target :: "json option"

datatype anyhow = Msg string | Io io_error | Bridge bridge_failure

type_synonym 'a result = "anyhow + 'a"

text \<open>\<open>Display\<close>: a bridge failure shows its message alone.\<close>

fun display :: "anyhow \<Rightarrow> string" where
  "display (Msg m) = m"
| "display (Io e) = io_text e"
| "display (Bridge f) = bf_message f"

text \<open>\<open>e.downcast_ref::<BridgeFailure>()\<close> and \<open>downcast_ref::<io::Error>().kind()\<close>.\<close>

fun downcast_bridge :: "anyhow \<Rightarrow> bridge_failure option" where
  "downcast_bridge (Bridge f) = Some f"
| "downcast_bridge _ = None"

fun downcast_io :: "anyhow \<Rightarrow> io_kind option" where
  "downcast_io (Io e) = Some (io_kind e)"
| "downcast_io _ = None"

text \<open>Quoting in messages: \<open>'{name}'\<close>.\<close>

definition quoted :: "string \<Rightarrow> string" where
  "quoted s = [CHR 0x27] @ s @ [CHR 0x27]"

definition bail :: "string \<Rightarrow> 'a result" where
  "bail m = Inl (Msg m)"

lemma bail_not_Inr [simp]: "bail m \<noteq> Inr a" "Inr a \<noteq> bail m"
  by (simp_all add: bail_def)

end
