(* ===== verification/Dap.thy ===== *)
theory Dap
  imports Failure
begin

text \<open>
  \<open>src/dap.rs\<close>: \<open>Content-Length\<close> framing of the CLI-to-bridge protocol. The theory closes
  with the interface its two clients (the request loop and the liveness probe) use, the locale
  \<open>frame_codec\<close>, and its interpretation on the functions of this file.
\<close>

section \<open>The functions of the file\<close>

definition crlf2 :: string where
  "crlf2 = [CHR 0x0D, CHR 0x0A, CHR 0x0D, CHR 0x0A]"

text \<open>\<open>buf.windows(4).position(..)\<close>: the first offset at which the pattern starts.\<close>

fun position_of :: "string \<Rightarrow> string \<Rightarrow> nat option" where
  "position_of p [] = None"
| "position_of p (c # s) =
     (if starts_with (c # s) p then Some 0 else map_option Suc (position_of p s))"

definition find_header_end :: "string \<Rightarrow> nat option" where
  "find_header_end buf = map_option (\<lambda>pos. pos + 4) (position_of crlf2 buf)"

fun content_length_in :: "string list \<Rightarrow> nat option" where
  "content_length_in [] = None"
| "content_length_in (line # rest) =
     (case split_once (CHR '':'') line of
        None \<Rightarrow> None
      | Some (name, value) \<Rightarrow>
          if eq_ignore_ascii_case (trim name) ''content-length''
          then parse_uint (2 ^ 64) (trim value)
          else content_length_in rest)"

definition parse_content_length :: "string \<Rightarrow> nat option" where
  "parse_content_length header = content_length_in (str_lines header)"

definition exceeds :: "nat \<Rightarrow> string" where
  "exceeds max_bytes = ''bridge response exceeds '' @ show_nat max_bytes @ '' bytes''"

definition header_exceeds :: string where
  "header_exceeds = ''bridge frame header exceeds 8192 bytes''"

definition validate_frame_size :: "string \<Rightarrow> nat \<Rightarrow> unit result" where
  "validate_frame_size buf max_bytes =
     (if \<not> length buf \<le> max_bytes then bail (exceeds max_bytes)
      else case find_header_end buf of
        Some end \<Rightarrow>
          if \<not> end \<le> 8192 then bail header_exceeds
          else if \<not> valid_utf8 (take end buf) then bail ''invalid utf-8''
          else (case parse_content_length (take end buf) of
              None \<Rightarrow> bail ''invalid Content-Length''
            | Some len \<Rightarrow>
                if \<not> len \<le> max_bytes - end then bail (exceeds max_bytes) else Inr ())
      | None \<Rightarrow> if \<not> length buf < 8192 then bail header_exceeds else Inr ())"

definition frame_header :: "nat \<Rightarrow> string" where
  "frame_header n = ''Content-Length: '' @ show_nat n @ crlf2"

definition encode_message :: "serde \<Rightarrow> json \<Rightarrow> string" where
  "encode_message sj body =
     (let json = to_text sj body in frame_header (length json) @ json)"

definition try_decode_message :: "serde \<Rightarrow> string \<Rightarrow> (json \<times> nat) option result" where
  "try_decode_message sj buf =
     (case find_header_end buf of
        None \<Rightarrow> Inr None
      | Some header_end \<Rightarrow>
          if \<not> valid_utf8 (take header_end buf) then Inr None
          else (case parse_content_length (take header_end buf) of
              None \<Rightarrow> Inr None
            | Some content_length \<Rightarrow>
                if \<not> header_end + content_length < 2 ^ 64 then Inr None
                else let body_end = header_end + content_length in
                  if length buf < body_end then Inr None
                  else let text = drop header_end (take body_end buf) in
                    if \<not> valid_utf8 text
                    then bail ''bridge sent invalid JSON: invalid utf-8''
                    else (case from_str sj text of
                        Inl e \<Rightarrow> bail (''bridge sent invalid JSON: '' @ e)
                      | Inr body \<Rightarrow>
                          if \<not> is_object body
                          then bail ''bridge sent invalid JSON: expected object''
                          else Inr (Some (body, body_end)))))"

section \<open>The header\<close>

lemma length_crlf2 [simp]: "length crlf2 = 4" "crlf2 \<noteq> []"
  by (simp_all add: crlf2_def)

lemma position_of_Some_bound: "position_of p s = Some i \<Longrightarrow> i + length p \<le> length s \<and> take (length p) (drop i s) = p"
proof (induction s arbitrary: i)
  case Nil
  then show ?case by simp
next
  case (Cons c s)
  then show ?case
  proof (cases "starts_with (c # s) p")
    case True
    with Cons.prems have "i = 0" by simp
    moreover have "length (take (length p) (c # s)) = length p"
      using True by (simp only: starts_with_def)
    ultimately show ?thesis
      using True by (simp add: starts_with_def)
  next
    case False
    with Cons show ?thesis by auto
  qed
qed

lemma find_header_end_le: "find_header_end buf = Some e \<Longrightarrow> e \<le> length buf"
  by (auto simp: find_header_end_def dest: position_of_Some_bound)

lemma position_of_fresh:
  assumes "CHR 0x0D \<notin> set xs"
  shows "position_of crlf2 (xs @ ys) = map_option (\<lambda>i. length xs + i) (position_of crlf2 ys)"
  using assms
proof (induction xs)
  case Nil
  show ?case by (simp add: option.map_ident)
next
  case (Cons x xs)
  then have "\<not> starts_with (x # xs @ ys) crlf2"
    by (auto simp: starts_with_def crlf2_def)
  with Cons show ?case
    by (simp add: option.map_comp comp_def)
qed

lemma position_of_short: "length s < length p \<Longrightarrow> position_of p s = None"
proof (induction s)
  case Nil
  show ?case by simp
next
  case (Cons c s)
  have "\<not> starts_with (c # s) p"
  proof
    assume "starts_with (c # s) p"
    then have "length (take (length p) (c # s)) = length p"
      by (simp only: starts_with_def)
    with Cons.prems show False by simp
  qed
  with Cons show ?case by simp
qed

lemma position_of_here: "p \<noteq> [] \<Longrightarrow> position_of p (p @ s) = Some 0"
  by (cases p) (simp_all add: starts_with_def)

definition header_text :: "nat \<Rightarrow> string" where
  "header_text n = ''Content-Length: '' @ show_nat n"

lemma frame_header_text: "frame_header n = header_text n @ crlf2"
  by (simp add: frame_header_def header_text_def)

lemma header_text_bytes:
  "c \<in> set (header_text n) \<Longrightarrow> 32 \<le> code c \<and> code c < 128"
  by (auto simp: header_text_def code_def is_ascii_digit_def dest!: show_nat_digits)

lemma header_text_fresh [simp]:
  "CHR 0x0D \<notin> set (header_text n)" "CHR 0x0A \<notin> set (header_text n)"
  by (force dest: header_text_bytes simp: code_def)+

lemma find_header_end_frame [simp]:
  "find_header_end (frame_header n @ s) = Some (length (frame_header n))"
proof -
  have "position_of crlf2 (header_text n @ crlf2 @ s) = Some (length (header_text n))"
    by (subst position_of_fresh) (simp_all add: position_of_here)
  then show ?thesis
    by (simp add: find_header_end_def frame_header_text)
qed

lemma find_header_end_partial:
  assumes "k < length (frame_header n)"
  shows "find_header_end (take k (frame_header n)) = None"
proof -
  have "position_of crlf2 (take k (header_text n) @ take (k - length (header_text n)) crlf2) =
      map_option (\<lambda>i. length (take k (header_text n)) + i)
        (position_of crlf2 (take (k - length (header_text n)) crlf2))"
    by (rule position_of_fresh) (auto dest: in_set_takeD)
  moreover have "position_of crlf2 (take (k - length (header_text n)) crlf2) = None"
    using assms by (intro position_of_short) (simp add: frame_header_text)
  ultimately show ?thesis
    by (simp add: find_header_end_def frame_header_text)
qed

lemma valid_utf8_frame_header [simp]: "valid_utf8 (frame_header n)"
  by (rule valid_utf8_ascii)
    (auto simp: frame_header_text crlf2_def code_def dest: header_text_bytes [unfolded code_def])

lemma str_lines_frame_header: "str_lines (frame_header n) = [header_text n, []]"
proof -
  obtain c s where hs: "header_text n = c # s"
    by (cases "header_text n") (auto simp: header_text_def)
  let ?r = "[CHR 0x0D, CHR 0x0A]"
  have line: "header_text n @ [CHR 0x0D, CHR 0x0A] @ ?r = (c # s @ [CHR 0x0D]) @ CHR 0x0A # ?r"
    by (simp add: hs)
  have fresh: "x \<noteq> CHR 0x0A" if "x \<in> set (c # s @ [CHR 0x0D])" for x
    using that header_text_fresh(2) [of n] by (auto simp: hs)
  have tw: "takeWhile (\<lambda>x. x \<noteq> CHR 0x0A) ((c # s @ [CHR 0x0D]) @ CHR 0x0A # ?r) = c # s @ [CHR 0x0D]"
    by (rule takeWhile_append_stop) (use fresh in simp_all)
  have dw: "dropWhile (\<lambda>x. x \<noteq> CHR 0x0A) ((c # s @ [CHR 0x0D]) @ CHR 0x0A # ?r) = CHR 0x0A # ?r"
    by (rule dropWhile_append_stop) (use fresh in simp_all)
  have "str_lines ((c # s @ [CHR 0x0D]) @ CHR 0x0A # ?r) =
      strip_cr (c # s @ [CHR 0x0D]) # str_lines ?r"
    using tw dw by simp
  moreover have "str_lines ?r = [[]]"
    by (simp add: strip_cr_def)
  moreover have "strip_cr (c # s @ [CHR 0x0D]) = c # s"
    by (simp add: strip_cr_def)
  ultimately show ?thesis
    by (simp add: frame_header_text crlf2_def hs)
qed

lemma parse_content_length_frame [simp]:
  assumes "n < 2 ^ 64"
  shows "parse_content_length (frame_header n) = Some n"
proof -
  have "split_once (CHR '':'') (''Content-Length'' @ CHR '':'' # CHR '' '' # show_nat n) =
      Some (''Content-Length'', CHR '' '' # show_nat n)"
    by (rule split_once_stop) simp
  then have split: "split_once (CHR '':'') (header_text n) =
      Some (''Content-Length'', CHR '' '' # show_nat n)"
    by (simp add: header_text_def)
  have "eq_ignore_ascii_case (trim ''Content-Length'') ''content-length''"
    by code_simp
  with assms split show ?thesis
    by (simp add: parse_content_length_def str_lines_frame_header)
qed

lemma length_frame_header: "length (frame_header n) = 20 + length (show_nat n)"
  by (simp add: frame_header_def)


lemma length_frame_header_bound:
  assumes "n < 2 ^ 64"
  shows "length (frame_header n) \<le> 40"
proof -
  have "(2 :: nat) ^ 64 < 10 ^ Suc 19" by simp
  then have "n < 10 ^ Suc 19"
    using assms by (rule less_trans [rotated])
  from length_show_nat [OF this] show ?thesis
    by (simp add: length_frame_header)
qed

section \<open>Frames\<close>

text \<open>
  A frame the CLI can send and read: its text parses back, is an object, and stays below the
  \<open>usize\<close> range with its header.
\<close>

definition frameable :: "serde \<Rightarrow> json \<Rightarrow> bool" where
  "frameable sj v = (reads_back sj v \<and> is_object v \<and> length (to_text sj v) + 40 < 2 ^ 64)"

lemma frameableD:
  assumes "frameable sj v"
  shows "from_str sj (to_text sj v) = Inr v" "valid_utf8 (to_text sj v)" "is_object v"
    "length (to_text sj v) < 2 ^ 64"
    "length (frame_header (length (to_text sj v))) + length (to_text sj v) < 2 ^ 64"
proof -
  show a: "from_str sj (to_text sj v) = Inr v" "valid_utf8 (to_text sj v)" "is_object v"
    "length (to_text sj v) < 2 ^ 64"
    using assms by (simp_all add: frameable_def reads_back_def)
  show "length (frame_header (length (to_text sj v))) + length (to_text sj v) < 2 ^ 64"
    using assms length_frame_header_bound [OF a(4)] by (simp add: frameable_def)
qed

lemma encode_message_eq:
  "encode_message sj v = frame_header (length (to_text sj v)) @ to_text sj v"
  by (simp add: encode_message_def Let_def)

lemma decode_with_header:
  assumes "n < 2 ^ 64" "length (frame_header n) + n < 2 ^ 64"
  shows "try_decode_message sj (frame_header n @ s) =
    (if length s < n then Inr None
     else if \<not> valid_utf8 (take n s) then bail ''bridge sent invalid JSON: invalid utf-8''
     else case from_str sj (take n s) of
         Inl e \<Rightarrow> bail (''bridge sent invalid JSON: '' @ e)
       | Inr body \<Rightarrow>
           if \<not> is_object body then bail ''bridge sent invalid JSON: expected object''
           else Inr (Some (body, length (frame_header n) + n)))"
  using assms by (simp add: try_decode_message_def Let_def)

lemma decode_full:
  "frameable sj v \<Longrightarrow>
   try_decode_message sj (encode_message sj v @ rest) = Inr (Some (v, length (encode_message sj v)))"
  using decode_with_header [OF frameableD(4,5)] by (simp add: encode_message_eq frameableD)

lemma decode_short:
  assumes "frameable sj v" "k < length (encode_message sj v)"
  shows "try_decode_message sj (take k (encode_message sj v)) = Inr None"
proof -
  let ?n = "length (to_text sj v)"
  show ?thesis
  proof (cases "k < length (frame_header ?n)")
    case True
    then show ?thesis
      using find_header_end_partial [OF True]
      by (simp add: encode_message_eq try_decode_message_def)
  next
    case False
    then have "take k (encode_message sj v) =
        frame_header ?n @ take (k - length (frame_header ?n)) (to_text sj v)"
      by (simp add: encode_message_eq)
    moreover have "k - length (frame_header ?n) < ?n"
      using assms(2) False by (simp add: encode_message_eq)
    ultimately show ?thesis
      by (simp add: decode_with_header [OF frameableD(4,5) [OF assms(1)]])
  qed
qed

lemma validate_with_header:
  assumes "n < 2 ^ 64"
  shows "validate_frame_size (frame_header n @ s) max_bytes =
    (if length (frame_header n @ s) \<le> max_bytes \<and> n \<le> max_bytes - length (frame_header n)
     then Inr () else bail (exceeds max_bytes))"
proof -
  have "length (frame_header n) \<le> 8192"
    using length_frame_header_bound [OF assms] by simp
  then show ?thesis
    using assms by (simp add: validate_frame_size_def)
qed

lemma validate_prefix:
  assumes "frameable sj v" "length (encode_message sj v) \<le> max_bytes"
    and "length (take k (encode_message sj v @ rest)) \<le> max_bytes"
  shows "validate_frame_size (take k (encode_message sj v @ rest)) max_bytes = Inr ()"
proof -
  let ?n = "length (to_text sj v)"
  have h: "length (frame_header ?n) \<le> 40"
    using assms(1) by (intro length_frame_header_bound) (rule frameableD)
  show ?thesis
  proof (cases "k < length (frame_header ?n)")
    case True
    then have "take k (encode_message sj v @ rest) = take k (frame_header ?n)"
      by (simp add: encode_message_eq)
    moreover have "length (take k (frame_header ?n)) < 8192"
      using h by simp
    ultimately show ?thesis
      using assms(3) find_header_end_partial [OF True] by (simp add: validate_frame_size_def)
  next
    case False
    let ?s = "take (k - length (frame_header ?n)) (to_text sj v @ rest)"
    have eq: "take k (encode_message sj v @ rest) = frame_header ?n @ ?s"
      using False by (simp add: encode_message_eq)
    have "length (frame_header ?n @ ?s) \<le> max_bytes"
      using assms(3) by (simp only: eq)
    moreover have "?n \<le> max_bytes - length (frame_header ?n)"
      using assms(2) by (simp add: encode_message_eq)
    ultimately show ?thesis
      using frameableD(4) [OF assms(1)] by (simp only: eq validate_with_header if_True simp_thms)
  qed
qed

section \<open>The interface of the framing\<close>

text \<open>
  What a reader of frames relies on. Its clients, the request loop of \<open>client.rs\<close> and the probe
  of \<open>session/attach.rs\<close>, both accumulate bytes and try to decode after every read: the locale
  proves once what they see at each moment of a transfer.
\<close>

locale frame_codec =
  fixes encode :: "'v \<Rightarrow> string"
    and decode :: "string \<Rightarrow> ('v \<times> nat) option result"
    and check :: "string \<Rightarrow> nat \<Rightarrow> unit result"
    and sendable :: "'v \<Rightarrow> bool"
  assumes full: "sendable v \<Longrightarrow> decode (encode v @ rest) = Inr (Some (v, length (encode v)))"
    and short: "sendable v \<Longrightarrow> k < length (encode v) \<Longrightarrow> decode (take k (encode v)) = Inr None"
    and checked: "sendable v \<Longrightarrow> length (encode v) \<le> m \<Longrightarrow>
      length (take k (encode v @ rest)) \<le> m \<Longrightarrow> check (take k (encode v @ rest)) m = Inr ()"
begin

lemma decode_prefix:
  assumes "sendable v"
  shows "decode (take k (encode v @ rest)) =
    Inr (if k < length (encode v) then None else Some (v, length (encode v)))"
proof (cases "k < length (encode v)")
  case True
  then show ?thesis using short [OF assms True] by simp
next
  case False
  then have "take k (encode v @ rest) = encode v @ take (k - length (encode v)) rest"
    by simp
  then show ?thesis using full [OF assms] False by simp
qed

lemma decode_partial:
  assumes "sendable v" "buf @ later = encode v @ rest"
  shows "decode buf = Inr (if length buf < length (encode v) then None else Some (v, length (encode v)))"
proof -
  have "buf = take (length buf) (encode v @ rest)"
    using assms(2) by (metis append_eq_take)
  then show ?thesis
    using decode_prefix [OF assms(1), of "length buf" rest] by simp
qed

lemma check_partial:
  assumes "sendable v" "buf @ later = encode v @ rest" "length (encode v @ rest) \<le> m"
  shows "check buf m = Inr ()"
proof -
  have buf: "buf = take (length buf) (encode v @ rest)"
    using assms(2) by (metis append_eq_take)
  have "length buf \<le> m"
    using assms(2,3) by (metis length_append le_add1 le_trans)
  with buf show ?thesis
    using checked [of v m "length buf" rest] assms(1,3) by simp
qed

lemma encode_prefix_free:
  assumes "sendable v" "sendable w" "encode v @ r = encode w @ s"
  shows "v = w \<and> r = s"
proof -
  have "decode (encode v @ r) = decode (encode w @ s)"
    using assms(3) by simp
  then have "v = w"
    using assms(1,2) by (simp add: full)
  with assms(3) show ?thesis by simp
qed

end

interpretation dap: frame_codec "encode_message sj" "try_decode_message sj"
  validate_frame_size "frameable sj" for sj
  by unfold_locales (rule decode_full decode_short validate_prefix; assumption)+


section \<open>Properties\<close>

lemma frameable_brace: "frameable brace_serde (VObject [])"
  by (simp add: frameable_def reads_back_def brace_serde_def is_object_def code_def)

text \<open>C27: Round trip of the framing. Decoding an encoded message, with anything after it in the
  buffer, gives the message back and consumes exactly its frame.\<close>

theorem frame_roundtrip:
  assumes "frameable sj v"
  shows "try_decode_message sj (encode_message sj v @ rest) =
    Inr (Some (v, length (encode_message sj v)))"
  using assms by (rule dap.full)

theorem frame_roundtrip_witness:
  "try_decode_message brace_serde (encode_message brace_serde (VObject []) @ ''xy'') =
    Inr (Some (VObject [], length (encode_message brace_serde (VObject []))))"
  by (rule frame_roundtrip [OF frameable_brace])

text \<open>Every strict prefix of a frame reads as "not yet": the decoder neither fails nor
  returns early while bytes are missing, and no part of a frame within the bound is refused.\<close>

theorem frame_incremental:
  assumes "frameable sj v" and "k < length (encode_message sj v)"
    and "length (encode_message sj v) \<le> max_bytes"
  shows "try_decode_message sj (take k (encode_message sj v)) = Inr None \<and>
    validate_frame_size (take k (encode_message sj v)) max_bytes = Inr ()"
  using dap.short [OF assms(1,2)] assms(3)
    dap.check_partial [OF assms(1), of "take k (encode_message sj v)"
      "drop k (encode_message sj v)" "[]" max_bytes]
  by simp

lemma length_encode_brace: "length (encode_message brace_serde (VObject [])) = 23"
  by (simp add: encode_message_eq length_frame_header brace_serde_def show_nat.simps)

theorem frame_incremental_witness:
  "try_decode_message brace_serde (take 5 (encode_message brace_serde (VObject []))) = Inr None \<and>
   validate_frame_size (take 5 (encode_message brace_serde (VObject []))) 64 = Inr ()"
  using frame_incremental [OF frameable_brace, of 5 64] by (simp add: length_encode_brace)

text \<open>Fail fast. A complete frame whose body does not parse, or is no object, is an error at
  once; the reader does not wait for more bytes.\<close>

theorem corrupt_frame_fails:
  assumes "n < 2 ^ 64" and "length (frame_header n) + n < 2 ^ 64" and "n \<le> length s"
    and "\<And>v. from_str sj (take n s) = Inr v \<Longrightarrow> \<not> is_object v"
  shows "\<exists>e. try_decode_message sj (frame_header n @ s) = Inl e"
  using assms by (auto simp: decode_with_header bail_def split: sum.split)

theorem corrupt_frame_fails_witness:
  "\<exists>e. try_decode_message brace_serde (frame_header 2 @ ''[]'') = Inl e"
proof (rule corrupt_frame_fails)
  show "length (frame_header 2) + 2 < 2 ^ 64"
    using length_frame_header_bound [of 2] by simp
qed (simp_all add: brace_serde_def)

text \<open>The size bound. When a buffer passes the size check and the decoder takes a message from
  it, the whole frame is within the bound, its header within 8192 bytes: a bogus length can never
  make the reader collect more than the bound.\<close>

theorem validated_frame_bounded:
  assumes "validate_frame_size buf max_bytes = Inr ()"
    and "try_decode_message sj buf = Inr (Some (v, consumed))"
  shows "consumed \<le> max_bytes \<and> consumed \<le> length buf \<and> is_object v \<and>
    (\<exists>e. find_header_end buf = Some e \<and> e \<le> 8192)"
  using assms
  by (auto simp: validate_frame_size_def try_decode_message_def Let_def bail_def
      split: option.splits if_splits sum.splits)

theorem validated_frame_bounded_witness:
  "23 \<le> (64 :: nat) \<and> (\<exists>e. find_header_end (encode_message brace_serde (VObject [])) = Some e \<and> e \<le> 8192)"
proof -
  have "validate_frame_size (encode_message brace_serde (VObject [])) 64 = Inr ()"
    using dap.check_partial [OF frameable_brace, of _ "[]" "[]" 64] by (simp add: length_encode_brace)
  moreover have "try_decode_message brace_serde (encode_message brace_serde (VObject [])) =
      Inr (Some (VObject [], 23))"
    using dap.full [OF frameable_brace, of "[]"] by (simp add: length_encode_brace)
  ultimately show ?thesis
    using validated_frame_bounded by blast
qed

end
