(* ===== verification/Client.thy ===== *)
theory Client
  imports Dap
begin

text \<open>
  \<open>src/client.rs\<close>: one framed request per TCP connection, one response read until its frame is
  complete, the deadline passes or the connection ends. The socket and the clock are the
  environment: an \<open>exchange\<close> is the script of what they answer, call by call.
\<close>

section \<open>The environment\<close>

text \<open>One pass of the read loop: the clock, \<open>set_read_timeout\<close>, and what \<open>read\<close> returns
  (an empty text is the end of the stream). The read timeout set once up front is the bridge
  probe's (\<open>session/attach.rs\<close>); \<open>request\<close> sets its own before every read.\<close>

record read_step =
  now_at :: nat
  set_timeout :: "io_error option"
  received :: "io_error + string"

record exchange =
  connected :: "io_error option"
  set_read_timeout :: "io_error option"
  set_write_timeout :: "io_error option"
  sent :: "io_error option"
  started_at :: nat
  steps :: "read_step list"

section \<open>The functions of the file\<close>

definition MAX_FRAME_BYTES :: nat where
  "MAX_FRAME_BYTES = 64 * 1024 * 1024"

definition transient :: "io_kind \<Rightarrow> bool" where
  "transient k = (k = Interrupted \<or> k = WouldBlock \<or> k = TimedOut)"

text \<open>The loop. \<open>None\<close>: the script ended while the call was still waiting to read.\<close>

fun receive :: "serde \<Rightarrow> u16 \<Rightarrow> nat \<Rightarrow> string \<Rightarrow> read_step list \<Rightarrow> json result option" where
  "receive sj port deadline buf rs =
     (case validate_frame_size buf MAX_FRAME_BYTES of
        Inl e \<Rightarrow> Some (Inl e)
      | Inr _ \<Rightarrow> (case try_decode_message sj buf of
          Inl e \<Rightarrow> Some (Inl e)
        | Inr (Some (value, _)) \<Rightarrow> Some (Inr value)
        | Inr None \<Rightarrow> (case rs of
            [] \<Rightarrow> None
          | r # rs' \<Rightarrow>
              if deadline - now_at r = 0 then
                Some (bail (''timed out waiting for debug session on port '' @ show_nat (unat port)))
              else (case set_timeout r of
                Some e \<Rightarrow> Some (Inl (Io e))
              | None \<Rightarrow> (case received r of
                  Inr [] \<Rightarrow> (case try_decode_message sj buf of
                      Inl e \<Rightarrow> Some (Inl e)
                    | Inr (Some (value, _)) \<Rightarrow> Some (Inr value)
                    | Inr None \<Rightarrow> Some (bail ''debug session closed the connection mid-response''))
                | Inr (b # bs) \<Rightarrow> receive sj port deadline (buf @ b # bs) rs'
                | Inl e \<Rightarrow>
                    if transient (io_kind e) then receive sj port deadline buf rs'
                    else Some (bail (''read from debug session failed: '' @ io_text e)))))))"

declare receive.simps [simp del]

text \<open>The whole call: the result, and the bytes that went out on the connection.\<close>

definition request ::
  "serde \<Rightarrow> u16 \<Rightarrow> json \<Rightarrow> nat \<Rightarrow> exchange \<Rightarrow> string \<times> json result option" where
  "request sj port body timeout x =
     (case connected x of
        Some e \<Rightarrow> ([], Some (bail (''cannot reach debug session on port '' @ show_nat (unat port) @
          '': '' @ io_text e @ '' (stale session? try `close`)'')))
      | None \<Rightarrow> (case set_write_timeout x of
          Some e \<Rightarrow> ([], Some (Inl (Io e)))
        | None \<Rightarrow> (case sent x of
            Some e \<Rightarrow> ([], Some (Inl (Io e)))
          | None \<Rightarrow> (encode_message sj body,
              receive sj port (started_at x + timeout) [] (steps x)))))"

section \<open>Transfers\<close>

text \<open>What the peer has sent so far, and a transfer the loop can follow: before the deadline,
  no hard error, no end of stream.\<close>

definition chunk_of :: "read_step \<Rightarrow> string" where
  "chunk_of r = (case received r of Inr bs \<Rightarrow> bs | Inl _ \<Rightarrow> [])"

definition quiet_step :: "nat \<Rightarrow> read_step \<Rightarrow> bool" where
  "quiet_step deadline r =
     (now_at r < deadline \<and> set_timeout r = None \<and>
      (case received r of Inr bs \<Rightarrow> bs \<noteq> [] | Inl e \<Rightarrow> transient (io_kind e)))"

lemma receive_done:
  assumes "frameable sj v" "buf @ later = encode_message sj v @ rest"
    and "length (encode_message sj v @ rest) \<le> MAX_FRAME_BYTES"
    and "length (encode_message sj v) \<le> length buf"
  shows "receive sj port deadline buf rs = Some (Inr v)"
  using dap.check_partial [OF assms(1-3)] dap.decode_partial [OF assms(1,2)] assms(4)
  by (subst receive.simps) simp

lemma receive_more:
  assumes "frameable sj v" "buf @ later = encode_message sj v @ rest"
    and "length (encode_message sj v @ rest) \<le> MAX_FRAME_BYTES"
    and "length buf < length (encode_message sj v)" and "quiet_step deadline r"
  shows "receive sj port deadline buf (r # rs) =
    receive sj port deadline (buf @ chunk_of r) rs"
  using dap.check_partial [OF assms(1-3)] dap.decode_partial [OF assms(1,2)] assms(4,5)
  by (subst receive.simps)
    (auto simp: quiet_step_def chunk_of_def split: sum.splits list.splits)

lemma receive_transfer:
  assumes "frameable sj v" "length (encode_message sj v @ rest) \<le> MAX_FRAME_BYTES"
    and "\<forall>r\<in>set rs. quiet_step deadline r"
    and "buf @ concat (map chunk_of rs) = encode_message sj v @ rest"
  shows "receive sj port deadline buf (rs @ more_steps) = Some (Inr v)"
  using assms(3,4)
proof (induction rs arbitrary: buf)
  case Nil
  then have "buf @ [] = encode_message sj v @ rest" by simp
  from receive_done [OF assms(1) this assms(2)] Nil show ?case by simp
next
  case (Cons r rs)
  have buf: "buf @ concat (map chunk_of (r # rs)) = encode_message sj v @ rest"
    by (rule Cons.prems(2))
  show ?case
  proof (cases "length (encode_message sj v) \<le> length buf")
    case True
    then show ?thesis
      by (rule receive_done [OF assms(1) buf assms(2)])
  next
    case False
    then have "receive sj port deadline buf ((r # rs) @ more_steps) =
        receive sj port deadline (buf @ chunk_of r) (rs @ more_steps)"
      using receive_more [OF assms(1) buf assms(2), of deadline r port "rs @ more_steps"]
        Cons.prems(1) by simp
    moreover have "(buf @ chunk_of r) @ concat (map chunk_of rs) = encode_message sj v @ rest"
      using buf by simp
    ultimately show ?thesis
      using Cons.IH [of "buf @ chunk_of r"] Cons.prems(1) by simp
  qed
qed

text \<open>A step the deadline has passed ends the loop whatever came before.\<close>

lemma receive_deadline:
  assumes "\<exists>r\<in>set rs. deadline \<le> now_at r"
  shows "receive sj port deadline buf rs \<noteq> None"
  using assms
proof (induction rs arbitrary: buf)
  case Nil
  then show ?case by simp
next
  case (Cons r rs)
  then show ?case
    by (subst receive.simps) (auto split: sum.splits option.splits list.splits)
qed

section \<open>Properties\<close>

text \<open>C26: The response does not depend on how the network cuts it up. Whatever chunks a complete
  frame (and anything after it) arrives in, with any spurious wake-ups, interrupts and slow reads
  in between, as long as the deadline has not passed the request returns the peer's value.\<close>

theorem request_chunking:
  assumes "connected x = None" "set_write_timeout x = None" "sent x = None"
    and "frameable sj v" "length (encode_message sj v @ rest) \<le> MAX_FRAME_BYTES"
    and "steps x = rs @ more_steps"
    and "\<forall>r\<in>set rs. quiet_step (started_at x + timeout) r"
    and "concat (map chunk_of rs) = encode_message sj v @ rest"
  shows "request sj port body timeout x = (encode_message sj body, Some (Inr v))"
  using assms receive_transfer [OF assms(4,5,7), of "[]"] by (simp add: request_def)

definition demo_exchange :: exchange where
  "demo_exchange =
     \<lparr>connected = None, set_read_timeout = None, set_write_timeout = None, sent = None, started_at = 7,
      steps = [
        \<lparr>now_at = 8, set_timeout = None, received = Inr (''Content-Length: '')\<rparr>,
        \<lparr>now_at = 9, set_timeout = None, received = Inl (IoError WouldBlock ''again'')\<rparr>,
        \<lparr>now_at = 10, set_timeout = None, received = Inr (''2'' @ crlf2 @ ''{}'')\<rparr>]\<rparr>"

lemma show_two: "show_nat (Suc (Suc 0)) = ''2''"
  by code_simp

theorem request_chunking_witness:
  "request brace_serde 5678 (VObject []) 10 demo_exchange =
    (encode_message brace_serde (VObject []), Some (Inr (VObject [])))"
proof (rule request_chunking)
  show "length (encode_message brace_serde (VObject []) @ []) \<le> MAX_FRAME_BYTES"
    by (simp add: length_encode_brace MAX_FRAME_BYTES_def)
  show "concat (map chunk_of (steps demo_exchange)) = encode_message brace_serde (VObject []) @ []"
    by (simp add: demo_exchange_def chunk_of_def encode_message_eq frame_header_def brace_serde_def
        show_two)
qed (auto simp: demo_exchange_def quiet_step_def transient_def frameable_brace)



text \<open>
  A script that ends is a peer that has gone: the next read is the end of the stream. With this
  last step every request has an answer.
\<close>

definition hang_up :: read_step where
  "hang_up = \<lparr>now_at = 0, set_timeout = None, received = Inr []\<rparr>"

definition answered :: "exchange \<Rightarrow> exchange" where
  "answered x = x\<lparr>steps := steps x @ [hang_up]\<rparr>"

lemma receive_hang_up: "receive sj port deadline buf (rs @ [hang_up]) \<noteq> None"
proof (induction rs arbitrary: buf)
  case Nil
  show ?case
    by (subst receive.simps) (simp add: hang_up_def split: sum.splits option.splits prod.splits)
next
  case (Cons r rs)
  then show ?case
    by (subst receive.simps)
      (auto split: sum.splits option.splits prod.splits list.splits)
qed

lemma request_answered: "\<exists>r. snd (request sj port body timeout (answered x)) = Some r"
  using receive_hang_up by (auto simp: request_def answered_def split: option.splits)

end
