(* ===== verification/World.thy ===== *)
theory World
  imports Client "HOL-Library.State_Monad"
begin

text \<open>
  The operating system the session code runs on: a file system shared with other processes,
  kernel file locks, and a clock. A \<open>kern\<close> is one state of it. Every system call first lets the
  other processes act (\<open>interfere\<close>), then either fails (\<open>fault\<close>) or takes effect; both are
  functions of the number of calls made so far, so a statement over all environments covers
  every interleaving with other processes and every transient error. The states the file system
  goes through are recorded in \<open>history\<close>, the requests sent to bridges in \<open>requests\<close>; the counters
  are the program's static atomics. What a bridge answers (\<open>peer\<close>), whether a port accepts
  (\<open>tcp_connect\<close>) and the order in which a directory lists its names (\<open>dir_names\<close>) are the
  environment's too. Other programs are parameters as well: what a program that is run to its end
  does and answers (\<open>runs\<close>), whether one can be started in the background (\<open>launches\<close>) and when it
  ends (\<open>reaped\<close>); the commands given are recorded in \<open>commands\<close>. The texts the build embeds in the
  binary (\<open>include_str!\<close>) are \<open>embedded\<close>.

  A path is its text; the final component of a path may be a symbolic link, intermediate links
  are not modelled. Times are nanoseconds since the epoch.
\<close>

section \<open>State\<close>

datatype node =
    File (ino_of: nat) (content_of: string) (mtime_of: nat)
  | Dir (mtime_of: nat)
  | Link string
  | Special (mtime_of: nat)

datatype file_type = TFile | TDir | TLink | TSpecial

fun node_type :: "node \<Rightarrow> file_type" where
  "node_type (File _ _ _) = TFile"
| "node_type (Dir _) = TDir"
| "node_type (Link _) = TLink"
| "node_type (Special _) = TSpecial"

record kern =
  files :: "string \<Rightarrow> node option"
  flocks :: "nat \<Rightarrow> nat option"
  next_ino :: nat
  next_fd :: nat

text \<open>How a program ended: a status with its text, and for a program run to its end what it printed.\<close>

datatype exit_status = ExitStatus (exit_ok: bool) (exit_text: string)

record run_output =
  out_status :: exit_status
  out_stdout :: string
  out_stderr :: string

datatype ran = NotStarted io_error | NotWaited io_error | Overran u32 | Finished run_output

record env =
  interfere :: "nat \<Rightarrow> kern \<Rightarrow> kern"
  fault :: "nat \<Rightarrow> io_error option"
  written_before_fault :: "nat \<Rightarrow> nat"
  kept_on_fault :: "nat \<Rightarrow> string \<Rightarrow> bool"
  clock :: "nat \<Rightarrow> nat"
  process_id :: nat
  home_var :: "string option"
  cwd_var :: "string option"
  codec :: serde
  dir_names :: "nat \<Rightarrow> string \<Rightarrow> string list"
  peer :: "nat \<Rightarrow> u16 \<Rightarrow> json \<Rightarrow> nat \<Rightarrow> exchange"
  tcp_connect :: "nat \<Rightarrow> u16 \<Rightarrow> io_error option"
  path_var :: "string option"
  embedded :: "string \<Rightarrow> string"
  runs :: "nat \<Rightarrow> string list \<Rightarrow> nat option \<Rightarrow> kern \<Rightarrow> ran \<times> kern"
  launches :: "nat \<Rightarrow> string list \<Rightarrow> io_error + u32"
  reaped :: "nat \<Rightarrow> u32 \<Rightarrow> io_error + exit_status option"

record world =
  kern :: kern
  calls :: nat
  history :: "kern list"
  nonce_counter :: u64
  tmp_counter :: u64
  provision_counter :: u64
  requests :: "(u16 \<times> json \<times> nat) list"
  node_path :: "string option"
  commands :: "string list list"

type_synonym 'a io = "(world, 'a) state"

section \<open>Composition\<close>

text \<open>\<open>try_io m f\<close> is \<open>f(m?)\<close>.\<close>

definition try_io :: "('e + 'a) io \<Rightarrow> ('a \<Rightarrow> ('e + 'b) io) \<Rightarrow> ('e + 'b) io" where
  "try_io m f = do { r \<leftarrow> m; case r of Inl e \<Rightarrow> State_Monad.return (Inl e) | Inr a \<Rightarrow> f a }"

definition ok :: "'a \<Rightarrow> ('e + 'a) io" where
  "ok a = State_Monad.return (Inr a)"

definition err :: "'e \<Rightarrow> ('e + 'a) io" where
  "err e = State_Monad.return (Inl e)"

definition lift_result :: "('e + 'a) \<Rightarrow> ('e + 'a) io" where
  "lift_result r = State_Monad.return r"

definition map_err :: "('e \<Rightarrow> 'f) \<Rightarrow> ('e + 'a) io \<Rightarrow> ('f + 'a) io" where
  "map_err h m = do { r \<leftarrow> m;
     State_Monad.return (case r of Inl e \<Rightarrow> Inl (h e) | Inr a \<Rightarrow> Inr a) }"

lemma run_try_io [simp]:
  "run_state (try_io m f) w =
     (case run_state m w of (Inl e, w') \<Rightarrow> (Inl e, w') | (Inr a, w') \<Rightarrow> run_state (f a) w')"
  by (simp add: try_io_def split: prod.split sum.split)

lemma run_ok [simp]: "run_state (ok a) w = (Inr a, w)"
  by (simp add: ok_def)

lemma run_err [simp]: "run_state (err e) w = (Inl e, w)"
  by (simp add: err_def)

lemma run_lift_result [simp]: "run_state (lift_result r) w = (r, w)"
  by (simp add: lift_result_def)

lemma run_map_err [simp]:
  "run_state (map_err h m) w =
     (case run_state m w of (Inl e, w') \<Rightarrow> (Inl (h e), w') | (Inr a, w') \<Rightarrow> (Inr a, w'))"
  by (simp add: map_err_def split: prod.split sum.split)

section \<open>System calls\<close>

text \<open>
  What a call finds: the state after the others have acted. \<open>moved\<close> is the world after a call
  that changes nothing, \<open>changed\<close> after one that leaves the state \<open>k\<close>.
\<close>

definition seen :: "env \<Rightarrow> world \<Rightarrow> kern" where
  "seen E w = interfere E (calls w) (kern w)"

definition moved :: "env \<Rightarrow> world \<Rightarrow> world" where
  "moved E w = w\<lparr>kern := seen E w, calls := Suc (calls w), history := history w @ [seen E w]\<rparr>"

definition changed :: "env \<Rightarrow> kern \<Rightarrow> world \<Rightarrow> world" where
  "changed E k w = w\<lparr>kern := k, calls := Suc (calls w), history := history w @ [seen E w, k]\<rparr>"

lemma moved_simps [simp]:
  "kern (moved E w) = seen E w" "calls (moved E w) = Suc (calls w)"
  "history (moved E w) = history w @ [seen E w]"
  "nonce_counter (moved E w) = nonce_counter w" "tmp_counter (moved E w) = tmp_counter w"
  "provision_counter (moved E w) = provision_counter w" "requests (moved E w) = requests w"
  "node_path (moved E w) = node_path w" "commands (moved E w) = commands w"
  by (simp_all add: moved_def)

lemma changed_simps [simp]:
  "kern (changed E k w) = k" "calls (changed E k w) = Suc (calls w)"
  "history (changed E k w) = history w @ [seen E w, k]"
  "nonce_counter (changed E k w) = nonce_counter w" "tmp_counter (changed E k w) = tmp_counter w"
  "provision_counter (changed E k w) = provision_counter w" "requests (changed E k w) = requests w"
  "node_path (changed E k w) = node_path w" "commands (changed E k w) = commands w"
  by (simp_all add: changed_def)

text \<open>A call sees the time and the state, and answers with a result and the new state.\<close>

definition syscall :: "env \<Rightarrow> (nat \<Rightarrow> kern \<Rightarrow> (io_error + 'a) \<times> kern) \<Rightarrow> (io_error + 'a) io" where
  "syscall E f = State (\<lambda>w.
     case fault E (calls w) of
       Some e \<Rightarrow> (Inl e, moved E w)
     | None \<Rightarrow> (case f (clock E (calls w)) (seen E w) of (r, k) \<Rightarrow> (r, changed E k w)))"

definition look :: "env \<Rightarrow> (kern \<Rightarrow> io_error + 'a) \<Rightarrow> (io_error + 'a) io" where
  "look E f = State (\<lambda>w.
     (case fault E (calls w) of Some e \<Rightarrow> Inl e | None \<Rightarrow> f (seen E w), moved E w))"

text \<open>The clock alone (\<open>SystemTime::now\<close>, \<open>Instant::now\<close>), which cannot fail, and
  \<open>thread::sleep\<close>: nothing but the passing of time and the other processes.\<close>

definition now :: "env \<Rightarrow> nat io" where
  "now E = State (\<lambda>w. (clock E (calls w), moved E w))"

definition sleep :: "env \<Rightarrow> unit io" where
  "sleep E = State (\<lambda>w. ((), moved E w))"

lemma run_look [simp]:
  "run_state (look E f) w =
     (case fault E (calls w) of Some e \<Rightarrow> Inl e | None \<Rightarrow> f (seen E w), moved E w)"
  by (simp add: look_def)

lemma run_syscall [simp]:
  "run_state (syscall E f) w =
     (case fault E (calls w) of Some e \<Rightarrow> (Inl e, moved E w)
      | None \<Rightarrow> (fst (f (clock E (calls w)) (seen E w)),
          changed E (snd (f (clock E (calls w)) (seen E w))) w))"
  by (simp add: syscall_def split: option.split prod.split)

lemma run_now [simp]: "run_state (now E) w = (clock E (calls w), moved E w)"
  by (simp add: now_def)

lemma run_sleep [simp]: "run_state (sleep E) w = ((), moved E w)"
  by (simp add: sleep_def)

definition os :: "io_kind \<Rightarrow> io_error" where
  "os k = IoError k (case k of
       NotFound \<Rightarrow> ''No such file or directory (os error 2)''
     | AlreadyExists \<Rightarrow> ''File exists (os error 17)''
     | NotADirectory \<Rightarrow> ''Not a directory (os error 20)''
     | IsADirectory \<Rightarrow> ''Is a directory (os error 21)''
     | FilesystemLoop \<Rightarrow> ''Too many levels of symbolic links (os error 40)''
     | InvalidData \<Rightarrow> ''stream did not contain valid UTF-8''
     | WouldBlock \<Rightarrow> ''Resource temporarily unavailable (os error 11)''
     | _ \<Rightarrow> ''Input/output error (os error 5)'')"

lemma io_kind_os [simp]: "io_kind (os k) = k"
  by (simp add: os_def)

subsection \<open>Paths\<close>

text \<open>Following the links of a final component, at most 40 of them as Linux does.\<close>

fun resolve :: "nat \<Rightarrow> (string \<Rightarrow> node option) \<Rightarrow> string \<Rightarrow> string option" where
  "resolve 0 fs p = None"
| "resolve (Suc n) fs p = (case fs p of Some (Link t) \<Rightarrow> resolve n fs t | _ \<Rightarrow> Some p)"

definition follow :: "kern \<Rightarrow> string \<Rightarrow> string option" where
  "follow k p = resolve 41 (files k) p"

definition parent_of :: "string \<Rightarrow> string option" where
  "parent_of p =
     (if CHR ''/'' \<in> set p then Some (rev (drop 1 (dropWhile (\<lambda>c. c \<noteq> CHR ''/'') (rev p)))) else None)"

fun is_dir :: "node option \<Rightarrow> bool" where
  "is_dir (Some (Dir _)) = True"
| "is_dir _ = False"

fun is_file :: "node option \<Rightarrow> bool" where
  "is_file (Some (File _ _ _)) = True"
| "is_file _ = False"

fun_cases is_dirE: "is_dir nd" and is_fileE: "is_file nd"

definition parent_ok :: "kern \<Rightarrow> string \<Rightarrow> bool" where
  "parent_ok k p =
     (case parent_of p of None \<Rightarrow> True
      | Some d \<Rightarrow> d = [] \<or> (case follow k d of None \<Rightarrow> False | Some d' \<Rightarrow> is_dir (files k d')))"

subsection \<open>Calls that only look\<close>

definition k_lstat :: "string \<Rightarrow> kern \<Rightarrow> io_error + file_type" where
  "k_lstat p k = (case files k p of None \<Rightarrow> Inl (os NotFound) | Some n \<Rightarrow> Inr (node_type n))"

definition k_stat :: "string \<Rightarrow> kern \<Rightarrow> io_error + node" where
  "k_stat p k = (case follow k p of None \<Rightarrow> Inl (os FilesystemLoop)
     | Some q \<Rightarrow> (case files k q of None \<Rightarrow> Inl (os NotFound) | Some n \<Rightarrow> Inr n))"

definition k_read :: "string \<Rightarrow> kern \<Rightarrow> io_error + string" where
  "k_read p k = (case k_stat p k of Inl e \<Rightarrow> Inl e
     | Inr (File _ c _) \<Rightarrow> Inr c
     | Inr (Dir _) \<Rightarrow> Inl (os IsADirectory)
     | Inr _ \<Rightarrow> Inl (os OtherKind))"

definition k_read_to_string :: "string \<Rightarrow> kern \<Rightarrow> io_error + string" where
  "k_read_to_string p k = (case k_read p k of Inl e \<Rightarrow> Inl e
     | Inr c \<Rightarrow> if valid_utf8 c then Inr c else Inl (os InvalidData))"

definition symlink_metadata :: "env \<Rightarrow> string \<Rightarrow> (io_error + file_type) io" where
  "symlink_metadata E p = look E (k_lstat p)"

definition modified :: "env \<Rightarrow> string \<Rightarrow> (io_error + nat) io" where
  "modified E p = look E (\<lambda>k. case k_stat p k of Inl e \<Rightarrow> Inl e | Inr n \<Rightarrow> Inr (mtime_of n))"

definition read_to_string :: "env \<Rightarrow> string \<Rightarrow> (io_error + string) io" where
  "read_to_string E p = look E (k_read_to_string p)"

definition read_bytes :: "env \<Rightarrow> string \<Rightarrow> (io_error + string) io" where
  "read_bytes E p = look E (k_read p)"

text \<open>\<open>Path::exists\<close>: any error reads as absent.\<close>

definition exists :: "env \<Rightarrow> string \<Rightarrow> bool io" where
  "exists E p = do { r \<leftarrow> look E (k_stat p);
     State_Monad.return (case r of Inl _ \<Rightarrow> False | Inr _ \<Rightarrow> True) }"

definition read_link :: "env \<Rightarrow> string \<Rightarrow> (io_error + string) io" where
  "read_link E p = look E (\<lambda>k. case files k p of Some (Link t) \<Rightarrow> Inr t
     | Some _ \<Rightarrow> Inl (os OtherKind) | None \<Rightarrow> Inl (os NotFound))"

text \<open>The names a directory holds, in the order the environment lists them.\<close>

definition k_read_dir :: "string list \<Rightarrow> (string \<Rightarrow> string) \<Rightarrow> string \<Rightarrow> kern \<Rightarrow> io_error + string list" where
  "k_read_dir names entry p k = (case k_stat p k of Inl e \<Rightarrow> Inl e
     | Inr (Dir _) \<Rightarrow> Inr (filter (\<lambda>n. files k (entry n) \<noteq> None) names)
     | Inr _ \<Rightarrow> Inl (os NotADirectory))"

subsection \<open>Calls that change the file system\<close>

definition put_node :: "string \<Rightarrow> node option \<Rightarrow> kern \<Rightarrow> kern" where
  "put_node p n k = k\<lparr>files := (files k)(p := n)\<rparr>"

text \<open>A new regular file: the next inode, empty, dated now.\<close>

definition k_create :: "string \<Rightarrow> nat \<Rightarrow> kern \<Rightarrow> (io_error + nat) \<times> kern" where
  "k_create p t k =
     (if parent_ok k p
      then (Inr (next_ino k), put_node p (Some (File (next_ino k) [] t)) (k\<lparr>next_ino := Suc (next_ino k)\<rparr>))
      else (Inl (os NotFound), k))"

text \<open>\<open>create_new\<close>: exclusive; whatever is there, a link included, refuses.\<close>

definition k_create_new :: "string \<Rightarrow> nat \<Rightarrow> kern \<Rightarrow> (io_error + nat) \<times> kern" where
  "k_create_new p t k =
     (if files k p \<noteq> None then (Inl (os AlreadyExists), k) else k_create p t k)"

text \<open>\<open>File::create\<close>: follows links, truncates what is there.\<close>

definition k_create_trunc :: "string \<Rightarrow> nat \<Rightarrow> kern \<Rightarrow> (io_error + nat) \<times> kern" where
  "k_create_trunc p t k =
     (case follow k p of None \<Rightarrow> (Inl (os FilesystemLoop), k)
      | Some q \<Rightarrow> (case files k q of
          None \<Rightarrow> k_create q t k
        | Some (File i c m) \<Rightarrow> (Inr i, put_node q (Some (File i [] t)) k)
        | Some (Dir _) \<Rightarrow> (Inl (os IsADirectory), k)
        | Some _ \<Rightarrow> (Inl (os OtherKind), k)))"

text \<open>Writing through an open file reaches the inode, wherever it has been moved.\<close>

fun append_node :: "nat \<Rightarrow> string \<Rightarrow> nat \<Rightarrow> node \<Rightarrow> node" where
  "append_node i s t (File j c m) = (if j = i then File j (c @ s) t else File j c m)"
| "append_node i s t n = n"

definition append_ino :: "nat \<Rightarrow> string \<Rightarrow> nat \<Rightarrow> kern \<Rightarrow> kern" where
  "append_ino i s t k = k\<lparr>files := (\<lambda>p. map_option (append_node i s t) (files k p))\<rparr>"

definition k_rename :: "string \<Rightarrow> string \<Rightarrow> kern \<Rightarrow> (io_error + unit) \<times> kern" where
  "k_rename p q k =
     (case files k p of
        None \<Rightarrow> (Inl (os NotFound), k)
      | Some n \<Rightarrow>
          if \<not> parent_ok k q then (Inl (os NotFound), k)
          else if is_dir (files k q) \<and> node_type n \<noteq> TDir then (Inl (os IsADirectory), k)
          else if node_type n = TDir \<and> files k q \<noteq> None then (Inl (os NotADirectory), k)
          else (Inr (), k\<lparr>files := (files k)(p := None, q := Some n)\<rparr>))"

definition k_remove_file :: "string \<Rightarrow> kern \<Rightarrow> (io_error + unit) \<times> kern" where
  "k_remove_file p k =
     (case files k p of
        None \<Rightarrow> (Inl (os NotFound), k)
      | Some (Dir _) \<Rightarrow> (Inl (os IsADirectory), k)
      | Some _ \<Rightarrow> (Inr (), put_node p None k))"

text \<open>\<open>OpenOptions::create(true)\<close> without truncation: what is there is opened as it is.\<close>

definition k_open_create :: "string \<Rightarrow> nat \<Rightarrow> kern \<Rightarrow> (io_error + nat) \<times> kern" where
  "k_open_create p t k =
     (case follow k p of None \<Rightarrow> (Inl (os FilesystemLoop), k)
      | Some q \<Rightarrow> (case files k q of
          None \<Rightarrow> k_create q t k
        | Some (File i c m) \<Rightarrow> (Inr i, k)
        | Some (Dir _) \<Rightarrow> (Inl (os IsADirectory), k)
        | Some _ \<Rightarrow> (Inl (os OtherKind), k)))"

text \<open>\<open>create_dir_all\<close>: every missing ancestor, outermost first. What is there already has to be, or to lead
  to, a directory.\<close>

fun k_mkdirs :: "string list \<Rightarrow> nat \<Rightarrow> kern \<Rightarrow> (io_error + unit) \<times> kern" where
  "k_mkdirs [] t k = (Inr (), k)"
| "k_mkdirs (p # ps) t k =
     (if files k p = None then k_mkdirs ps t (put_node p (Some (Dir t)) k)
      else (case k_stat p k of
          Inr (Dir _) \<Rightarrow> k_mkdirs ps t k
        | Inr _ \<Rightarrow> (Inl (os (if ps = [] then AlreadyExists else NotADirectory)), k)
        | Inl e \<Rightarrow> (Inl (if ps = [] \<or> io_kind e = NotFound then os AlreadyExists else e), k)))"

lemma k_mkdirs_keeps: "files k p = Some n \<Longrightarrow> files (snd (k_mkdirs ps t k)) p = Some n"
proof (induction ps arbitrary: k)
  case (Cons q ps)
  have "files (put_node q (Some (Dir t)) k) p = Some n" if "files k q = None"
    using Cons.prems that by (auto simp: put_node_def)
  with Cons show ?case by (simp split: sum.split node.split)
qed simp

lemma k_mkdirs_elsewhere: "p \<notin> set ps \<Longrightarrow> files (snd (k_mkdirs ps t k)) p = files k p"
proof (induction ps arbitrary: k)
  case (Cons q ps)
  then have "files (put_node q (Some (Dir t)) k) p = files k p" by (simp add: put_node_def)
  with Cons show ?case by (simp split: sum.split node.split)
qed simp

text \<open>The prefixes of a path that end before a separator, and the path itself.\<close>

definition path_prefixes :: "string \<Rightarrow> string list" where
  "path_prefixes p =
     map (\<lambda>i. take i p)
       (filter (\<lambda>i. 0 < i \<and> (i = length p \<or> p ! i = CHR ''/'') \<and> p ! (i - 1) \<noteq> CHR ''/'') [0..<Suc (length p)])"

text \<open>\<open>remove_dir_all\<close>: a link is only unlinked, a directory goes with everything below it.\<close>

definition below :: "string \<Rightarrow> string \<Rightarrow> bool" where
  "below p q = (q = p \<or> starts_with q (p @ ''/''))"

definition k_remove_dir_all :: "string \<Rightarrow> kern \<Rightarrow> (io_error + unit) \<times> kern" where
  "k_remove_dir_all p k =
     (case files k p of
        None \<Rightarrow> (Inl (os NotFound), k)
      | Some (Dir _) \<Rightarrow> (Inr (), k\<lparr>files := (\<lambda>q. if below p q then None else files k q)\<rparr>)
      | Some (Link _) \<Rightarrow> (Inr (), put_node p None k)
      | Some _ \<Rightarrow> (Inl (os NotADirectory), k))"

definition create_new :: "env \<Rightarrow> string \<Rightarrow> (io_error + nat) io" where
  "create_new E p = syscall E (\<lambda>t k. k_create_new p t k)"

definition create_trunc :: "env \<Rightarrow> string \<Rightarrow> (io_error + nat) io" where
  "create_trunc E p = syscall E (\<lambda>t k. k_create_trunc p t k)"

definition rename :: "env \<Rightarrow> string \<Rightarrow> string \<Rightarrow> (io_error + unit) io" where
  "rename E p q = syscall E (\<lambda>t k. k_rename p q k)"

definition remove_file :: "env \<Rightarrow> string \<Rightarrow> (io_error + unit) io" where
  "remove_file E p = syscall E (\<lambda>t k. k_remove_file p k)"

text \<open>\<open>write_all\<close> on an open file: a failing write may have put some of the bytes there.\<close>

definition write_all :: "env \<Rightarrow> nat \<Rightarrow> string \<Rightarrow> (io_error + unit) io" where
  "write_all E i s = State (\<lambda>w.
     case fault E (calls w) of
       Some e \<Rightarrow> (Inl e, changed E (append_ino i (take (written_before_fault E (calls w)) s)
         (clock E (calls w)) (seen E w)) w)
     | None \<Rightarrow> (Inr (), changed E (append_ino i s (clock E (calls w)) (seen E w)) w))"

lemma run_write_all [simp]:
  "run_state (write_all E i s) w =
     (case fault E (calls w) of
        Some e \<Rightarrow> (Inl e, changed E (append_ino i (take (written_before_fault E (calls w)) s)
          (clock E (calls w)) (seen E w)) w)
      | None \<Rightarrow> (Inr (), changed E (append_ino i s (clock E (calls w)) (seen E w)) w))"
  by (simp add: write_all_def split: option.split)

definition open_create :: "env \<Rightarrow> string \<Rightarrow> (io_error + nat) io" where
  "open_create E p = syscall E (\<lambda>t k. k_open_create p t k)"

definition create_dir_all :: "env \<Rightarrow> string \<Rightarrow> (io_error + unit) io" where
  "create_dir_all E p = syscall E (\<lambda>t k. k_mkdirs (path_prefixes p) t k)"

text \<open>A failing \<open>remove_dir_all\<close> has removed some of the entries below the directory.\<close>

definition remove_dir_all :: "env \<Rightarrow> string \<Rightarrow> (io_error + unit) io" where
  "remove_dir_all E p = State (\<lambda>w.
     case fault E (calls w) of
       Some e \<Rightarrow> (Inl e, changed E ((seen E w)\<lparr>files := (\<lambda>q.
         if below p q \<and> q \<noteq> p \<and> is_dir (files (seen E w) p) \<and> \<not> kept_on_fault E (calls w) q then None
         else files (seen E w) q)\<rparr>) w)
     | None \<Rightarrow> (fst (k_remove_dir_all p (seen E w)), changed E (snd (k_remove_dir_all p (seen E w))) w))"

text \<open>\<open>sync_all\<close> on an open file: nothing the model can see.\<close>

definition sync_all :: "env \<Rightarrow> nat \<Rightarrow> (io_error + unit) io" where
  "sync_all E i = look E (\<lambda>k. Inr ())"

text \<open>\<open>fs::write\<close>: create or truncate, then write.\<close>

definition fs_write :: "env \<Rightarrow> string \<Rightarrow> string \<Rightarrow> (io_error + unit) io" where
  "fs_write E p s = try_io (create_trunc E p) (\<lambda>i. write_all E i s)"


text \<open>\<open>fetch_add(1)\<close> on the static counters: the old value, and the next one wraps.\<close>

definition next_nonce :: "u64 io" where
  "next_nonce = State (\<lambda>w. (nonce_counter w, w\<lparr>nonce_counter := nonce_counter w + 1\<rparr>))"

definition next_tmp :: "u64 io" where
  "next_tmp = State (\<lambda>w. (tmp_counter w, w\<lparr>tmp_counter := tmp_counter w + 1\<rparr>))"

definition next_provision :: "u64 io" where
  "next_provision = State (\<lambda>w. (provision_counter w, w\<lparr>provision_counter := provision_counter w + 1\<rparr>))"

lemma run_counters [simp]:
  "run_state next_nonce w = (nonce_counter w, w\<lparr>nonce_counter := nonce_counter w + 1\<rparr>)"
  "run_state next_tmp w = (tmp_counter w, w\<lparr>tmp_counter := tmp_counter w + 1\<rparr>)"
  "run_state next_provision w = (provision_counter w, w\<lparr>provision_counter := provision_counter w + 1\<rparr>)"
  by (simp_all add: next_nonce_def next_tmp_def next_provision_def)

lemma seen_counters [simp]:
  "seen E (w\<lparr>nonce_counter := n\<rparr>) = seen E w" "seen E (w\<lparr>tmp_counter := n\<rparr>) = seen E w"
  "seen E (w\<lparr>provision_counter := n\<rparr>) = seen E w"
  by (simp_all add: seen_def)

section \<open>Paths joined\<close>

text \<open>\<open>Path::join\<close>: an absolute second part replaces the first.\<close>

definition path_join :: "string \<Rightarrow> string \<Rightarrow> string" where
  "path_join base s =
     (if starts_with s ''/'' then s
      else if base = [] \<or> last base = CHR ''/'' then base @ s
      else base @ ''/'' @ s)"

datatype component = RootDir | CurDir | ParentDir | Normal string

definition component_of :: "string \<Rightarrow> component" where
  "component_of s = (if s = ''..'' then ParentDir else Normal s)"

definition is_slash :: "char \<Rightarrow> bool" where
  "is_slash c = (c = CHR ''/'')"

text \<open>\<open>Path::components\<close>: empty and interior \<open>.\<close> pieces are skipped.\<close>

definition components :: "string \<Rightarrow> component list" where
  "components p =
     (let pieces = split_by is_slash p in
      (if starts_with p ''/'' then [RootDir] else if hd pieces = ''.'' then [CurDir] else []) @
      map component_of (filter (\<lambda>s. s \<noteq> [] \<and> s \<noteq> ''.'') pieces))"

lemma split_by_slash_free: "\<forall>c\<in>set s. \<not> P c \<Longrightarrow> split_by P s = [s]"
  by (induction s) auto

lemma split_by_append:
  "P x \<Longrightarrow> split_by P (s @ x # t) = split_by P s @ split_by P t"
  by (induction s) simp_all

lemma hd_split_by_append: "P x \<Longrightarrow> hd (split_by P (s @ x # t)) = hd (split_by P s)"
  by (simp add: split_by_append hd_append)

lemma components_join:
  assumes "\<forall>c\<in>set s. \<not> is_slash c" "s \<noteq> []" "s \<noteq> ''.''" "s \<noteq> ''..''"
  shows "components (path_join base s) = components base @ [Normal s]"
proof -
  have s: "split_by is_slash s = [s]"
    using assms(1) by (rule split_by_slash_free)
  have abs: "\<not> starts_with s ''/''"
    using assms(1,2) by (cases s) (auto simp: starts_with_def is_slash_def)
  consider (empty) "base = []" | (slash) b where "base = b @ [CHR ''/'']"
    | (plain) "base \<noteq> []" "last base \<noteq> CHR ''/''"
    by (cases base rule: rev_cases) auto
  then show ?thesis
  proof cases
    case empty
    then show ?thesis
      using abs assms by (simp add: path_join_def components_def s component_of_def starts_with_def)
  next
    case slash
    have base: "split_by is_slash base = split_by is_slash b @ [[]]"
      using split_by_append [of is_slash "CHR ''/''" b "[]"] by (simp add: slash is_slash_def)
    have joined: "split_by is_slash (b @ CHR ''/'' # s) = split_by is_slash b @ [s]"
      using split_by_append [of is_slash "CHR ''/''" b s] by (simp add: is_slash_def s)
    have "starts_with (b @ CHR ''/'' # s) ''/'' = starts_with base ''/''"
      by (cases b) (simp_all add: slash starts_with_def)
    moreover have "hd (split_by is_slash (b @ CHR ''/'' # s)) = hd (split_by is_slash base)"
      by (simp add: base joined hd_append)
    ultimately show ?thesis
      using abs assms by (simp add: path_join_def slash components_def Let_def base [unfolded slash]
          joined component_of_def)
  next
    case plain
    have joined: "split_by is_slash (base @ CHR ''/'' # s) = split_by is_slash base @ [s]"
      using split_by_append [of is_slash "CHR ''/''" base s] by (simp add: is_slash_def s)
    have "starts_with (base @ CHR ''/'' # s) ''/'' = starts_with base ''/''"
      using plain(1) by (cases base) (simp_all add: starts_with_def)
    moreover have "hd (split_by is_slash (base @ CHR ''/'' # s)) = hd (split_by is_slash base)"
      by (simp add: joined hd_append)
    ultimately show ?thesis
      using abs plain assms
      by (simp add: path_join_def components_def Let_def joined component_of_def)
  qed
qed


definition read_dir :: "env \<Rightarrow> string \<Rightarrow> (io_error + string list) io" where
  "read_dir E p = State (\<lambda>w.
     (case fault E (calls w) of Some e \<Rightarrow> Inl e
      | None \<Rightarrow> k_read_dir (dir_names E (calls w) p) (path_join p) p (seen E w), moved E w))"

lemma run_read_dir [simp]:
  "run_state (read_dir E p) w =
     (case fault E (calls w) of Some e \<Rightarrow> Inl e
      | None \<Rightarrow> k_read_dir (dir_names E (calls w) p) (path_join p) p (seen E w), moved E w)"
  by (simp add: read_dir_def)

section \<open>Bridges and ports\<close>

text \<open>\<open>client::request\<close> against the bridge the environment plays, and a bare TCP connection.\<close>

definition secs :: "u64 \<Rightarrow> nat" where
  "secs n = unat n * 1000000000"

definition millis :: "nat \<Rightarrow> nat" where
  "millis n = n * 1000000"

definition bridge_answer :: "env \<Rightarrow> nat \<Rightarrow> u16 \<Rightarrow> json \<Rightarrow> nat \<Rightarrow> json result" where
  "bridge_answer E n port body timeout =
     (case snd (request (codec E) port body timeout (answered (peer E n port body timeout))) of
        None \<Rightarrow> bail [] | Some r \<Rightarrow> r)"

definition ask_bridge :: "env \<Rightarrow> u16 \<Rightarrow> json \<Rightarrow> nat \<Rightarrow> (json result) io" where
  "ask_bridge E port body timeout = State (\<lambda>w.
     (bridge_answer E (calls w) port body timeout,
      (moved E w)\<lparr>requests := requests w @ [(port, body, timeout)]\<rparr>))"

definition connect_port :: "env \<Rightarrow> u16 \<Rightarrow> (io_error + unit) io" where
  "connect_port E port = State (\<lambda>w.
     (case tcp_connect E (calls w) port of None \<Rightarrow> Inr () | Some e \<Rightarrow> Inl e, moved E w))"

lemma run_ask_bridge [simp]:
  "run_state (ask_bridge E port body timeout) w =
     (bridge_answer E (calls w) port body timeout,
      (moved E w)\<lparr>requests := requests w @ [(port, body, timeout)]\<rparr>)"
  by (simp add: ask_bridge_def)

lemma run_connect_port [simp]:
  "run_state (connect_port E port) w =
     (case tcp_connect E (calls w) port of None \<Rightarrow> Inr () | Some e \<Rightarrow> Inl e, moved E w)"
  by (simp add: connect_port_def)

lemma bridge_answer_request:
  "snd (request (codec E) port body timeout (answered (peer E n port body timeout))) =
     Some (bridge_answer E n port body timeout)"
  using request_answered [of "codec E" port body timeout "peer E n port body timeout"]
  by (auto simp: bridge_answer_def)

section \<open>Other programs\<close>

text \<open>Running one to its end, with a time limit or without, starting one in the background, and
  asking whether that one has ended (\<open>try_wait\<close>).\<close>

definition run_program :: "env \<Rightarrow> string list \<Rightarrow> nat option \<Rightarrow> ran io" where
  "run_program E argv limit = State (\<lambda>w.
     (fst (runs E (calls w) argv limit (seen E w)),
      (changed E (snd (runs E (calls w) argv limit (seen E w))) w)\<lparr>commands := commands w @ [argv]\<rparr>))"

definition launch :: "env \<Rightarrow> string list \<Rightarrow> (io_error + u32) io" where
  "launch E argv = State (\<lambda>w.
     (launches E (calls w) argv, (moved E w)\<lparr>commands := commands w @ [argv]\<rparr>))"

definition try_wait :: "env \<Rightarrow> u32 \<Rightarrow> (io_error + exit_status option) io" where
  "try_wait E pid = State (\<lambda>w. (reaped E (calls w) pid, moved E w))"

lemma run_run_program [simp]:
  "run_state (run_program E argv limit) w =
     (fst (runs E (calls w) argv limit (seen E w)),
      (changed E (snd (runs E (calls w) argv limit (seen E w))) w)\<lparr>commands := commands w @ [argv]\<rparr>)"
  by (simp add: run_program_def)

lemma run_launch [simp]:
  "run_state (launch E argv) w =
     (launches E (calls w) argv, (moved E w)\<lparr>commands := commands w @ [argv]\<rparr>)"
  by (simp add: launch_def)

lemma run_try_wait [simp]: "run_state (try_wait E pid) w = (reaped E (calls w) pid, moved E w)"
  by (simp add: try_wait_def)

text \<open>\<open>NODE_PATH\<close> is the one variable the program sets for its children.\<close>

definition get_node_path :: "string option io" where
  "get_node_path = State (\<lambda>w. (node_path w, w))"

definition set_node_path :: "string \<Rightarrow> unit io" where
  "set_node_path v = State (\<lambda>w. ((), w\<lparr>node_path := Some v\<rparr>))"

lemma run_node_path [simp]:
  "run_state get_node_path w = (node_path w, w)"
  "run_state (set_node_path v) w = ((), w\<lparr>node_path := Some v\<rparr>)"
  by (simp_all add: get_node_path_def set_node_path_def)

section \<open>Quiet environments\<close>

text \<open>The clock ticks once per call and nobody else acts; used by the witnesses.\<close>

definition still_env :: "serde \<Rightarrow> env" where
  "still_env sj =
     \<lparr>interfere = (\<lambda>_ k. k), fault = (\<lambda>_. None), written_before_fault = (\<lambda>_. 0),
      kept_on_fault = (\<lambda>_ _. True), clock = (\<lambda>n. n), process_id = 42,
      home_var = Some ''/h'', cwd_var = Some ''/w'', codec = sj, dir_names = (\<lambda>_ _. []),
      peer = (\<lambda>_ _ _ _. \<lparr>connected = Some (os ConnectionRefused), set_read_timeout = None, set_write_timeout = None,
        sent = None, started_at = 0, steps = []\<rparr>),
      tcp_connect = (\<lambda>_ _. Some (os ConnectionRefused)), path_var = Some ''/bin'',
      embedded = (\<lambda>name. name), runs = (\<lambda>_ _ _ k. (NotStarted (os NotFound), k)),
      launches = (\<lambda>_ _. Inl (os NotFound)), reaped = (\<lambda>_ _. Inr None)\<rparr>"

definition world_of :: "(string \<times> node) list \<Rightarrow> world" where
  "world_of fs =
     \<lparr>kern = \<lparr>files = map_of fs, flocks = (\<lambda>_. None), next_ino = 100, next_fd = 10\<rparr>,
      calls = 0, history = [], nonce_counter = 0, tmp_counter = 0, provision_counter = 0, requests = [],
      node_path = None, commands = []\<rparr>"


lemma still_env_simps [simp]:
  "interfere (still_env sj) n k = k" "fault (still_env sj) n = None" "clock (still_env sj) n = n"
  "process_id (still_env sj) = 42" "home_var (still_env sj) = Some ''/h''"
  "cwd_var (still_env sj) = Some ''/w''" "codec (still_env sj) = sj" "dir_names (still_env sj) n p = []"
  "tcp_connect (still_env sj) n q = Some (os ConnectionRefused)"
  "path_var (still_env sj) = Some ''/bin''" "embedded (still_env sj) name = name"
  "runs (still_env sj) n argv limit k = (NotStarted (os NotFound), k)"
  "launches (still_env sj) n argv = Inl (os NotFound)" "reaped (still_env sj) n pid = Inr None"
  by (simp_all add: still_env_def)

lemma seen_still [simp]: "seen (still_env sj) w = kern w"
  by (simp add: seen_def)

lemma world_of_simps [simp]:
  "files (kern (world_of fs)) = map_of fs" "calls (world_of fs) = 0"
  "flocks (kern (world_of fs)) i = None" "history (world_of fs) = []"
  "nonce_counter (world_of fs) = 0" "tmp_counter (world_of fs) = 0" "requests (world_of fs) = []"
  "node_path (world_of fs) = None" "commands (world_of fs) = []"
  by (simp_all add: world_of_def)

end
