(* ===== verification/Rust_Net.thy ===== *)
theory Rust_Net
  imports Rust_Str
begin

text \<open>
  \<open>str::parse::<IpAddr>()\<close> of Rust's standard library: the recursive-descent parser of
  \<open>core::net\<close>. A reader maps the text to what it read and what is left; a reader that fails
  leaves the text as it was.
\<close>

section \<open>Readers\<close>

type_synonym 'a reader = "string \<Rightarrow> ('a \<times> string) option"

definition hex_value :: "char \<Rightarrow> nat" where
  "hex_value c =
     (if is_ascii_digit c then code c - 48
      else if code c \<le> 70 then code c - 55 else code c - 87)"

definition is_radix_digit :: "nat \<Rightarrow> char \<Rightarrow> bool" where
  "is_radix_digit radix c = (if radix = 16 then is_ascii_hexdigit c else is_ascii_digit c)"

text \<open>\<open>read_number(radix, Some(max_digits), allow_zero_prefix)\<close> into a type of \<open>bound\<close> values.\<close>

definition read_number :: "nat \<Rightarrow> nat \<Rightarrow> bool \<Rightarrow> nat \<Rightarrow> nat reader" where
  "read_number radix max_digits allow_zero_prefix bound s =
     (let ds = takeWhile (is_radix_digit radix) s;
          value = foldl (\<lambda>n c. radix * n + hex_value c) 0 ds in
      if max_digits < length ds then None
      else if ds = [] then None
      else if \<not> allow_zero_prefix \<and> hd ds = CHR ''0'' \<and> 1 < length ds then None
      else if value < bound then Some (value, drop (length ds) s) else None)"

definition read_given_char :: "char \<Rightarrow> unit reader" where
  "read_given_char c s = (case s of [] \<Rightarrow> None | d # r \<Rightarrow> if d = c then Some ((), r) else None)"

definition read_separator :: "char \<Rightarrow> nat \<Rightarrow> 'a reader \<Rightarrow> 'a reader" where
  "read_separator sep index inner s =
     (if 0 < index
      then (case read_given_char sep s of None \<Rightarrow> None | Some (_, r) \<Rightarrow> inner r)
      else inner s)"

definition read_octet :: "nat reader" where
  "read_octet = read_number 10 3 False 256"

fun read_octets :: "nat \<Rightarrow> nat \<Rightarrow> nat list reader" where
  "read_octets index 0 s = Some ([], s)"
| "read_octets index (Suc n) s =
     (case read_separator (CHR ''.'') index read_octet s of
        None \<Rightarrow> None
      | Some (b, r) \<Rightarrow> (case read_octets (Suc index) n r of
          None \<Rightarrow> None | Some (bs, r') \<Rightarrow> Some (b # bs, r')))"

definition read_ipv4_addr :: "nat list reader" where
  "read_ipv4_addr = read_octets 0 4"

text \<open>
  \<open>read_groups\<close> for the slots \<open>i, .., limit - 1\<close>: the groups read, whether the last two came
  from an embedded IPv4 address, and the rest.
\<close>

function read_groups :: "nat \<Rightarrow> nat \<Rightarrow> string \<Rightarrow> nat list \<times> bool \<times> string" where
  "read_groups limit i s =
     (if limit \<le> i then ([], False, s)
      else
        (case (if Suc i < limit then read_separator (CHR '':'') i read_ipv4_addr s else None) of
           Some (o4, r) \<Rightarrow>
             ([256 * o4 ! 0 + o4 ! 1, 256 * o4 ! 2 + o4 ! 3], True, r)
         | None \<Rightarrow> (case read_separator (CHR '':'') i (read_number 16 4 True 65536) s of
             None \<Rightarrow> ([], False, s)
           | Some (g, r) \<Rightarrow> (case read_groups limit (Suc i) r of
               (gs, v4, r') \<Rightarrow> (g # gs, v4, r')))))"
  by pat_completeness auto
termination
  by (relation "measure (\<lambda>(limit, i, s). limit - i)") auto

declare read_groups.simps [simp del]

definition read_ipv6_addr :: "nat list reader" where
  "read_ipv6_addr s =
     (case read_groups 8 0 s of (head, head_ipv4, r) \<Rightarrow>
        if length head = 8 then Some (head, r)
        else if head_ipv4 then None
        else (case read_given_char (CHR '':'') r of None \<Rightarrow> None | Some (_, r1) \<Rightarrow>
          (case read_given_char (CHR '':'') r1 of None \<Rightarrow> None | Some (_, r2) \<Rightarrow>
            (case read_groups (8 - (length head + 1)) 0 r2 of (tail, _, r3) \<Rightarrow>
              Some (head @ replicate (8 - length head - length tail) 0 @ tail, r3)))))"

datatype ip_addr = V4 "nat list" | V6 "nat list"

text \<open>The whole text must be consumed.\<close>

definition parse_ip :: "string \<Rightarrow> ip_addr option" where
  "parse_ip s =
     (case (case read_ipv4_addr s of
              Some (o4, r) \<Rightarrow> Some (V4 o4, r)
            | None \<Rightarrow> map_option (map_prod V6 id) (read_ipv6_addr s)) of
        Some (ip, []) \<Rightarrow> Some ip
      | _ \<Rightarrow> None)"

text \<open>\<open>is_loopback\<close> and \<open>to_ipv4_mapped\<close>.\<close>

fun is_loopback :: "ip_addr \<Rightarrow> bool" where
  "is_loopback (V4 o4) = (hd o4 = 127)"
| "is_loopback (V6 g) = (g = [0, 0, 0, 0, 0, 0, 0, 1])"

definition to_ipv4_mapped :: "nat list \<Rightarrow> ip_addr option" where
  "to_ipv4_mapped g =
     (if take 6 g = [0, 0, 0, 0, 0, 65535] \<and> length g = 8
      then Some (V4 [g ! 6 div 256, g ! 6 mod 256, g ! 7 div 256, g ! 7 mod 256]) else None)"

section \<open>Dotted addresses\<close>

definition dotted :: "nat list \<Rightarrow> string" where
  "dotted ns = join_with ''.'' (map show_nat ns)"

lemma hex_value_digit: "is_ascii_digit c \<Longrightarrow> hex_value c = digit_value c"
  by (simp add: hex_value_def digit_value_def)

lemma fold_hex_value:
  "\<forall>c\<in>set ds. is_ascii_digit c \<Longrightarrow> foldl (\<lambda>n c. r * n + hex_value c) m ds = foldl (\<lambda>n c. r * n + digit_value c) m ds"
  by (induction ds arbitrary: m) (simp_all add: hex_value_digit)

lemma takeWhile_digits:
  assumes "rest = [] \<or> \<not> is_ascii_digit (hd rest)"
  shows "takeWhile is_ascii_digit (show_nat n @ rest) = show_nat n"
proof -
  have "takeWhile is_ascii_digit rest = []"
    using assms by (cases rest) auto
  then show ?thesis
    by (simp add: takeWhile_append show_nat_digits)
qed

lemma show_nat_no_leading_zero: "1 < length (show_nat n) \<Longrightarrow> hd (show_nat n) \<noteq> CHR ''0''"
proof (induction n rule: show_nat.induct)
  case (1 n)
  show ?case
  proof (cases "n < 10")
    case True
    then show ?thesis
      using "1.prems" by (simp add: show_nat.simps [of n])
  next
    case False
    have hd: "hd (show_nat n) = hd (show_nat (n div 10))"
      using False by (simp add: show_nat.simps [of n])
    show ?thesis
    proof (cases "1 < length (show_nat (n div 10))")
      case True
      with 1 False hd show ?thesis by simp
    next
      case short: False
      then have "show_nat (n div 10) = [digit_char (n div 10)]" "n div 10 < 10"
        by (simp_all add: show_nat.simps [of "n div 10"] split: if_splits)
      moreover have "digit_char (n div 10) \<noteq> CHR ''0''"
      proof
        assume "digit_char (n div 10) = CHR ''0''"
        then have "code (digit_char (n div 10)) = 48"
          by (simp add: code_def)
        with calculation(2) False show False by simp
      qed
      ultimately show ?thesis
        using hd by simp
    qed
  qed
qed

lemma read_octet_show:
  assumes "n < 256" "rest = [] \<or> \<not> is_ascii_digit (hd rest)"
  shows "read_octet (show_nat n @ rest) = Some (n, rest)"
proof -
  have "n < 10 ^ Suc 2"
    using assms(1) by simp
  from length_show_nat [OF this] have len: "length (show_nat n) \<le> 3" by simp
  have tw: "takeWhile (is_radix_digit 10) (show_nat n @ rest) = show_nat n"
    using takeWhile_digits [OF assms(2)] by (simp add: is_radix_digit_def [abs_def])
  have "foldl (\<lambda>n c. 10 * n + hex_value c) 0 (show_nat n) = n"
    using fold_hex_value [of "show_nat n" 10 0] radix_value_show_nat [of n]
    by (simp add: show_nat_digits radix_value_def)
  then show ?thesis
    using len assms(1) show_nat_no_leading_zero [of n]
    by (auto simp: read_octet_def read_number_def tw Let_def)
qed

lemma dot_not_digit: "\<not> is_ascii_digit (CHR ''.'')"
  by (simp add: is_ascii_digit_def code_def)

lemma dotted4: "dotted [a, b, c, d] =
    show_nat a @ CHR ''.'' # show_nat b @ CHR ''.'' # show_nat c @ CHR ''.'' # show_nat d"
  by (simp add: dotted_def)

lemma parse_ip_dotted:
  assumes "a < 256" "b < 256" "c < 256" "d < 256"
  shows "parse_ip (dotted [a, b, c, d]) = Some (V4 [a, b, c, d])"
proof -
  have d: "read_octet (show_nat d) = Some (d, [])"
    using read_octet_show [OF assms(4), of "[]"] by simp
  show ?thesis
    using assms(1-3)
    by (simp add: parse_ip_def read_ipv4_addr_def dotted4 numeral_eq_Suc read_separator_def
        read_given_char_def read_octet_show dot_not_digit d)
qed

end
