(* ===== verification/Paths.thy ===== *)
theory Paths
  imports World Rust_Net
begin

text \<open>
  \<open>src/session/paths.rs\<close>: session names and directories, the checks made before a directory is
  used or deleted, the session file and its port, lock nonces, and the normal form of attach
  hosts. The static roots come from \<open>HOME\<close> (\<open>home_var\<close> of the environment).
\<close>

section \<open>Roots and names\<close>

definition agent_home :: "env \<Rightarrow> string result" where
  "agent_home E =
     (let home = (case home_var E of None \<Rightarrow> [] | Some h \<Rightarrow> h) in
      if trim home = []
      then bail (''HOME is unset or empty; set HOME to a writable private directory '' @
        ''(e.g. export HOME=$PWD/.agent-home)'')
      else Inr home)"

definition sessions_dir :: "env \<Rightarrow> string result" where
  "sessions_dir E = and_then (agent_home E)
     (\<lambda>h. Inr (path_join (path_join h ''.agent-debugger'') ''sessions''))"

definition session_dir :: "env \<Rightarrow> string \<Rightarrow> string result" where
  "session_dir E name = and_then (sessions_dir E) (\<lambda>r. Inr (path_join r name))"

definition invalid_name :: "string \<Rightarrow> string" where
  "invalid_name name = ''invalid session name '' @ quoted name @ '' (single path segment only)''"

definition check_name :: "string \<Rightarrow> unit result" where
  "check_name name =
     (if \<exists>c\<in>set name. c \<in> {CHR 0x5C, CHR ''/'', CHR 0x00} then bail (invalid_name name)
      else (case components name of
          [Normal _] \<Rightarrow> Inr ()
        | _ \<Rightarrow> bail (invalid_name name)))"

definition must_not_be_symlink :: "string \<Rightarrow> string" where
  "must_not_be_symlink dir = ''session path must not be a symlink: '' @ dir"

definition must_be_real_dir :: "string \<Rightarrow> string" where
  "must_be_real_dir dir = ''session path must be a real directory: '' @ dir"

definition check_dir_real :: "env \<Rightarrow> string \<Rightarrow> (unit result) io" where
  "check_dir_real E dir = do {
     m \<leftarrow> symlink_metadata E dir;
     State_Monad.return (case m of
         Inr TLink \<Rightarrow> bail (must_not_be_symlink dir)
       | Inr TFile \<Rightarrow> bail (must_be_real_dir dir)
       | Inr TSpecial \<Rightarrow> bail (must_be_real_dir dir)
       | _ \<Rightarrow> Inr ())
   }"

definition checked_session_dir :: "env \<Rightarrow> string \<Rightarrow> (string result) io" where
  "checked_session_dir E name =
     try_io (lift_result (check_name name)) (\<lambda>_.
     try_io (lift_result (session_dir E name)) (\<lambda>dir.
     try_io (check_dir_real E dir) (\<lambda>_. ok dir)))"

definition real_dir_for_delete :: "env \<Rightarrow> string \<Rightarrow> string \<Rightarrow> (bool result) io" where
  "real_dir_for_delete E dir context = do {
     m \<leftarrow> symlink_metadata E dir;
     State_Monad.return (case m of
         Inr TLink \<Rightarrow> bail (must_not_be_symlink dir)
       | Inr TDir \<Rightarrow> Inr True
       | Inr _ \<Rightarrow> bail (must_be_real_dir dir)
       | Inl e \<Rightarrow> if io_kind e = NotFound then Inr False
           else bail (context @ '' '' @ dir @ '': '' @ io_text e))
   }"

definition refuse_symlink :: "env \<Rightarrow> string \<Rightarrow> string \<Rightarrow> (unit result) io" where
  "refuse_symlink E path what = do {
     m \<leftarrow> symlink_metadata E path;
     State_Monad.return (case m of
         Inr TLink \<Rightarrow> bail (what @ '' must not be a symlink: '' @ path)
       | Inr _ \<Rightarrow> Inr ()
       | Inl e \<Rightarrow> if io_kind e = NotFound then Inr ()
           else bail (''cannot stat '' @ what @ '' '' @ path @ '': '' @ io_text e))
   }"

section \<open>The session file\<close>

definition no_session :: "string \<Rightarrow> string" where
  "no_session name = ''no session '' @ quoted name @ '' (start or attach first)''"

definition read_session :: "env \<Rightarrow> string \<Rightarrow> (json result) io" where
  "read_session E name =
     try_io (checked_session_dir E name) (\<lambda>dir.
     try_io (map_err (\<lambda>_. Msg (no_session name)) (read_to_string E (path_join dir ''session.json''))) (\<lambda>raw.
     lift_result (case from_str (codec E) raw of
         Inl e \<Rightarrow> bail (''corrupt session file: '' @ e)
       | Inr v \<Rightarrow> Inr v)))"

datatype session_read_error =
    SessionNotFound (error_path: string)
  | SessionIo io_kind (error_path: string)
  | SessionCorrupt (error_path: string) string

definition kind_debug :: "io_kind \<Rightarrow> string" where
  "kind_debug k = (case k of
       NotFound \<Rightarrow> ''NotFound'' | AlreadyExists \<Rightarrow> ''AlreadyExists''
     | PermissionDenied \<Rightarrow> ''PermissionDenied'' | WouldBlock \<Rightarrow> ''WouldBlock''
     | Interrupted \<Rightarrow> ''Interrupted'' | TimedOut \<Rightarrow> ''TimedOut''
     | ConnectionRefused \<Rightarrow> ''ConnectionRefused'' | ConnectionReset \<Rightarrow> ''ConnectionReset''
     | NotADirectory \<Rightarrow> ''NotADirectory'' | IsADirectory \<Rightarrow> ''IsADirectory''
     | FilesystemLoop \<Rightarrow> ''FilesystemLoop'' | InvalidData \<Rightarrow> ''InvalidData''
     | OtherKind \<Rightarrow> ''Other'')"

fun show_session_read_error :: "session_read_error \<Rightarrow> string" where
  "show_session_read_error (SessionNotFound path) = ''no session file at '' @ path"
| "show_session_read_error (SessionIo kind path) =
     ''unreadable session file at '' @ path @ '' ('' @ kind_debug kind @ '')''"
| "show_session_read_error (SessionCorrupt path detail) =
     ''corrupt session file at '' @ path @ '': '' @ detail"

definition read_session_file :: "env \<Rightarrow> string \<Rightarrow> (session_read_error + json) io" where
  "read_session_file E dir = do {
     let file = path_join dir ''session.json'';
     r \<leftarrow> read_to_string E file;
     State_Monad.return (case r of
         Inl e \<Rightarrow> if io_kind e = NotFound then Inl (SessionNotFound file)
           else Inl (SessionIo (io_kind e) file)
       | Inr raw \<Rightarrow> (case from_str (codec E) raw of
           Inr v \<Rightarrow> Inr v
         | Inl e \<Rightarrow> Inl (SessionCorrupt file e)))
   }"

definition session_port :: "env \<Rightarrow> string \<Rightarrow> (u16 result) io" where
  "session_port E name =
     try_io (read_session E name) (\<lambda>session.
     lift_result (ok_or (Msg (''corrupt session file for '' @ quoted name)) (u16_field session ''port'')))"

text \<open>Nonces: process, nanoseconds and a static counter.\<close>

definition nonce_text :: "nat \<Rightarrow> nat \<Rightarrow> u64 \<Rightarrow> string" where
  "nonce_text pid nanos n = show_nat pid @ ''-'' @ show_nat nanos @ ''-'' @ show_nat (unat n)"

definition startup_nonce :: "env \<Rightarrow> string io" where
  "startup_nonce E = do {
     n \<leftarrow> next_nonce;
     nanos \<leftarrow> now E;
     State_Monad.return (nonce_text (process_id E) nanos n)
   }"


section \<open>Attach hosts\<close>

text \<open>The digits and radix of one part: \<open>0x\<close> or \<open>0X\<close> is hexadecimal, a leading zero octal.\<close>

definition part_digits :: "string \<Rightarrow> string \<times> nat" where
  "part_digits p =
     (case strip_prefix p ''0x'' of
        Some h \<Rightarrow> (h, 16)
      | None \<Rightarrow> (case strip_prefix p ''0X'' of
          Some h \<Rightarrow> (h, 16)
        | None \<Rightarrow> if 1 < length p \<and> starts_with p ''0'' then (p, 8) else (p, 10)))"

definition is_octal :: "char \<Rightarrow> bool" where
  "is_octal c = (48 \<le> code c \<and> code c \<le> 55)"

definition parse_part :: "string \<Rightarrow> u32 option" where
  "parse_part p =
     (case part_digits p of (digits, radix) \<Rightarrow>
        if digits = [] \<or> 16 < length digits then None
        else if \<not> list_all (if radix = 16 then is_ascii_hexdigit
                  else if radix = 8 then is_octal else is_ascii_digit) digits then None
        else if radix_value radix digits < 2 ^ 32
        then Some (of_nat (radix_value radix digits)) else None)"

fun parse_parts :: "string list \<Rightarrow> u32 list option" where
  "parse_parts [] = Some []"
| "parse_parts (p # ps) =
     (case parse_part p of None \<Rightarrow> None
      | Some n \<Rightarrow> map_option (\<lambda>ns. n # ns) (parse_parts ps))"

unbundle bit_operations_syntax

text \<open>The 32-bit address of one to four numbers, shifted together as the source does it.\<close>

fun inet_addr :: "u32 list \<Rightarrow> u64 option" where
  "inet_addr [a] = Some (ucast a)"
| "inet_addr [a, b] =
     (if 0xff < a \<or> 0xffffff < b then None else Some (ucast (push_bit 24 a OR b)))"
| "inet_addr [a, b, c] =
     (if 0xff < a \<or> 0xff < b \<or> 0xffff < c then None
      else Some (ucast (push_bit 24 a OR push_bit 16 b OR c)))"
| "inet_addr [a, b, c, d] =
     (if 0xff < a \<or> 0xff < b \<or> 0xff < c \<or> 0xff < d then None
      else Some (ucast (push_bit 24 a OR push_bit 16 b OR push_bit 8 c OR d)))"
| "inet_addr _ = None"

definition is_dot :: "char \<Rightarrow> bool" where
  "is_dot c = (c = CHR ''.'')"

definition inet_aton_loopback :: "string \<Rightarrow> bool" where
  "inet_aton_loopback s =
     (if CHR '':'' \<in> set s \<or> s = [] then False
      else let parts = split_by is_dot s in
        if 4 < length parts \<or> list_ex (\<lambda>p. p = [] \<or> 18 < length p) parts then False
        else (case parse_parts parts of None \<Rightarrow> False
          | Some nums \<Rightarrow> (case inet_addr nums of None \<Rightarrow> False
              | Some addr \<Rightarrow>
                  if 0xffffffff < addr then False else drop_bit 24 addr = 127)))"

definition ip_is_loopback :: "string \<Rightarrow> bool" where
  "ip_is_loopback s =
     (case parse_ip s of
        None \<Rightarrow> inet_aton_loopback s
      | Some ip \<Rightarrow>
          if is_loopback ip then True
          else (case ip of
              V6 g \<Rightarrow> (case to_ipv4_mapped g of None \<Rightarrow> False | Some v4 \<Rightarrow> is_loopback v4)
            | V4 _ \<Rightarrow> False))"

text \<open>Brackets around an IPv6 host are dropped when something is between them.\<close>

definition unbracket :: "string \<Rightarrow> string" where
  "unbracket h =
     (if starts_with h ''['' \<and> ends_with h '']'' \<and> 2 < length h
      then take (length h - 2) (drop 1 h) else h)"

definition normalize_attach_host :: "string \<Rightarrow> string" where
  "normalize_attach_host host =
     (let lower = to_ascii_lowercase (unbracket (trim host));
          fqdn = (case strip_suffix lower ''.'' of None \<Rightarrow> lower | Some f \<Rightarrow> f) in
      if fqdn = ''localhost'' \<or> ip_is_loopback fqdn then ''loopback'' else fqdn)"

definition is_unspecified_host :: "string \<Rightarrow> bool" where
  "is_unspecified_host host =
     (to_ascii_lowercase (unbracket (trim host)) \<in> {''0.0.0.0'', ''::'', ''::0'', ''0:0:0:0:0:0:0:0''})"


section \<open>Names and directories\<close>

definition plain_segment :: "string \<Rightarrow> bool" where
  "plain_segment s =
     (s \<noteq> [] \<and> s \<noteq> ''.'' \<and> s \<noteq> ''..'' \<and> set s \<inter> {CHR 0x5C, CHR ''/'', CHR 0x00} = {})"

lemma components_slash_free:
  assumes "\<forall>c\<in>set s. \<not> is_slash c"
  shows "components s =
    (if s = [] then [] else if s = ''.'' then [CurDir] else [component_of s])"
proof -
  have "\<not> starts_with s ''/''"
    using assms by (cases s) (auto simp: starts_with_def is_slash_def)
  then show ?thesis
    using split_by_slash_free [OF assms] by (simp add: components_def)
qed

lemma check_name_plain: "check_name name = Inr () \<longleftrightarrow> plain_segment name"
proof (cases "\<exists>c\<in>set name. c \<in> {CHR 0x5C, CHR ''/'', CHR 0x00}")
  case True
  then have "set name \<inter> {CHR 0x5C, CHR ''/'', CHR 0x00} \<noteq> {}" by blast
  with True show ?thesis
    by (simp only: check_name_def plain_segment_def if_True bail_not_Inr simp_thms)
next
  case False
  then have disj: "set name \<inter> {CHR 0x5C, CHR ''/'', CHR 0x00} = {}" by blast
  have comps: "components name =
      (if name = [] then [] else if name = ''.'' then [CurDir] else [component_of name])"
    using False by (intro components_slash_free) (auto simp: is_slash_def)
  have "check_name name = (case components name of [Normal _] \<Rightarrow> Inr () | _ \<Rightarrow> bail (invalid_name name))"
    using False by (simp only: check_name_def if_False)
  then show ?thesis
    using disj by (simp add: comps plain_segment_def component_of_def)
qed

text \<open>Exactly the plain path segments are session names: no separator, no backslash, no NUL,
  not empty and not a relative component.\<close>

theorem check_name_iff: "check_name name = Inr () \<longleftrightarrow> plain_segment name"
  by (rule check_name_plain)

lemma plain_segment_join:
  "plain_segment s \<Longrightarrow> components (path_join base s) = components base @ [Normal s]"
  by (rule components_join) (auto simp: plain_segment_def is_slash_def)

lemma path_join_inject:
  assumes "plain_segment s" and "plain_segment t"
  shows "path_join base s = path_join base t \<longleftrightarrow> s = t"
proof
  assume "path_join base s = path_join base t"
  then have "components (path_join base s) = components (path_join base t)" by (rule arg_cong)
  then show "s = t" by (simp only: plain_segment_join [OF assms(1)] plain_segment_join [OF assms(2)]
      append_same_eq same_append_eq list.inject component.inject simp_thms)
qed simp

text \<open>A checked session name cannot escape the sessions root: the directory it names is a
  direct child of the root, and two names never share one.\<close>

theorem session_dir_contained:
  assumes "check_name name = Inr ()" and "check_name other = Inr ()"
  shows "components (path_join root name) = components root @ [Normal name] \<and>
    (path_join root name = path_join root other \<longleftrightarrow> name = other)"
  using assms by (simp only: check_name_plain path_join_inject plain_segment_join simp_thms)

theorem session_dir_contained_witness:
  "components (path_join ''/home/a/sessions'' ''cart'') =
     components ''/home/a/sessions'' @ [Normal ''cart''] \<and>
   (path_join ''/home/a/sessions'' ''cart'' = path_join ''/home/a/sessions'' ''api'' \<longleftrightarrow> ''cart'' = ''api'')"
  by (rule session_dir_contained) (simp_all add: check_name_plain plain_segment_def)

text \<open>A directory is cleared only when it is one: the pre-delete check says yes only if the path
  itself, unfollowed, is a directory at the moment of the call, whatever other processes do before
  it; a symbolic link or a file there is refused.\<close>

theorem real_dir_for_delete_sound:
  assumes "run_state (real_dir_for_delete E dir context) w = (Inr True, w')"
  shows "is_dir (files (kern w') dir) \<and> fault E (calls w) = None"
  using assms
  by (cases "files (seen E w) dir")
    (auto simp: real_dir_for_delete_def symlink_metadata_def k_lstat_def bail_def
      split: option.splits sum.splits if_splits file_type.splits elim!: node_type.elims)

theorem real_dir_for_delete_sound_witness:
  "is_dir (files (kern (moved (still_env brace_serde) (world_of [(''/s/a'', Dir 1)]))) ''/s/a'') \<and>
   fault (still_env brace_serde) 0 = None"
proof -
  have "run_state (real_dir_for_delete (still_env brace_serde) ''/s/a'' ''x'')
      (world_of [(''/s/a'', Dir 1)]) =
    (Inr True, moved (still_env brace_serde) (world_of [(''/s/a'', Dir 1)]))"
    by (simp add: real_dir_for_delete_def symlink_metadata_def k_lstat_def)
  from real_dir_for_delete_sound [OF this] show ?thesis by simp
qed

section \<open>Hosts\<close>

lemma dotted_chars: "x \<in> set (dotted [a, b, c, d]) \<Longrightarrow> is_ascii_digit x \<or> x = CHR ''.''"
  by (auto simp: dotted4 show_nat_digits)

lemma dotted_shape: "\<exists>x xs y. dotted [a, b, c, d] = x # xs @ [y] \<and> is_ascii_digit x \<and> is_ascii_digit y"
proof -
  have dig: "is_ascii_digit (hd (show_nat a))" "is_ascii_digit (last (show_nat d))"
    using show_nat_digits hd_in_set [OF show_nat_not_Nil] last_in_set [OF show_nat_not_Nil]
    by blast+
  have "show_nat a = hd (show_nat a) # tl (show_nat a)"
    "show_nat d = butlast (show_nat d) @ [last (show_nat d)]"
    by simp_all
  then have "dotted [a, b, c, d] = hd (show_nat a) # (tl (show_nat a) @ CHR ''.'' # show_nat b @
      CHR ''.'' # show_nat c @ CHR ''.'' # butlast (show_nat d)) @ [last (show_nat d)]"
    unfolding dotted4 by (metis append_Cons append_assoc)
  with dig show ?thesis by blast
qed

lemma unbracket_plain: "\<not> starts_with s ''['' \<Longrightarrow> unbracket s = s"
  by (simp add: unbracket_def)

lemma trim_dotted: "trim (dotted [a, b, c, d]) = dotted [a, b, c, d]"
proof -
  have "code x < 128 \<and> \<not> is_whitespace [x]" if "x \<in> set (dotted [a, b, c, d])" for x
    using dotted_chars [OF that] digit_ascii [of x] digit_not_ws [of x]
    by (auto simp: code_def is_whitespace_single)
  then show ?thesis by (intro trim_no_ws) blast+
qed

lemma lower_dotted: "to_ascii_lowercase (dotted [a, b, c, d]) = dotted [a, b, c, d]"
proof -
  have "lower_byte x = x" if "x \<in> set (dotted [a, b, c, d])" for x
    using dotted_chars [OF that] by (auto simp: lower_byte_def is_ascii_digit_def code_def)
  then show ?thesis
    by (simp add: to_ascii_lowercase_def map_idI)
qed

text \<open>Every spelling of an IPv4 address as a dotted quad normalises to the one loopback token
  when its first byte is 127, and to itself otherwise; so two attach requests to any 127/8
  addresses meet on the same endpoint, and requests to other hosts never do.\<close>

theorem normalize_dotted:
  assumes "a < 256" "b < 256" "c < 256" "d < 256"
  shows "normalize_attach_host (dotted [a, b, c, d]) =
    (if a = 127 then ''loopback'' else dotted [a, b, c, d])"
proof -
  obtain x xs y where s: "dotted [a, b, c, d] = x # xs @ [y]" "is_ascii_digit x" "is_ascii_digit y"
    using dotted_shape by blast
  have un: "unbracket (dotted [a, b, c, d]) = dotted [a, b, c, d]"
    using s by (intro unbracket_plain) (auto simp: starts_with_def is_ascii_digit_def code_def)
  have nodot: "strip_suffix (dotted [a, b, c, d]) ''.'' = None"
    using s by (auto simp: strip_suffix_def ends_with_def is_ascii_digit_def code_def)
  have "dotted [a, b, c, d] \<noteq> ''localhost''"
    using s by (auto simp: is_ascii_digit_def code_def)
  then show ?thesis
    using parse_ip_dotted [OF assms]
    by (simp add: normalize_attach_host_def trim_dotted un lower_dotted nodot ip_is_loopback_def)
qed

theorem normalize_dotted_witness:
  "normalize_attach_host (dotted [127, 0, 0, 53]) = ''loopback'' \<and>
   normalize_attach_host (dotted [10, 0, 0, 7]) = dotted [10, 0, 0, 7]"
  using normalize_dotted [of 127 0 0 53] normalize_dotted [of 10 0 0 7] by simp

section \<open>Nonces\<close>

lemma dash_not_digit: "\<not> is_ascii_digit (CHR ''-'')"
  by (simp add: is_ascii_digit_def code_def)

lemma show_nat_dash_split:
  "show_nat m @ CHR ''-'' # s = show_nat n @ CHR ''-'' # t \<longleftrightarrow> m = n \<and> s = t"
proof
  assume eq: "show_nat m @ CHR ''-'' # s = show_nat n @ CHR ''-'' # t"
  have "takeWhile is_ascii_digit (show_nat k @ CHR ''-'' # u) = show_nat k" for k u
    by (rule takeWhile_digits) (simp add: dash_not_digit)
  with eq have "show_nat m = show_nat n"
    by metis
  with eq show "m = n \<and> s = t" by simp
qed simp

lemma nonce_text_inject:
  "nonce_text p t m = nonce_text p' t' n \<longleftrightarrow> p = p' \<and> t = t' \<and> m = n"
  by (auto simp: nonce_text_def show_nat_dash_split unsigned_word_eqI)

text \<open>Lock nonces never repeat: two nonces agree only when the process, the time and the static
  counter agree, and the counter moves with every nonce, so even two threads that read the same
  nanosecond get different ones (within the counter's 2^64 values).\<close>

theorem startup_nonce_fresh:
  assumes "run_state (startup_nonce E) w = (a, w1)" and "run_state (startup_nonce F) v = (b, v1)"
    and "process_id E \<noteq> process_id F \<or> nonce_counter w \<noteq> nonce_counter v"
  shows "a \<noteq> b \<and> nonce_counter w1 = nonce_counter w + 1"
  using assms
  by (auto simp: startup_nonce_def nonce_text_inject)

theorem startup_nonce_fresh_witness:
  "fst (run_state (startup_nonce (still_env brace_serde)) (world_of [])) \<noteq>
   fst (run_state (startup_nonce (still_env brace_serde)) ((world_of [])\<lparr>nonce_counter := 1\<rparr>))"
  using startup_nonce_fresh [of "still_env brace_serde" "world_of []" _ _
      "still_env brace_serde" "(world_of [])\<lparr>nonce_counter := 1\<rparr>", OF surjective_pairing surjective_pairing]
  by (simp add: world_of_def)

end
