(* ===== verification/Hoare.thy ===== *)
theory Hoare
  imports World
begin

text \<open>
  Reasoning about programs that run beside other processes. \<open>passes H P m Q\<close>: started where \<open>P\<close>
  holds, \<open>m\<close> ends where \<open>Q\<close> of its result holds, and every state of the file system from its first
  step to its last, its own effects and those of the others alike, satisfies \<open>H\<close>. The rules
  follow the composition of \<open>World\<close>.
\<close>

named_theorems passes_rules "one rule per way of composing programs"

definition passes ::
    "(kern \<Rightarrow> bool) \<Rightarrow> (world \<Rightarrow> bool) \<Rightarrow> 'a io \<Rightarrow> ('a \<Rightarrow> world \<Rightarrow> bool) \<Rightarrow> bool" where
  "passes H P m Q =
     (\<forall>w r w'. P w \<longrightarrow> run_state m w = (r, w') \<longrightarrow>
        Q r w' \<and> (\<exists>new. history w' = history w @ new \<and> (\<forall>k\<in>set new. H k)))"

lemma passesI:
  "(\<And>w r w'. P w \<Longrightarrow> run_state m w = (r, w') \<Longrightarrow>
      Q r w' \<and> (\<exists>new. history w' = history w @ new \<and> (\<forall>k\<in>set new. H k))) \<Longrightarrow> passes H P m Q"
  by (simp add: passes_def)

lemma passesD:
  "passes H P m Q \<Longrightarrow> P w \<Longrightarrow> run_state m w = (r, w') \<Longrightarrow> Q r w'"
  by (auto simp: passes_def)

lemma passes_history:
  "passes H P m Q \<Longrightarrow> P w \<Longrightarrow> run_state m w = (r, w') \<Longrightarrow>
   \<exists>new. history w' = history w @ new \<and> (\<forall>k\<in>set new. H k)"
  by (auto simp: passes_def)

lemma passes_conseq:
  "passes H P' m Q' \<Longrightarrow> (\<And>w. P w \<Longrightarrow> P' w) \<Longrightarrow> (\<And>r w. Q' r w \<Longrightarrow> Q r w) \<Longrightarrow>
   (\<And>k. H k \<Longrightarrow> G k) \<Longrightarrow> passes G P m Q"
  by (fastforce simp: passes_def)

lemma passes_pre: "passes H P' m Q \<Longrightarrow> (\<And>w. P w \<Longrightarrow> P' w) \<Longrightarrow> passes H P m Q"
  by (fastforce simp: passes_def)

lemma passes_post: "passes H P m Q' \<Longrightarrow> (\<And>r w. Q' r w \<Longrightarrow> Q r w) \<Longrightarrow> passes H P m Q"
  by (fastforce simp: passes_def)

lemma passes_return [passes_rules]:
  "(\<And>w. P w \<Longrightarrow> Q a w) \<Longrightarrow> passes H P (State_Monad.return a) Q"
  by (auto simp: passes_def)

lemma passes_bind [passes_rules]:
  assumes m: "passes H P m R" and f: "\<And>a. passes H (R a) (f a) Q"
  shows "passes H P (State_Monad.bind m f) Q"
proof (rule passesI)
  fix w r w'
  assume P: "P w" and run: "run_state (State_Monad.bind m f) w = (r, w')"
  obtain a w1 where 1: "run_state m w = (a, w1)" by fastforce
  with run have 2: "run_state (f a) w1 = (r, w')" by (simp add: State_Monad.bind_def)
  from passesD [OF m P 1] have R: "R a w1" .
  obtain n1 where n1: "history w1 = history w @ n1" "\<forall>k\<in>set n1. H k"
    using passes_history [OF m P 1] by blast
  obtain n2 where n2: "history w' = history w1 @ n2" "\<forall>k\<in>set n2. H k"
    using passes_history [OF f R 2] by blast
  have "history w' = history w @ (n1 @ n2) \<and> (\<forall>k\<in>set (n1 @ n2). H k)"
    using n1 n2 by auto
  with passesD [OF f R 2] show "Q r w' \<and> (\<exists>new. history w' = history w @ new \<and> (\<forall>k\<in>set new. H k))"
    by blast
qed

lemma passes_try [passes_rules]:
  assumes "passes H P m R" and "\<And>a. passes H (R (Inr a)) (f a) Q"
    and "\<And>e w. R (Inl e) w \<Longrightarrow> Q (Inl e) w"
  shows "passes H P (try_io m f) Q"
  unfolding try_io_def
  by (rule passes_bind [OF assms(1)]) (auto split: sum.split intro!: passes_return assms(2,3))

lemma passes_map_err [passes_rules]:
  assumes "passes H P m R"
    and "\<And>e w. R (Inl e) w \<Longrightarrow> Q (Inl (h e)) w" and "\<And>a w. R (Inr a) w \<Longrightarrow> Q (Inr a) w"
  shows "passes H P (map_err h m) Q"
  unfolding map_err_def
  by (rule passes_bind [OF assms(1)]) (auto split: sum.split intro!: passes_return assms(2,3))

lemma passes_ok [passes_rules]: "(\<And>w. P w \<Longrightarrow> Q (Inr a) w) \<Longrightarrow> passes H P (ok a) Q"
  by (auto simp: passes_def)

lemma passes_err [passes_rules]: "(\<And>w. P w \<Longrightarrow> Q (Inl e) w) \<Longrightarrow> passes H P (err e) Q"
  by (auto simp: passes_def)

lemma passes_lift [passes_rules]: "(\<And>w. P w \<Longrightarrow> Q r w) \<Longrightarrow> passes H P (lift_result r) Q"
  by (auto simp: passes_def)

lemma passes_if [passes_rules]:
  "(b \<Longrightarrow> passes H P m Q) \<Longrightarrow> (\<not> b \<Longrightarrow> passes H P n Q) \<Longrightarrow> passes H P (if b then m else n) Q"
  by simp

lemma passes_look:
  assumes "\<And>w. P w \<Longrightarrow> H (seen E w)"
    and "\<And>w e. P w \<Longrightarrow> fault E (calls w) = Some e \<Longrightarrow> Q (Inl e) (moved E w)"
    and "\<And>w. P w \<Longrightarrow> fault E (calls w) = None \<Longrightarrow> Q (f (seen E w)) (moved E w)"
  shows "passes H P (look E f) Q"
proof (rule passesI)
  fix w r w'
  assume "P w" "run_state (look E f) w = (r, w')"
  with assms show "Q r w' \<and> (\<exists>new. history w' = history w @ new \<and> (\<forall>k\<in>set new. H k))"
    by (auto split: option.splits)
qed

lemma passes_syscall:
  assumes "\<And>w. P w \<Longrightarrow> H (seen E w)"
    and "\<And>w e. P w \<Longrightarrow> fault E (calls w) = Some e \<Longrightarrow> Q (Inl e) (moved E w)"
    and "\<And>w. P w \<Longrightarrow> fault E (calls w) = None \<Longrightarrow>
      H (snd (f (clock E (calls w)) (seen E w))) \<and>
      Q (fst (f (clock E (calls w)) (seen E w))) (changed E (snd (f (clock E (calls w)) (seen E w))) w)"
  shows "passes H P (syscall E f) Q"
proof (rule passesI)
  fix w r w'
  assume "P w" "run_state (syscall E f) w = (r, w')"
  with assms show "Q r w' \<and> (\<exists>new. history w' = history w @ new \<and> (\<forall>k\<in>set new. H k))"
    by (auto split: option.splits)
qed

lemma passes_now [passes_rules]:
  assumes "\<And>w. P w \<Longrightarrow> H (seen E w) \<and> Q (clock E (calls w)) (moved E w)"
  shows "passes H P (now E) Q"
  using assms by (auto simp: passes_def)

lemma passes_sleep [passes_rules]:
  assumes "\<And>w. P w \<Longrightarrow> H (seen E w) \<and> Q () (moved E w)"
  shows "passes H P (sleep E) Q"
  using assms by (auto simp: passes_def)

lemma passes_write_all:
  assumes "\<And>w. P w \<Longrightarrow> H (seen E w)"
    and "\<And>w e t. P w \<Longrightarrow> fault E (calls w) = Some e \<Longrightarrow>
      H (append_ino i t (clock E (calls w)) (seen E w)) \<and>
      Q (Inl e) (changed E (append_ino i t (clock E (calls w)) (seen E w)) w)"
    and "\<And>w. P w \<Longrightarrow> fault E (calls w) = None \<Longrightarrow>
      H (append_ino i s (clock E (calls w)) (seen E w)) \<and>
      Q (Inr ()) (changed E (append_ino i s (clock E (calls w)) (seen E w)) w)"
  shows "passes H P (write_all E i s) Q"
proof (rule passesI)
  fix w r w'
  assume "P w" "run_state (write_all E i s) w = (r, w')"
  with assms show "Q r w' \<and> (\<exists>new. history w' = history w @ new \<and> (\<forall>k\<in>set new. H k))"
    by (cases "fault E (calls w)") auto
qed

section \<open>Inodes\<close>

text \<open>No two paths share a regular file, and new inodes are new. Other processes keep this; a set
  of paths they leave alone is \<open>calm\<close>.\<close>

definition inodes_ok :: "kern \<Rightarrow> bool" where
  "inodes_ok k =
     ((\<forall>p i c t. files k p = Some (File i c t) \<longrightarrow> i < next_ino k) \<and>
      (\<forall>p q i c t c' t'. files k p = Some (File i c t) \<longrightarrow> files k q = Some (File i c' t') \<longrightarrow> p = q))"

text \<open>Files listed with different numbers do not share any.\<close>

fun inode_numbers :: "(string \<times> node) list \<Rightarrow> nat list" where
  "inode_numbers [] = []"
| "inode_numbers ((p, File i c t) # fs) = i # inode_numbers fs"
| "inode_numbers (e # fs) = inode_numbers fs"

lemma inode_numbers_iff: "i \<in> set (inode_numbers fs) \<longleftrightarrow> (\<exists>p c t. (p, File i c t) \<in> set fs)"
  by (induction fs rule: inode_numbers.induct) auto

lemma inode_numbers_apart:
  "distinct (inode_numbers fs) \<Longrightarrow> (p, File i c t) \<in> set fs \<Longrightarrow> (q, File i c' t') \<in> set fs \<Longrightarrow> p = q"
  by (induction fs rule: inode_numbers.induct) (auto simp: inode_numbers_iff)

lemma inodes_ok_world_of:
  "distinct (inode_numbers fs) \<Longrightarrow> list_all (\<lambda>i. i < 100) (inode_numbers fs) \<Longrightarrow> inodes_ok (kern (world_of fs))"
  unfolding inodes_ok_def world_of_def
  by (auto simp: list_all_iff inode_numbers_iff dest!: map_of_SomeD intro: inode_numbers_apart)

text \<open>
  \<open>calm_in Q E P\<close>: as long as \<open>Q\<close> holds of the state, the others keep \<open>Q\<close>, the inode invariant and the
  paths \<open>P\<close>. \<open>Q\<close> is a property of the kernel locks (\<open>flock_only\<close>), which file operations do not touch:
  \<open>True\<close> where nobody else writes at all, \<open>we hold the lock\<close> where the writers cooperate.
\<close>

definition flock_only :: "(kern \<Rightarrow> bool) \<Rightarrow> bool" where
  "flock_only Q = (\<forall>k k'. flocks k = flocks k' \<longrightarrow> Q k = Q k')"

definition calm_in :: "(kern \<Rightarrow> bool) \<Rightarrow> env \<Rightarrow> string set \<Rightarrow> bool" where
  "calm_in Q E P =
     (\<forall>n k. Q k \<longrightarrow> (\<forall>p\<in>P. files (interfere E n k) p = files k p) \<and> Q (interfere E n k) \<and>
            (inodes_ok k \<longrightarrow> inodes_ok (interfere E n k)))"

abbreviation calm :: "env \<Rightarrow> string set \<Rightarrow> bool" where
  "calm E P \<equiv> calm_in (\<lambda>_. True) E P"

lemma flock_only_True [simp]: "flock_only (\<lambda>_. True)"
  by (simp add: flock_only_def)

lemma calm_seen [simp]:
  "calm_in Q E P \<Longrightarrow> Q (kern w) \<Longrightarrow> p \<in> P \<Longrightarrow> files (seen E w) p = files (kern w) p"
  "calm_in Q E P \<Longrightarrow> Q (kern w) \<Longrightarrow> Q (seen E w)"
  by (simp_all add: calm_in_def seen_def)

lemma calm_inodes [simp]: "calm_in Q E P \<Longrightarrow> Q (kern w) \<Longrightarrow> inodes_ok (kern w) \<Longrightarrow> inodes_ok (seen E w)"
  by (simp add: calm_in_def seen_def)

lemma calm_mono: "calm_in Q E P \<Longrightarrow> P' \<subseteq> P \<Longrightarrow> calm_in Q E P'"
  unfolding calm_in_def by blast

lemma calm_still [simp]: "calm_in Q (still_env sj) P"
  by (simp add: calm_in_def)

lemma flocks_of_file_ops [simp]:
  "flocks (put_node p n k) = flocks k" "flocks (append_ino i s t k) = flocks k"
  by (simp_all add: put_node_def append_ino_def)

lemma flocks_of_calls [simp]:
  "flocks (snd (k_create_trunc p t k)) = flocks k" "flocks (snd (k_create_new p t k)) = flocks k"
  "flocks (snd (k_rename p q k)) = flocks k" "flocks (snd (k_remove_file p k)) = flocks k"
  by (auto simp: k_create_trunc_def k_create_new_def k_create_def k_rename_def k_remove_file_def
      split: option.split node.split)

lemma flock_only_eq: "flock_only Q \<Longrightarrow> flocks k = flocks k' \<Longrightarrow> Q k \<Longrightarrow> Q k'"
  unfolding flock_only_def by blast

lemma flock_only_upd:
  assumes "flock_only Q"
  shows "Q (k\<lparr>files := f\<rparr>) = Q k" "Q (k\<lparr>next_ino := n\<rparr>) = Q k" "Q (k\<lparr>next_ino := n, files := f\<rparr>) = Q k"
    "Q (put_node p nd k) = Q k" "Q (append_ino i s t k) = Q k"
proof -
  have eq: "Q k1 = Q k2" if "flocks k1 = flocks k2" for k1 k2
    using assms that unfolding flock_only_def by blast
  show "Q (k\<lparr>files := f\<rparr>) = Q k" "Q (k\<lparr>next_ino := n\<rparr>) = Q k" "Q (k\<lparr>next_ino := n, files := f\<rparr>) = Q k"
    "Q (put_node p nd k) = Q k" "Q (append_ino i s t k) = Q k"
    by (rule eq, simp)+
qed

lemma inodes_ok_world_of_Nil [simp]: "inodes_ok (kern (world_of []))"
  by (simp add: inodes_ok_def)

lemma inodes_ok_new:
  assumes "inodes_ok k" and "files k p = None"
  shows "inodes_ok (put_node p (Some (File (next_ino k) c t)) (k\<lparr>next_ino := Suc (next_ino k)\<rparr>))"
  using assms by (fastforce simp: inodes_ok_def put_node_def)

lemma append_node_File:
  "map_option (append_node i s t) x = Some (File j c u) \<longleftrightarrow>
     (\<exists>c' u'. x = Some (File j c' u') \<and> (c, u) = (if j = i then (c' @ s, t) else (c', u')))"
proof (cases x)
  case (Some n)
  then show ?thesis by (cases n) auto
qed simp

lemma inodes_ok_append:
  assumes "inodes_ok k"
  shows "inodes_ok (append_ino i s t k)"
proof -
  have old: "\<exists>c' u'. files k p = Some (File j c' u')"
    if "files (append_ino i s t k) p = Some (File j c u)" for p j c u
    using that by (auto simp: append_ino_def append_node_File simp del: map_option_eq_Some)
  have nxt: "next_ino (append_ino i s t k) = next_ino k"
    by (simp add: append_ino_def)
  show ?thesis
    unfolding inodes_ok_def nxt
  proof (intro conjI allI impI)
    fix p j c u assume "files (append_ino i s t k) p = Some (File j c u)"
    from old [OF this] assms show "j < next_ino k" by (auto simp: inodes_ok_def)
  next
    fix p q j c u c' u'
    assume "files (append_ino i s t k) p = Some (File j c u)"
      "files (append_ino i s t k) q = Some (File j c' u')"
    from this [THEN old] assms show "p = q" unfolding inodes_ok_def by blast
  qed
qed

lemma inodes_ok_remove: "inodes_ok k \<Longrightarrow> inodes_ok (put_node p None k)"
  by (fastforce simp: inodes_ok_def put_node_def)

lemma inodes_ok_rename:
  assumes "inodes_ok k" and "files k p = Some n" and "p \<noteq> q"
  shows "inodes_ok (k\<lparr>files := (files k)(p := None, q := Some n)\<rparr>)"
  using assms unfolding inodes_ok_def by (simp add: fun_upd_def) (metis option.inject)

lemma append_ino_other:
  assumes "inodes_ok k" and "files k p = Some (File i c u)" and "q \<noteq> p"
  shows "files (append_ino i s t k) q = files k q"
proof (cases "files k q")
  case (Some n)
  then show ?thesis
    using assms by (cases n) (fastforce simp: append_ino_def inodes_ok_def)+
qed (simp add: append_ino_def)

lemma append_ino_self:
  "files k p = Some (File i c u) \<Longrightarrow> files (append_ino i s t k) p = Some (File i (c @ s) t)"
  by (simp add: append_ino_def)

section \<open>What a program leaves alone\<close>

text \<open>\<open>within R m\<close>: \<open>m\<close> leads from a world only to worlds related to it by \<open>R\<close>. The rules need no more of
  \<open>R\<close> than a preorder.\<close>

definition within :: "(world \<Rightarrow> world \<Rightarrow> bool) \<Rightarrow> 'a io \<Rightarrow> bool" where
  "within R m = (\<forall>w. R w (snd (run_state m w)))"

lemma withinD: "within R m \<Longrightarrow> run_state m w = (r, w') \<Longrightarrow> R w w'"
  by (metis within_def snd_conv)

lemma within_conseq: "within R m \<Longrightarrow> (\<And>w w'. R w w' \<Longrightarrow> S w w') \<Longrightarrow> within S m"
  by (simp add: within_def)

locale keeping =
  fixes R :: "world \<Rightarrow> world \<Rightarrow> bool"
  assumes refl: "R w w" and trans: "R u v \<Longrightarrow> R v w \<Longrightarrow> R u w"
begin

lemma bind:
  assumes "within R m" and "\<And>a. within R (f a)"
  shows "within R (State_Monad.bind m f)"
  unfolding within_def
proof
  fix w :: world
  obtain a w1 where m: "run_state m w = (a, w1)" by fastforce
  have "R w w1" by (rule withinD [OF assms(1) m])
  moreover have "R w1 (snd (run_state (f a) w1))" using assms(2) by (simp add: within_def)
  ultimately show "R w (snd (run_state (State_Monad.bind m f) w))"
    by (auto simp: State_Monad.bind_def m intro: trans)
qed

lemma pure: "within R (State_Monad.return a)" "within R (ok b)" "within R (err c)" "within R (lift_result d)"
  by (simp_all add: within_def refl)

lemma try_rule: "within R m \<Longrightarrow> (\<And>a. within R (f a)) \<Longrightarrow> within R (try_io m f)"
  unfolding try_io_def by (rule bind) (auto intro: pure split: sum.split)

lemma map_err: "within R m \<Longrightarrow> within R (map_err h m)"
  unfolding map_err_def by (rule bind) (auto intro: pure)

lemmas composed = bind pure try_rule map_err

end

text \<open>Programs that leave the kernel's state as it is, when nobody else acts.\<close>

definition inert :: "env \<Rightarrow> 'a io \<Rightarrow> bool" where
  "inert E m = (\<forall>w. kern (snd (run_state m w)) = kern w)"

lemma inertD: "inert E m \<Longrightarrow> run_state m w = (r, w') \<Longrightarrow> kern w' = kern w"
  by (metis inert_def snd_conv)

interpretation unchanged: keeping "\<lambda>w w'. kern w' = kern w"
  by unfold_locales auto

lemma inert_within_iff: "inert E m = within (\<lambda>w w'. kern w' = kern w) m"
  by (simp add: inert_def within_def)

lemma inert_bind: "inert E m \<Longrightarrow> (\<And>a. inert E (f a)) \<Longrightarrow> inert E (State_Monad.bind m f)"
  unfolding inert_within_iff by (rule unchanged.bind)

lemma inert_try: "inert E m \<Longrightarrow> (\<And>a. inert E (f a)) \<Longrightarrow> inert E (try_io m f)"
  unfolding inert_within_iff by (rule unchanged.try_rule)

lemma inert_map_err: "inert E m \<Longrightarrow> inert E (map_err h m)"
  unfolding inert_within_iff by (rule unchanged.map_err)

definition alone :: "env \<Rightarrow> bool" where
  "alone E = (\<forall>n k. interfere E n k = k)"

text \<open>Transient errors that do not pretend a file is absent.\<close>

definition honest :: "env \<Rightarrow> bool" where
  "honest E = (\<forall>n e. fault E n = Some e \<longrightarrow> io_kind e \<noteq> NotFound)"

lemma inert_reads:
  assumes "alone E"
  shows "inert E (State_Monad.return a)" "inert E (ok b)" "inert E (err c)" "inert E (lift_result d)"
    "inert E (look E f)" "inert E (ask_bridge E p body t)"
  using assms by (auto simp: inert_def alone_def seen_def)

end
