(* ===== verification/Sidecar.thy ===== *)
theory Sidecar
  imports Paths Hoare
begin

text \<open>
  \<open>src/session/sidecar.rs\<close>: what a spawn is told, the routing language, the schema markers and
  their gate, and the atomic write every sidecar file goes through.
\<close>

section \<open>Data\<close>

record spawn_spec =
  spec_lang :: string
  spec_kind :: string
  bridge_args :: "string list"
  wait_secs :: u64
  spec_stops :: json
  spec_requested :: json
  spec_target_identity :: json
  spec_identity_hint :: string

definition SCHEMA_VERSION :: u64 where
  "SCHEMA_VERSION = 2"

section \<open>Markers\<close>

text \<open>The parsed JSON of a file, when it can be read and parsed.\<close>

definition read_json_opt :: "env \<Rightarrow> string \<Rightarrow> (json option) io" where
  "read_json_opt E path = do {
     r \<leftarrow> read_to_string E path;
     State_Monad.return (Option.bind (to_option r) (\<lambda>raw. to_option (from_str (codec E) raw)))
   }"

definition session_lang_opt :: "env \<Rightarrow> string \<Rightarrow> (string option) io" where
  "session_lang_opt E dir = do {
     v \<leftarrow> read_json_opt E (path_join dir ''lang.json'');
     State_Monad.return (Option.bind v (\<lambda>v. str_field v ''lang''))
   }"

definition v2_object :: "json \<Rightarrow> bool" where
  "v2_object v = (Option.bind (as_object v) (\<lambda>m. Option.bind (map_of m ''schemaVersion'') as_u64) =
     Some SCHEMA_VERSION)"

definition sidecar_is_v2 :: "env \<Rightarrow> string \<Rightarrow> string \<Rightarrow> bool io" where
  "sidecar_is_v2 E dir file = do {
     v \<leftarrow> read_json_opt E (path_join dir file);
     State_Monad.return (case v of None \<Rightarrow> False | Some v \<Rightarrow> v2_object v)
   }"

text \<open>The second file is read only when the first is current.\<close>

definition cli_markers_v2 :: "env \<Rightarrow> string \<Rightarrow> bool io" where
  "cli_markers_v2 E dir = do {
     l \<leftarrow> sidecar_is_v2 E dir ''lang.json'';
     if l then sidecar_is_v2 E dir ''stops.json'' else State_Monad.return False
   }"

definition unsupported_session :: "string \<Rightarrow> string" where
  "unsupported_session name =
     ''unsupported session '' @ quoted name @ '' (schema v1; close it and recreate)''"

definition require_schema_v2 :: "env \<Rightarrow> string \<Rightarrow> string \<Rightarrow> (unit result) io" where
  "require_schema_v2 E dir name = do {
     v \<leftarrow> cli_markers_v2 E dir;
     State_Monad.return (if v then Inr () else bail (unsupported_session name))
   }"

section \<open>The atomic write\<close>

definition tmp_file_name :: "string \<Rightarrow> nat \<Rightarrow> u64 \<Rightarrow> string" where
  "tmp_file_name file pid n = file @ ''.tmp.'' @ show_nat pid @ ''.'' @ show_nat (unat n)"

definition atomic_tmp_name :: "env \<Rightarrow> string \<Rightarrow> string \<Rightarrow> string io" where
  "atomic_tmp_name E dir file = do {
     n \<leftarrow> next_tmp;
     State_Monad.return (path_join dir (tmp_file_name file (process_id E) n))
   }"

text \<open>
  Write the temporary file, rename it onto the destination, and drop it when either failed. The
  sources spell this block out in each writer, with the writer's own error text.
\<close>

definition write_then_rename ::
    "env \<Rightarrow> string \<Rightarrow> string \<Rightarrow> string \<Rightarrow> (io_error \<Rightarrow> string) \<Rightarrow> (unit result) io" where
  "write_then_rename E tmp dest content msg = do {
     written \<leftarrow> try_io (map_err (\<lambda>e. Msg (msg e)) (fs_write E tmp content)) (\<lambda>_.
                map_err (\<lambda>e. Msg (msg e)) (rename E tmp dest));
     (case written of
        Inl e \<Rightarrow> do { _ \<leftarrow> remove_file E tmp; State_Monad.return (Inl e) }
      | Inr u \<Rightarrow> State_Monad.return (Inr u))
   }"

definition cannot_write_session :: "string \<Rightarrow> io_error \<Rightarrow> string" where
  "cannot_write_session file e = ''cannot write session '' @ file @ '': '' @ io_text e"

definition write_sidecar_atomic :: "env \<Rightarrow> string \<Rightarrow> string \<Rightarrow> string \<Rightarrow> (unit result) io" where
  "write_sidecar_atomic E dir file content = do {
     tmp \<leftarrow> atomic_tmp_name E dir file;
     write_then_rename E tmp (path_join dir file) content (cannot_write_session file)
   }"

section \<open>Atomicity\<close>

text \<open>The destination is untouched or holds the whole content.\<close>

definition whole_or_old :: "string \<Rightarrow> node option \<Rightarrow> string \<Rightarrow> kern \<Rightarrow> bool" where
  "whole_or_old dest old content k =
     (files k dest = old \<or>
      (case files k dest of Some (File _ c _) \<Rightarrow> c = content | _ \<Rightarrow> False))"

definition tmp_state :: "(kern \<Rightarrow> bool) \<Rightarrow> string \<Rightarrow> string \<Rightarrow> node option \<Rightarrow> nat \<Rightarrow> string \<Rightarrow> world \<Rightarrow> bool" where
  "tmp_state Q tmp dest old i c w =
     (Q (kern w) \<and> inodes_ok (kern w) \<and> files (kern w) dest = old \<and> (\<exists>t. files (kern w) tmp = Some (File i c t)))"

definition old_state :: "(kern \<Rightarrow> bool) \<Rightarrow> string \<Rightarrow> node option \<Rightarrow> world \<Rightarrow> bool" where
  "old_state Q dest old w = (Q (kern w) \<and> inodes_ok (kern w) \<and> files (kern w) dest = old)"

lemma whole_or_old_old [simp]: "files k dest = old \<Longrightarrow> whole_or_old dest old c k"
  by (simp add: whole_or_old_def)

lemma create_tmp:
  assumes fo: "flock_only Q" and calm: "calm_in Q E {tmp, dest}" and neq: "tmp \<noteq> dest"
  shows "passes (whole_or_old dest old c) (\<lambda>w. old_state Q dest old w \<and> files (kern w) tmp = None)
     (create_trunc E tmp)
     (\<lambda>r w. case r of Inl _ \<Rightarrow> old_state Q dest old w | Inr i \<Rightarrow> tmp_state Q tmp dest old i [] w)"
  unfolding create_trunc_def
proof (rule passes_syscall)
  fix w assume P: "old_state Q dest old w \<and> files (kern w) tmp = None"
  let ?k = "seen E w" and ?f = "k_create_trunc tmp (clock E (calls w)) (seen E w)"
  have k: "inodes_ok ?k" "files ?k dest = old" "files ?k tmp = None" "Q ?k"
    using P calm by (auto simp: old_state_def)
  then show "whole_or_old dest old c ?k" by simp
  have "follow ?k tmp = Some tmp" using k(3) by (simp add: follow_def numeral_eq_Suc)
  then have f: "?f = (if parent_ok ?k tmp then (Inr (next_ino ?k), put_node tmp
        (Some (File (next_ino ?k) [] (clock E (calls w)))) (?k\<lparr>next_ino := Suc (next_ino ?k)\<rparr>))
      else (Inl (os NotFound), ?k))"
    using k(3) by (simp add: k_create_trunc_def k_create_def)
  show "whole_or_old dest old c (snd ?f) \<and> (case fst ?f of
      Inl _ \<Rightarrow> old_state Q dest old (changed E (snd ?f) w)
    | Inr i \<Rightarrow> tmp_state Q tmp dest old i [] (changed E (snd ?f) w))"
    using k neq inodes_ok_new [OF k(1) k(3)]
    by (auto simp: f old_state_def tmp_state_def put_node_def flock_only_upd [OF fo])
qed (use calm in \<open>auto simp: old_state_def\<close>)

lemma write_tmp:
  assumes fo: "flock_only Q" and calm: "calm_in Q E {tmp, dest}" and neq: "tmp \<noteq> dest"
  shows "passes (whole_or_old dest old c') (tmp_state Q tmp dest old i []) (write_all E i c)
     (\<lambda>r w. case r of Inl _ \<Rightarrow> old_state Q dest old w | Inr _ \<Rightarrow> tmp_state Q tmp dest old i c w)"
proof (rule passes_write_all)
  fix w assume P: "tmp_state Q tmp dest old i [] w"
  then obtain t0 where k: "inodes_ok (seen E w)" "files (seen E w) dest = old"
      "files (seen E w) tmp = Some (File i [] t0)" "Q (seen E w)"
    using calm by (auto simp: tmp_state_def)
  show "whole_or_old dest old c' (seen E w)" using k by simp
  have dest: "files (append_ino i s t (seen E w)) dest = old" for s t
    using append_ino_other [OF k(1) k(3)] neq k(2) by auto
  note a = inodes_ok_append [OF k(1)] append_ino_self [OF k(3)] dest
  show "whole_or_old dest old c' (append_ino i c (clock E (calls w)) (seen E w)) \<and>
      (case Inr () of Inl _ \<Rightarrow> old_state Q dest old
         (changed E (append_ino i c (clock E (calls w)) (seen E w)) w)
       | Inr _ \<Rightarrow> tmp_state Q tmp dest old i c
         (changed E (append_ino i c (clock E (calls w)) (seen E w)) w))"
    using a k by (simp add: tmp_state_def flock_only_upd [OF fo])
  show "whole_or_old dest old c' (append_ino i s (clock E (calls w)) (seen E w)) \<and>
      (case Inl e of Inl _ \<Rightarrow> old_state Q dest old
         (changed E (append_ino i s (clock E (calls w)) (seen E w)) w)
       | Inr _ \<Rightarrow> tmp_state Q tmp dest old i c
         (changed E (append_ino i s (clock E (calls w)) (seen E w)) w))" for e s
    using a k by (simp add: old_state_def flock_only_upd [OF fo])
qed

lemma rename_tmp:
  assumes fo: "flock_only Q" and calm: "calm_in Q E {tmp, dest}" and neq: "tmp \<noteq> dest"
  shows "passes (whole_or_old dest old c) (tmp_state Q tmp dest old i c) (rename E tmp dest)
     (\<lambda>r w. case r of Inl _ \<Rightarrow> old_state Q dest old w
        | Inr _ \<Rightarrow> Q (kern w) \<and> (\<exists>t. files (kern w) dest = Some (File i c t)) \<and> files (kern w) tmp = None)"
  unfolding rename_def
proof (rule passes_syscall)
  fix w assume P: "tmp_state Q tmp dest old i c w"
  then obtain t where k: "inodes_ok (seen E w)" "files (seen E w) dest = old"
      "files (seen E w) tmp = Some (File i c t)" "Q (seen E w)"
    using calm by (auto simp: tmp_state_def)
  let ?f = "k_rename tmp dest (seen E w)"
  show "whole_or_old dest old c (seen E w)" using k by simp
  show "whole_or_old dest old c (snd ?f) \<and> (case fst ?f of
      Inl _ \<Rightarrow> old_state Q dest old (changed E (snd ?f) w)
    | Inr _ \<Rightarrow> Q (kern (changed E (snd ?f) w)) \<and> (\<exists>t. files (kern (changed E (snd ?f) w)) dest = Some (File i c t)) \<and>
        files (kern (changed E (snd ?f) w)) tmp = None)"
    using k neq by (auto simp: k_rename_def old_state_def whole_or_old_def flock_only_upd [OF fo])
next
  fix w e assume "tmp_state Q tmp dest old i c w"
  then show "case Inl e of Inl _ \<Rightarrow> old_state Q dest old (moved E w)
      | Inr _ \<Rightarrow> Q (kern (moved E w)) \<and> (\<exists>t. files (kern (moved E w)) dest = Some (File i c t)) \<and>
          files (kern (moved E w)) tmp = None"
    using calm by (simp add: old_state_def tmp_state_def)
qed

lemma remove_tmp:
  assumes fo: "flock_only Q" and calm: "calm_in Q E {tmp, dest}" and neq: "tmp \<noteq> dest"
  shows "passes (whole_or_old dest old c) (old_state Q dest old) (remove_file E tmp) (\<lambda>r. old_state Q dest old)"
  unfolding remove_file_def
  by (rule passes_syscall)
    (use calm neq in \<open>auto simp: old_state_def k_remove_file_def whole_or_old_def flock_only_upd [OF fo]
       intro: inodes_ok_remove split: option.split node.split\<close>,
     auto simp: put_node_def)

lemma fs_write_tmp:
  assumes "flock_only Q" and "calm_in Q E {tmp, dest}" and "tmp \<noteq> dest"
  shows "passes (whole_or_old dest old c) (\<lambda>w. old_state Q dest old w \<and> files (kern w) tmp = None)
     (fs_write E tmp c)
     (\<lambda>r w. case r of Inl _ \<Rightarrow> old_state Q dest old w | Inr _ \<Rightarrow> \<exists>i. tmp_state Q tmp dest old i c w)"
  unfolding fs_write_def
  by (rule passes_try [OF create_tmp [OF assms]])
    (rule passes_conseq [OF write_tmp [OF assms]], auto split: sum.splits)

lemma passes_ex_pre: "(\<And>x. passes H (P x) m Q) \<Longrightarrow> passes H (\<lambda>w. \<exists>x. P x w) m Q"
  by (fastforce simp: passes_def)

definition landed :: "string \<Rightarrow> string \<Rightarrow> string \<Rightarrow> world \<Rightarrow> bool" where
  "landed tmp dest c w =
     ((\<exists>i t. files (kern w) dest = Some (File i c t)) \<and> files (kern w) tmp = None)"

lemma rename_tmp_ex:
  assumes "flock_only Q" and "calm_in Q E {tmp, dest}" and "tmp \<noteq> dest"
  shows "passes (whole_or_old dest old c) (\<lambda>w. \<exists>i. tmp_state Q tmp dest old i c w)
     (map_err h (rename E tmp dest))
     (\<lambda>r w. case r of Inl _ \<Rightarrow> old_state Q dest old w | Inr _ \<Rightarrow> Q (kern w) \<and> landed tmp dest c w)"
  by (rule passes_ex_pre, rule passes_map_err [OF rename_tmp [OF assms]])
    (auto simp: landed_def)

lemma write_then_rename_passes:
  assumes "flock_only Q" and "calm_in Q E {tmp, dest}" and "tmp \<noteq> dest"
  shows "passes (whole_or_old dest old c) (\<lambda>w. old_state Q dest old w \<and> files (kern w) tmp = None)
     (write_then_rename E tmp dest c msg)
     (\<lambda>r w. case r of Inl _ \<Rightarrow> old_state Q dest old w | Inr _ \<Rightarrow> Q (kern w) \<and> landed tmp dest c w)"
  unfolding write_then_rename_def
proof (rule passes_bind)
  show "passes (whole_or_old dest old c) (\<lambda>w. old_state Q dest old w \<and> files (kern w) tmp = None)
      (try_io (map_err (\<lambda>e. Msg (msg e)) (fs_write E tmp c)) (\<lambda>_.
        map_err (\<lambda>e. Msg (msg e)) (rename E tmp dest)))
      (\<lambda>r w. case r of Inl _ \<Rightarrow> old_state Q dest old w | Inr _ \<Rightarrow> Q (kern w) \<and> landed tmp dest c w)"
    by (rule passes_try [where R = "\<lambda>r w. case r of Inl _ \<Rightarrow> old_state Q dest old w
           | Inr _ \<Rightarrow> \<exists>i. tmp_state Q tmp dest old i c w"],
        rule passes_map_err [OF fs_write_tmp [OF assms]])
      (simp_all add: rename_tmp_ex [OF assms])
  fix r :: "unit result"
  show "passes (whole_or_old dest old c)
      (\<lambda>w. case r of Inl _ \<Rightarrow> old_state Q dest old w | Inr _ \<Rightarrow> Q (kern w) \<and> landed tmp dest c w)
      (case r of Inl e \<Rightarrow> do { _ \<leftarrow> remove_file E tmp; State_Monad.return (Inl e) }
       | Inr u \<Rightarrow> State_Monad.return (Inr u))
      (\<lambda>r w. case r of Inl _ \<Rightarrow> old_state Q dest old w | Inr _ \<Rightarrow> Q (kern w) \<and> landed tmp dest c w)"
  proof (cases r)
    case (Inl e)
    then show ?thesis
      by (auto intro!: passes_bind [OF remove_tmp [OF assms]] passes_return)
  qed (auto intro!: passes_return)
qed

lemma tmp_path_neq: "path_join dir (tmp_file_name fname pid n) \<noteq> path_join dir fname"
proof -
  have "starts_with (tmp_file_name fname pid n) ''/'' \<longleftrightarrow> starts_with fname ''/''"
    by (cases fname) (simp_all add: tmp_file_name_def starts_with_def)
  moreover have "tmp_file_name fname pid n \<noteq> fname"
    by (simp add: tmp_file_name_def)
  ultimately show ?thesis
    by (auto simp: path_join_def)
qed

definition tmp_path :: "env \<Rightarrow> string \<Rightarrow> string \<Rightarrow> world \<Rightarrow> string" where
  "tmp_path E dir fname w = path_join dir (tmp_file_name fname (process_id E) (tmp_counter w))"

text \<open>
  A writer that names its own temporary file: what a reader sees at every moment, and what is
  left at the end. The writers of the other components come down to this lemma.
\<close>

lemma tmp_write_whole:
  assumes fo: "flock_only Q" and calm: "calm_in Q E {tmp, dest}" and neq: "tmp \<noteq> dest"
    and held: "Q (kern w)" and ok: "inodes_ok (kern w)" and absent: "files (kern w) tmp = None"
    and run: "run_state (write_then_rename E tmp dest c msg) w = (r, w')"
  shows "\<exists>new. history w' = history w @ new \<and>
      list_all (whole_or_old dest (files (kern w) dest) c) new \<and>
      (case r of Inl _ \<Rightarrow> files (kern w') dest = files (kern w) dest | Inr _ \<Rightarrow> Q (kern w') \<and> landed tmp dest c w')"
proof -
  note p = write_then_rename_passes [OF fo calm neq, where old = "files (kern w) dest" and c = c and msg = msg]
  have P: "old_state Q dest (files (kern w) dest) w \<and> files (kern w) tmp = None"
    using ok absent held by (simp add: old_state_def)
  from passesD [OF p P run] have "case r of Inl _ \<Rightarrow> files (kern w') dest = files (kern w) dest
      | Inr _ \<Rightarrow> Q (kern w') \<and> landed tmp dest c w'"
    by (simp add: old_state_def split: sum.splits)
  with passes_history [OF p P run] show ?thesis
    by (auto simp: list_all_iff)
qed

text \<open>C4: A sidecar file is replaced as a whole: from the first step of \<open>write_sidecar_atomic\<close> to the
  last, including every failing or interrupted write, a reader of the file finds the old node or
  the complete new content, never a part of it; an error leaves the old file, success leaves the
  new one and no temporary file.\<close>

theorem sidecar_write_atomic:
  assumes "calm E {tmp_path E dir fname w, path_join dir fname}"
    and "inodes_ok (kern w)" and "files (kern w) (tmp_path E dir fname w) = None"
    and "run_state (write_sidecar_atomic E dir fname c) w = (r, w')"
  shows "\<exists>new. history w' = history w @ new \<and>
      list_all (whole_or_old (path_join dir fname) (files (kern w) (path_join dir fname)) c) new \<and>
      (case r of Inl _ \<Rightarrow> files (kern w') (path_join dir fname) = files (kern w) (path_join dir fname)
       | Inr _ \<Rightarrow> landed (tmp_path E dir fname w) (path_join dir fname) c w')"
  using tmp_write_whole [where w = "w\<lparr>tmp_counter := tmp_counter w + 1\<rparr>" and r = r and w' = w'
      and msg = "cannot_write_session fname" and c = c, OF flock_only_True assms(1)] assms(2-)
  by (cases r) (simp_all add: write_sidecar_atomic_def atomic_tmp_name_def State_Monad.bind_def
      tmp_path_def tmp_path_neq)

theorem sidecar_write_atomic_witness:
  "\<exists>new. history (snd (run_state (write_sidecar_atomic (still_env brace_serde) ''/s'' ''lang.json'' ''{}'')
        (world_of []))) = [] @ new \<and>
      list_all (whole_or_old ''/s/lang.json'' None ''{}'') new"
  using sidecar_write_atomic [where E = "still_env brace_serde" and dir = "''/s''" and
      fname = "''lang.json''" and w = "world_of []" and c = "''{}''", OF _ _ _ surjective_pairing]
  by (auto simp: path_join_def starts_with_def)

section \<open>The schema gate\<close>

text \<open>The file at a path, read as JSON, in one state of the file system.\<close>

definition json_at :: "env \<Rightarrow> kern \<Rightarrow> string \<Rightarrow> json option" where
  "json_at E k path =
     Option.bind (to_option (k_read_to_string path k)) (\<lambda>raw. to_option (from_str (codec E) raw))"

lemma run_read_json_opt [simp]:
  "run_state (read_json_opt E path) w =
     (case fault E (calls w) of Some _ \<Rightarrow> None | None \<Rightarrow> json_at E (seen E w) path, moved E w)"
  by (simp add: read_json_opt_def read_to_string_def State_Monad.bind_def json_at_def split: option.split)

text \<open>The schema gate opens only on current markers: it answers yes exactly when both
  \<open>lang.json\<close> and \<open>stops.json\<close> read, at their own moments, as objects whose \<open>schemaVersion\<close>
  is 2; a missing, unreadable or corrupt file, another version, or a non-object closes it.\<close>

theorem schema_gate_iff:
  "fst (run_state (require_schema_v2 E dir name) w) = Inr () \<longleftrightarrow>
   (\<exists>l s. json_at E (seen E w) (path_join dir ''lang.json'') = Some l \<and> u64_field l ''schemaVersion'' = Some 2 \<and>
     json_at E (seen E (moved E w)) (path_join dir ''stops.json'') = Some s \<and>
     u64_field s ''schemaVersion'' = Some 2 \<and> fault E (calls w) = None \<and> fault E (Suc (calls w)) = None)"
proof -
  have v2: "v2_object v \<longleftrightarrow> u64_field v ''schemaVersion'' = Some 2" for v
    by (simp add: v2_object_def u64_field_def json_get_def as_object_def SCHEMA_VERSION_def split: json.split)
  show ?thesis
    by (auto simp: require_schema_v2_def cli_markers_v2_def sidecar_is_v2_def State_Monad.bind_def v2
        split: option.splits if_splits)
qed

end
