(* ===== verification/Identity.thy ===== *)
theory Identity
  imports Sidecar
begin

text \<open>
  \<open>src/session/identity.rs\<close>: redaction of secrets in argument lists, the caps on a layered
  identity, the seeds and hints built from it, the Linux listener lookup, the target summary of a
  spawn, and what is made of an identity read back from disk.
\<close>

section \<open>Redaction\<close>

definition IDENTITY_FIELD_CAP :: nat where "IDENTITY_FIELD_CAP = 512"
definition IDENTITY_TOTAL_CAP :: nat where "IDENTITY_TOTAL_CAP = 2048"
definition IDENTITY_ARRAY_CAP :: nat where "IDENTITY_ARRAY_CAP = 32"

definition secret_substrings :: "string list" where
  "secret_substrings = [''password'', ''passwd'', ''secret'', ''apikey'', ''authorization'',
     ''authtoken'', ''accesstoken'']"

definition secret_tokens :: "string list" where
  "secret_tokens = [''token'', ''auth'', ''pwd'', ''pass'', ''pw'']"

definition is_secret_flag :: "string \<Rightarrow> bool" where
  "is_secret_flag flag =
     (let t = to_ascii_lowercase (dropWhile (\<lambda>c. c = CHR ''-'') flag);
          flat = filter (\<lambda>c. c \<noteq> CHR ''-'' \<and> c \<noteq> CHR ''_'') t in
      list_ex (str_contains flat) secret_substrings \<or>
      list_ex (\<lambda>tok. list_ex (\<lambda>k. tok = k \<or> ends_with tok k) secret_tokens)
        (split_by (\<lambda>c. c \<in> set ''-_.'') t))"

text \<open>The name that starts here, and what follows it.\<close>

definition is_name_byte :: "char \<Rightarrow> bool" where
  "is_name_byte c = (is_ascii_alphanumeric c \<or> c \<in> set ''-_.'')"

fun value_holds_secret_pair :: "string \<Rightarrow> bool" where
  "value_holds_secret_pair [] = False"
| "value_holds_secret_pair (c # s) =
     (if c \<in> set ''?&;'' then
        (let name = takeWhile is_name_byte s; rest = dropWhile is_name_byte s in
         if rest \<noteq> [] \<and> hd rest \<in> set ''=:'' \<and> name \<noteq> [] \<and> is_secret_flag name then True
         else value_holds_secret_pair rest)
      else value_holds_secret_pair s)"

definition redacted :: string where
  "redacted = ''[redacted]''"

text \<open>The first \<open>=\<close>, or else the first \<open>:\<close>, when it is not the first byte.\<close>

definition flag_split :: "string \<Rightarrow> nat option" where
  "flag_split a =
     (case (case find_index (\<lambda>c. c = CHR ''='') a of Some i \<Rightarrow> Some i
            | None \<Rightarrow> find_index (\<lambda>c. c = CHR '':'') a) of
        Some i \<Rightarrow> if 0 < i then Some i else None
      | None \<Rightarrow> None)"

definition redact_word :: "string \<Rightarrow> string" where
  "redact_word a =
     (case flag_split a of
        None \<Rightarrow> a
      | Some i \<Rightarrow>
          if is_secret_flag (take i a) then take i a @ take 1 (drop i a) @ redacted
          else if value_holds_secret_pair (drop i a) then take i a @ take 1 (drop i a) @ redacted
          else a)"

text \<open>Whether the word makes the next one its value.\<close>

definition arms_next :: "string \<Rightarrow> bool" where
  "arms_next a = (flag_split a = None \<and> is_secret_flag a)"

definition flag_like :: "string \<Rightarrow> bool" where
  "flag_like a = (starts_with a ''-'' \<and> 1 < length a)"

fun redact_words :: "bool \<Rightarrow> string list \<Rightarrow> string list" where
  "redact_words skip_next [] = []"
| "redact_words skip_next (a # argv) =
     (if skip_next \<and> \<not> flag_like a then redacted # redact_words False argv
      else redact_word a # redact_words (arms_next a) argv)"

definition redact_argv :: "string list \<Rightarrow> json list" where
  "redact_argv argv = map VString (redact_words False argv)"

section \<open>Caps\<close>

definition ellipsis :: string where
  "ellipsis = [CHR 0xE2, CHR 0x80, CHR 0xA6]"

definition trunc_chars :: "string \<Rightarrow> nat \<Rightarrow> string" where
  "trunc_chars s limit =
     (let n = chars_count s in
      if n \<le> limit then s
      else take_chars limit s @ ellipsis @ '' (+'' @ show_nat (n - limit) @ '' more chars)'')"

definition cap_str :: "string \<Rightarrow> string" where
  "cap_str s = (if IDENTITY_FIELD_CAP < chars_count s then trunc_chars s IDENTITY_FIELD_CAP else s)"

definition more_marker :: "nat \<Rightarrow> string" where
  "more_marker dropped = ellipsis @ '' (+'' @ show_nat dropped @ '' more)''"

fun cap_walk :: "json \<Rightarrow> json"
and cap_first :: "nat \<Rightarrow> json list \<Rightarrow> json list"
and cap_fields :: "(string \<times> json) list \<Rightarrow> (string \<times> json) list" where
  "cap_walk (VString s) = VString (cap_str s)"
| "cap_walk (VArray a) =
     VArray (if IDENTITY_ARRAY_CAP < length a
       then cap_first IDENTITY_ARRAY_CAP a @ [VString (cap_str (more_marker (length a - IDENTITY_ARRAY_CAP)))]
       else cap_first (length a) a)"
| "cap_walk (VObject m) = VObject (cap_fields m)"
| "cap_walk VNull = VNull"
| "cap_walk (VBool b) = VBool b"
| "cap_walk (VNumber n) = VNumber n"
| "cap_first 0 a = []"
| "cap_first (Suc n) [] = []"
| "cap_first (Suc n) (v # a) = cap_walk v # cap_first n a"
| "cap_fields [] = []"
| "cap_fields ((k, v) # m) = (k, cap_walk v) # cap_fields m"

text \<open>The longest string by bytes, the last of equals, with what puts another in its place.\<close>

fun longest :: "json \<Rightarrow> (string \<times> (string \<Rightarrow> json)) option"
and longest_item :: "json list \<Rightarrow> (string \<times> (string \<Rightarrow> json list)) option"
and longest_field :: "(string \<times> json) list \<Rightarrow> (string \<times> (string \<Rightarrow> (string \<times> json) list)) option" where
  "longest (VString s) = (if 1 < chars_count s then Some (s, VString) else None)"
| "longest (VArray a) = map_option (\<lambda>(s, put). (s, \<lambda>x. VArray (put x))) (longest_item a)"
| "longest (VObject m) = map_option (\<lambda>(s, put). (s, \<lambda>x. VObject (put x))) (longest_field m)"
| "longest VNull = None"
| "longest (VBool b) = None"
| "longest (VNumber n) = None"
| "longest_item [] = None"
| "longest_item (v # a) =
     (case (longest v, longest_item a) of
        (None, None) \<Rightarrow> None
      | (Some (s, put), None) \<Rightarrow> Some (s, \<lambda>x. put x # a)
      | (None, Some (s, put)) \<Rightarrow> Some (s, \<lambda>x. v # put x)
      | (Some (s, put), Some (s', put')) \<Rightarrow>
          if length s' < length s then Some (s, \<lambda>x. put x # a) else Some (s', \<lambda>x. v # put' x))"
| "longest_field [] = None"
| "longest_field ((k, v) # m) =
     (case (longest v, longest_field m) of
        (None, None) \<Rightarrow> None
      | (Some (s, put), None) \<Rightarrow> Some (s, \<lambda>x. (k, put x) # m)
      | (None, Some (s, put)) \<Rightarrow> Some (s, \<lambda>x. (k, v) # put x)
      | (Some (s, put), Some (s', put')) \<Rightarrow>
          if length s' < length s then Some (s, \<lambda>x. (k, put x) # m)
          else Some (s', \<lambda>x. (k, v) # put' x))"

definition shorter :: "string \<Rightarrow> string" where
  "shorter s =
     (let n = chars_count s; cand = trunc_chars s (max (n - 64) 1) in
      if chars_count cand < n then cand else ellipsis)"

fun cap_loop :: "serde \<Rightarrow> nat \<Rightarrow> json \<Rightarrow> json" where
  "cap_loop sj 0 v = v"
| "cap_loop sj (Suc budget) v =
     (if chars_count (to_text sj v) \<le> IDENTITY_TOTAL_CAP then v
      else (case longest v of None \<Rightarrow> v | Some (s, put) \<Rightarrow> cap_loop sj budget (put (shorter s))))"

definition cap_identity :: "serde \<Rightarrow> json \<Rightarrow> json" where
  "cap_identity sj v = cap_loop sj 4096 (cap_walk v)"

section \<open>Seeds and hints\<close>

definition unavailable :: "string \<Rightarrow> string \<Rightarrow> json" where
  "unavailable field reason = jobj [(''field'', VString field), (''reason'', VString reason)]"

definition identity_now :: "env \<Rightarrow> json io" where
  "identity_now E = do { t \<leftarrow> now E; State_Monad.return (num (t div 1000000000)) }"

definition opt_string :: "string option \<Rightarrow> json" where
  "opt_string s = (case s of None \<Rightarrow> VNull | Some x \<Rightarrow> VString x)"

definition unavailable_role :: "json \<Rightarrow> string \<Rightarrow> string \<Rightarrow> json" where
  "unavailable_role at field reason = jobj [(''confidence'', VString ''unavailable''),
     (''observedAt'', at), (''unavailable'', VArray [unavailable field reason])]"

definition launch_seed :: "env \<Rightarrow> string \<Rightarrow> string list \<Rightarrow> json io" where
  "launch_seed E exe argv = do {
     at \<leftarrow> identity_now E;
     State_Monad.return (cap_identity (codec E) (jobj [
       (''debuggee'', jobj [
          (''kind'', VString ''process''), (''pid'', VNull), (''executable'', VString exe),
          (''argv'', VArray (redact_argv argv)), (''cwd'', opt_string (cwd_var E)),
          (''source'', VString ''launcher-args''), (''confidence'', VString ''unavailable''),
          (''observedAt'', at),
          (''unavailable'', VArray [unavailable ''pid''
             ''not protocol-confirmed (launcher args only); protocol event upgrades debuggee''])]),
       (''endpoint'', unavailable_role at ''endpoint'' ''no listener yet (launcher args only)''),
       (''adapter'', unavailable_role at ''adapter'' ''adapter not started (launcher args only)'')]))
   }"

record proc_info =
  pi_pid :: nat
  pi_source :: string
  pi_exe :: "string option"
  pi_exe_reason :: string
  pi_argv :: "string list"
  pi_argv_reason :: string
  pi_cwd :: "string option"
  pi_cwd_reason :: string
  pi_warnings :: "string list"

text \<open>\<open>/proc/net/tcp\<close> lines: local address, state 0A, inode; loopback and wildcard addresses count.\<close>

definition hex_upper :: "nat \<Rightarrow> char" where
  "hex_upper d = (if d < 10 then digit_char d else char_of (55 + d))"

definition port_suffix :: "u16 \<Rightarrow> string" where
  "port_suffix port = (let p = unat port in
     [CHR '':'', hex_upper (p div 4096), hex_upper (p div 256 mod 16), hex_upper (p div 16 mod 16),
      hex_upper (p mod 16)])"

definition served_address :: "string \<Rightarrow> bool" where
  "served_address ip = (ip \<in> {''0100007F'', ''00000000000000000000000001000000'',
     ''0000000000000000FFFF00000100007F'', ''00000000'', ''00000000000000000000000000000000'',
     ''0000000000000000FFFF000000000000''})"

definition listen_line :: "u16 \<Rightarrow> string \<Rightarrow> string option" where
  "listen_line port line =
     (let f = split_whitespace line in
      if length f < 10 then None
      else if f ! 3 \<noteq> ''0A'' \<or> \<not> ends_with (f ! 1) (port_suffix port) then None
      else if served_address (hd (split_by (\<lambda>c. c = CHR '':'') (f ! 1))) then Some (f ! 9)
      else None)"

fun first_some :: "('a \<Rightarrow> 'b option) \<Rightarrow> 'a list \<Rightarrow> 'b option" where
  "first_some f [] = None"
| "first_some f (x # xs) = (case f x of None \<Rightarrow> first_some f xs | Some y \<Rightarrow> Some y)"

fun tcp_listen_inode_files :: "env \<Rightarrow> u16 \<Rightarrow> string list \<Rightarrow> (string option) io" where
  "tcp_listen_inode_files E port [] = State_Monad.return None"
| "tcp_listen_inode_files E port (f # fs) = do {
     r \<leftarrow> read_to_string E f;
     (case r of
        Inl _ \<Rightarrow> tcp_listen_inode_files E port fs
      | Inr raw \<Rightarrow> (case first_some (listen_line port) (drop 1 (str_lines raw)) of
          Some inode \<Rightarrow> State_Monad.return (Some inode)
        | None \<Rightarrow> tcp_listen_inode_files E port fs))
   }"

definition tcp_listen_inode_in :: "env \<Rightarrow> u16 \<Rightarrow> string \<Rightarrow> string \<Rightarrow> (string option) io" where
  "tcp_listen_inode_in E port tcp tcp6 = tcp_listen_inode_files E port [tcp, tcp6]"

definition tcp_listen_inode :: "env \<Rightarrow> u16 \<Rightarrow> (string option) io" where
  "tcp_listen_inode E port = tcp_listen_inode_in E port ''/proc/net/tcp'' ''/proc/net/tcp6''"

fun holds_link :: "env \<Rightarrow> string \<Rightarrow> string \<Rightarrow> string list \<Rightarrow> bool io" where
  "holds_link E want dir [] = State_Monad.return False"
| "holds_link E want dir (fd # fds) = do {
     l \<leftarrow> read_link E (path_join dir fd);
     (case l of
        Inr p \<Rightarrow> if from_utf8_lossy p = want then State_Monad.return True else holds_link E want dir fds
      | Inl _ \<Rightarrow> holds_link E want dir fds)
   }"

definition proc_path :: "nat \<Rightarrow> string \<Rightarrow> string" where
  "proc_path pid entry = ''/proc/'' @ show_nat pid @ ''/'' @ entry"

fun first_holder :: "env \<Rightarrow> string \<Rightarrow> nat list \<Rightarrow> (nat option) io" where
  "first_holder E want [] = State_Monad.return None"
| "first_holder E want (pid # pids) = do {
     fds \<leftarrow> read_dir E (proc_path pid ''fd'');
     (case fds of
        Inl _ \<Rightarrow> first_holder E want pids
      | Inr names \<Rightarrow> do {
          found \<leftarrow> holds_link E want (proc_path pid ''fd'') names;
          if found then State_Monad.return (Some pid) else first_holder E want pids
        })
   }"

definition pid_holding_socket :: "env \<Rightarrow> string \<Rightarrow> (nat option) io" where
  "pid_holding_socket E inode = do {
     procs \<leftarrow> read_dir E ''/proc'';
     (case procs of
        Inl _ \<Rightarrow> State_Monad.return None
      | Inr names \<Rightarrow> first_holder E (''socket:['' @ inode @ '']'')
          (sort (List.map_filter (\<lambda>n. parse_uint (2 ^ 32) (from_utf8_lossy n)) names)))
   }"

definition ok_lossy :: "(io_error + string) \<Rightarrow> string option" where
  "ok_lossy r = map_option from_utf8_lossy (to_option r)"

definition read_proc_info :: "env \<Rightarrow> nat \<Rightarrow> proc_info io" where
  "read_proc_info E pid = do {
     exe \<leftarrow> read_link E (proc_path pid ''exe'');
     raw \<leftarrow> read_bytes E (proc_path pid ''cmdline'');
     let argv = map from_utf8_lossy (filter (\<lambda>s. s \<noteq> [])
       (split_by (\<lambda>c. c = CHR 0x00) (case raw of Inl _ \<Rightarrow> [] | Inr b \<Rightarrow> b)));
     cwd \<leftarrow> read_link E (proc_path pid ''cwd'');
     State_Monad.return \<lparr>pi_pid = pid, pi_source = ''os-proc'', pi_exe = ok_lossy exe,
       pi_exe_reason = ''unreadable /proc exe link'', pi_argv = argv,
       pi_argv_reason = ''unreadable /proc cmdline'', pi_cwd = ok_lossy cwd,
       pi_cwd_reason = ''unreadable /proc cwd link'', pi_warnings = []\<rparr>
   }"

definition port_lookup :: "env \<Rightarrow> u16 \<Rightarrow> (proc_info option) io" where
  "port_lookup E port = do {
     inode \<leftarrow> tcp_listen_inode E port;
     (case inode of
        None \<Rightarrow> State_Monad.return None
      | Some i \<Rightarrow> do {
          pid \<leftarrow> pid_holding_socket E i;
          (case pid of
             None \<Rightarrow> State_Monad.return None
           | Some p \<Rightarrow> do { info \<leftarrow> read_proc_info E p; State_Monad.return (Some info) })
        })
   }"

definition listener_source_readable :: "env \<Rightarrow> bool io" where
  "listener_source_readable E = do {
     a \<leftarrow> read_to_string E ''/proc/net/tcp'';
     (case a of
        Inr _ \<Rightarrow> State_Monad.return True
      | Inl _ \<Rightarrow> do {
          b \<leftarrow> read_to_string E ''/proc/net/tcp6'';
          State_Monad.return (case b of Inr _ \<Rightarrow> True | Inl _ \<Rightarrow> False)
        })
   }"

definition port_json :: "u16 \<Rightarrow> json" where
  "port_json port = VNumber (PosInt (ucast port))"

definition endpoint_unknown :: "json \<Rightarrow> string \<Rightarrow> u16 \<Rightarrow> json list \<Rightarrow> json" where
  "endpoint_unknown at host port missing = jobj [
     (''host'', VString host), (''port'', port_json port), (''ownerPid'', VNull),
     (''confidence'', VString ''unavailable''), (''observedAt'', at), (''unavailable'', VArray missing)]"

text \<open>The endpoint role of a corroborated listener: facts found go in, facts missing are listed.\<close>

definition endpoint_observed :: "json \<Rightarrow> string \<Rightarrow> u16 \<Rightarrow> proc_info \<Rightarrow> json" where
  "endpoint_observed at host port info =
     (let e0 = jobj [(''host'', VString host), (''port'', port_json port),
            (''ownerPid'', num (pi_pid info)), (''source'', VString (pi_source info)),
            (''confidence'', VString ''os-corroborated''), (''observedAt'', at)];
          (e1, m1) = (case pi_exe info of
              Some e \<Rightarrow> (insert_if_object ''executable'' (VString e) e0, [])
            | None \<Rightarrow> (e0, [unavailable ''executable'' (pi_exe_reason info)]));
          (e2, m2) = (if pi_argv info = [] then (e1, m1 @ [unavailable ''argv'' (pi_argv_reason info)])
            else (insert_if_object ''argv'' (VArray (redact_argv (pi_argv info))) e1, m1));
          (e3, m3) = (case pi_cwd info of
              Some c \<Rightarrow> (insert_if_object ''cwd'' (VString c) e2, m2)
            | None \<Rightarrow> (e2, m2 @ [unavailable ''cwd'' (pi_cwd_reason info)])) in
      insert_if_object ''warnings'' (VArray (map VString (pi_warnings info)))
        (insert_if_object ''unavailable'' (VArray m3) e3))"

definition attach_seed :: "env \<Rightarrow> string \<Rightarrow> u16 \<Rightarrow> json io" where
  "attach_seed E host port = do {
     at \<leftarrow> identity_now E;
     let debuggee = jobj [(''kind'', VString ''process''), (''pid'', VNull),
       (''confidence'', VString ''unavailable''), (''observedAt'', at),
       (''unavailable'', VArray [unavailable ''pid'' ''debuggee pid not confirmed by protocol (seed only)''])];
     let adapter = unavailable_role at ''adapter'' ''adapter not confirmed by protocol (seed only)'';
     let seed = (\<lambda>endpoint. cap_identity (codec E)
       (jobj [(''debuggee'', debuggee), (''endpoint'', endpoint), (''adapter'', adapter)]));
     if normalize_attach_host host \<noteq> ''loopback'' then
       State_Monad.return (seed (endpoint_unknown at host port
         (map (\<lambda>f. unavailable f ''remote host has no local source'')
           [''ownerPid'', ''executable'', ''argv'', ''cwd''])))
     else do {
       found \<leftarrow> port_lookup E port;
       State_Monad.return (seed (case found of
           Some info \<Rightarrow> endpoint_observed at host port info
         | None \<Rightarrow> endpoint_unknown at host port [unavailable ''ownerPid'' ''no independent pid source'']))
     }
   }"

definition role_hint :: "json \<Rightarrow> string option" where
  "role_hint r =
     (let exe = (case str_field r ''executable'' of None \<Rightarrow> ''?'' | Some e \<Rightarrow> e);
          argv = (case array_field r ''argv'' of None \<Rightarrow> [] | Some a \<Rightarrow> take 3 (List.map_filter as_str a));
          cwd = (case str_field r ''cwd'' of None \<Rightarrow> ''?'' | Some c \<Rightarrow> c) in
      if exe \<noteq> ''?'' \<or> argv \<noteq> []
      then Some (''target identity: '' @ exe @ '' '' @ join_with '' '' argv @ '' (cwd '' @ cwd @ '')'')
      else None)"

definition identity_hint_inner :: "json \<Rightarrow> string" where
  "identity_hint_inner seed =
     (case first_some (\<lambda>role. Option.bind (json_get seed role) role_hint) [''debuggee'', ''endpoint''] of
        Some h \<Rightarrow> h
      | None \<Rightarrow> if seed = VNull then [] else ''target identity unavailable (no independent source)'')"

definition identity_hint :: "json \<Rightarrow> string" where
  "identity_hint seed = trunc_chars (identity_hint_inner seed) 200"

section \<open>Targets and stops\<close>

definition summary_keys :: "(string \<times> string) list" where
  "summary_keys = [(''--program'', ''program''), (''--module'', ''module''), (''--main'', ''main''),
     (''--port'', ''port''), (''--host'', ''host''), (''--tab'', ''tab''), (''--cp'', ''classpath''),
     (''--python'', ''python''), (''--node'', ''node'')]"

fun summary_scan :: "(string \<times> json) list \<Rightarrow> string list \<Rightarrow> (string \<times> json) list" where
  "summary_scan m [] = m"
| "summary_scan m (a # args) =
     (if a = ''--'' then m
      else if a = ''--subprocess'' then summary_scan (map_insert ''subprocess'' (VBool True) m) args
      else if a = ''--workers'' then summary_scan (map_insert ''workers'' (VBool True) m) args
      else (case (map_of summary_keys a, args) of
          (Some key, v # rest) \<Rightarrow> summary_scan (map_insert key (VString v) m) rest
        | _ \<Rightarrow> summary_scan m args))"

definition target_summary :: "string list \<Rightarrow> json" where
  "target_summary args = VObject (summary_scan [] args)"

definition armed_count :: "json \<Rightarrow> string \<Rightarrow> json" where
  "armed_count stops key = num (case array_field stops key of None \<Rightarrow> 0 | Some a \<Rightarrow> length a)"

definition stops_armed :: "json \<Rightarrow> json" where
  "stops_armed stops = jobj [
     (''breaks'', armed_count stops ''breaks''), (''logpoints'', armed_count stops ''logpoints''),
     (''watches'', armed_count stops ''watches''), (''exits'', armed_count stops ''exits'')]"

section \<open>Stored identities\<close>

definition identity_roles :: "string list" where
  "identity_roles = [''debuggee'', ''endpoint'', ''adapter'']"

definition is_layered_identity :: "json \<Rightarrow> bool" where
  "is_layered_identity v =
     (case as_object v of
        None \<Rightarrow> False
      | Some m \<Rightarrow>
          list_all (\<lambda>role. case map_of m role of Some (VObject _) \<Rightarrow> True | Some VNull \<Rightarrow> True | _ \<Rightarrow> False)
            identity_roles \<and>
          list_all (\<lambda>flat. map_of m flat = None) [''pid'', ''argv'', ''executable'', ''cwd''])"

text \<open>An \<open>argv\<close> of strings only is redacted again and not entered; anything else is walked.\<close>

fun reredact_argv_in :: "json \<Rightarrow> json"
and reredact_items :: "json list \<Rightarrow> json list"
and reredact_fields :: "(string \<times> json) list \<Rightarrow> (string \<times> json) list" where
  "reredact_argv_in (VObject m) = VObject (reredact_fields m)"
| "reredact_argv_in (VArray a) = VArray (reredact_items a)"
| "reredact_argv_in (VString s) = VString s"
| "reredact_argv_in VNull = VNull"
| "reredact_argv_in (VBool b) = VBool b"
| "reredact_argv_in (VNumber n) = VNumber n"
| "reredact_items [] = []"
| "reredact_items (v # a) = reredact_argv_in v # reredact_items a"
| "reredact_fields [] = []"
| "reredact_fields ((k, child) # m) =
     (k, if k = ''argv'' then (case as_array child of
             Some a \<Rightarrow> if list_all (\<lambda>e. as_str e \<noteq> None) a
               then VArray (redact_argv (List.map_filter as_str a)) else reredact_argv_in child
           | None \<Rightarrow> reredact_argv_in child)
         else reredact_argv_in child) # reredact_fields m"

definition sanitize_role :: "serde \<Rightarrow> string \<Rightarrow> json \<Rightarrow> json" where
  "sanitize_role sj k role =
     (if k \<in> set identity_roles
      then (case role of VObject _ \<Rightarrow> cap_identity sj (reredact_argv_in role) | _ \<Rightarrow> VNull)
      else cap_identity sj (reredact_argv_in role))"

definition fill_role :: "json \<Rightarrow> string \<Rightarrow> (string \<times> json) list \<Rightarrow> (string \<times> json) list" where
  "fill_role at role m =
     (if map_of m role = None
      then map_insert role (unavailable_role at role ''role missing from stored identity'') m else m)"

definition sanitize_layered_identity :: "env \<Rightarrow> json \<Rightarrow> json io" where
  "sanitize_layered_identity E v = do {
     let entries = (case as_object v of None \<Rightarrow> [] | Some m \<Rightarrow> m);
     let out = foldl (\<lambda>m (k, role). map_insert k (sanitize_role (codec E) k role) m) [] entries;
     at \<leftarrow> identity_now E;
     State_Monad.return (VObject (foldl (\<lambda>m role. fill_role at role m) out identity_roles))
   }"

definition layered_identity_or_null :: "env \<Rightarrow> json option \<Rightarrow> json io" where
  "layered_identity_or_null E stored =
     (case stored of
        Some v \<Rightarrow> if is_layered_identity v then sanitize_layered_identity E v else State_Monad.return VNull
      | None \<Rightarrow> State_Monad.return VNull)"

definition cached_target_identity :: "env \<Rightarrow> string \<Rightarrow> json io" where
  "cached_target_identity E dir = do {
     v \<leftarrow> read_json_opt E (path_join dir ''session.json'');
     layered_identity_or_null E (Option.bind v (\<lambda>v. json_get v ''targetIdentity''))
   }"

definition unavailable_identity :: "env \<Rightarrow> string \<Rightarrow> json io" where
  "unavailable_identity E reason = do {
     at \<leftarrow> identity_now E;
     State_Monad.return (jobj [
       (''debuggee'', jobj [(''kind'', VString ''process''), (''pid'', VNull),
          (''confidence'', VString ''unavailable''), (''observedAt'', at),
          (''unavailable'', VArray [unavailable ''pid'' reason])]),
       (''endpoint'', unavailable_role at ''ownerPid'' reason),
       (''adapter'', unavailable_role at ''pid'' reason)])
   }"

definition owner_target_identity :: "env \<Rightarrow> string \<Rightarrow> string \<Rightarrow> json io" where
  "owner_target_identity E sessions_root owner = do {
     v \<leftarrow> read_json_opt E (path_join (path_join sessions_root owner) ''session.json'');
     (case Option.bind v (\<lambda>v. json_get v ''targetIdentity'') of
        Some i \<Rightarrow> if is_layered_identity i then sanitize_layered_identity E i
          else unavailable_identity E ''owner has no layered identity''
      | None \<Rightarrow> unavailable_identity E ''owner has no layered identity'')
   }"

section \<open>What redaction guarantees\<close>

lemma find_index_append_stop:
  "(\<And>x. x \<in> set s \<Longrightarrow> \<not> P x) \<Longrightarrow> P c \<Longrightarrow> find_index P (s @ c # t) = Some (length s)"
  by (induction s) auto

text \<open>The two shapes a split word has.\<close>

lemma flag_split_cases:
  assumes "flag_split a = Some i"
  obtains (equals) h v where "a = h @ CHR ''='' # v" "i = length h" "h \<noteq> []" "CHR ''='' \<notin> set h"
  | (colon) h v where "a = h @ CHR '':'' # v" "i = length h" "h \<noteq> []"
      "CHR '':'' \<notin> set h" "CHR ''='' \<notin> set h" "CHR ''='' \<notin> set v"
proof (cases "find_index (\<lambda>c. c = CHR ''='') a")
  case None
  with assms have c: "find_index (\<lambda>c. c = CHR '':'') a = Some i" "0 < i"
    by (auto simp: flag_split_def split: option.splits if_splits)
  from None have ne: "CHR ''='' \<notin> set a" by (auto simp: find_index_None)
  from find_index_Some [OF c(1)] have "i < length a" "a ! i = CHR '':''"
      "\<forall>j<i. a ! j \<noteq> CHR '':''" by auto
  then have "a = take i a @ CHR '':'' # drop (Suc i) a" "CHR '':'' \<notin> set (take i a)"
    using id_take_nth_drop [of i a] by (simp_all add: in_set_conv_nth)
  with c(2) ne \<open>i < length a\<close> show ?thesis
    by (intro colon [of "take i a" "drop (Suc i) a"]) (auto dest: in_set_takeD in_set_dropD)
next
  case (Some j)
  with assms have c: "j = i" "0 < i"
    by (auto simp: flag_split_def split: if_splits)
  from find_index_Some [OF Some] c have "i < length a" "a ! i = CHR ''=''"
      "\<forall>j<i. a ! j \<noteq> CHR ''=''" by auto
  then have "a = take i a @ CHR ''='' # drop (Suc i) a" "CHR ''='' \<notin> set (take i a)"
    using id_take_nth_drop [of i a] by (simp_all add: in_set_conv_nth)
  with c(2) \<open>i < length a\<close> show ?thesis
    by (intro equals [of "take i a" "drop (Suc i) a"]) auto
qed

lemma flag_split_equals:
  "h \<noteq> [] \<Longrightarrow> CHR ''='' \<notin> set h \<Longrightarrow> flag_split (h @ CHR ''='' # v) = Some (length h)"
  by (subgoal_tac "find_index (\<lambda>c. c = CHR ''='') (h @ CHR ''='' # v) = Some (length h)")
    (auto simp: flag_split_def intro!: find_index_append_stop)

lemma flag_split_colon:
  assumes "h \<noteq> []" "CHR ''='' \<notin> set h" "CHR '':'' \<notin> set h" "CHR ''='' \<notin> set v"
  shows "flag_split (h @ CHR '':'' # v) = Some (length h)"
proof -
  have "find_index (\<lambda>c. c = CHR ''='') (h @ CHR '':'' # v) = None"
    using assms by (auto simp: find_index_None)
  moreover have "find_index (\<lambda>c. c = CHR '':'') (h @ CHR '':'' # v) = Some (length h)"
    using assms by (intro find_index_append_stop) auto
  ultimately show ?thesis
    using assms(1) by (simp add: flag_split_def)
qed

lemma redacted_plain:
  "CHR ''='' \<notin> set redacted" "\<not> value_holds_secret_pair (CHR ''='' # redacted)"
  "\<not> value_holds_secret_pair (CHR '':'' # redacted)" "\<not> flag_like redacted"
  by (simp_all add: redacted_def flag_like_def starts_with_def)

text \<open>A word is kept, or keeps its head and separator and loses its value; either way the split,
  the flag-likeness and the arming stay.\<close>

lemma redact_word_cases:
  obtains (kept) "redact_word a = a"
  | (masked) h c v where "a = h @ c # v" "redact_word a = h @ c # redacted" "h \<noteq> []"
      "flag_split a = Some (length h)" "flag_split (h @ c # redacted) = Some (length h)"
      "c \<in> {CHR ''='', CHR '':''}"
proof (cases "redact_word a = a")
  case False
  then obtain i where i: "flag_split a = Some i"
    by (auto simp: redact_word_def split: option.splits)
  have m: "redact_word a = take i a @ take 1 (drop i a) @ redacted"
    using False by (auto simp: redact_word_def i split: if_splits)
  from i show ?thesis
  proof (cases rule: flag_split_cases)
    case (equals h v)
    then show ?thesis
      using m i masked [of h "CHR ''=''" v] by (simp add: flag_split_equals)
  next
    case (colon h v)
    then show ?thesis
      using m i masked [of h "CHR '':''" v] by (simp add: flag_split_colon redacted_plain)
  qed
qed (rule kept)

lemma redact_word_shape:
  "flag_like (redact_word a) = flag_like a \<or> flag_split a \<noteq> None \<and> flag_like a = flag_like (redact_word a)"
  "arms_next (redact_word a) = arms_next a" "redact_word (redact_word a) = redact_word a"
proof -
  show "flag_like (redact_word a) = flag_like a \<or> flag_split a \<noteq> None \<and> flag_like a = flag_like (redact_word a)"
  proof (cases a rule: redact_word_cases)
    case (masked h c v)
    then show ?thesis
      by (cases h) (auto simp: flag_like_def starts_with_def redacted_def)
  qed simp
  show "arms_next (redact_word a) = arms_next a"
    by (cases a rule: redact_word_cases) (simp_all add: arms_next_def)
  show "redact_word (redact_word a) = redact_word a"
  proof (cases a rule: redact_word_cases)
    case (masked h c v)
    then show ?thesis
      using redacted_plain by (auto simp: redact_word_def)
  qed simp
qed

lemma flag_like_redact_word [simp]: "flag_like (redact_word a) = flag_like a"
  using redact_word_shape(1) [of a] by blast

lemma redact_words_idem [simp]: "redact_words b (redact_words b ws) = redact_words b ws"
  by (induction b ws rule: redact_words.induct)
    (simp_all add: redacted_plain redact_word_shape(2,3))

lemma length_redact_words [simp]: "length (redact_words b ws) = length ws"
  by (induction b ws rule: redact_words.induct) simp_all

lemma redact_words_append:
  "\<exists>b'. \<forall>rest. redact_words b (ws @ rest) = redact_words b ws @ redact_words b' rest"
proof (induction b ws rule: redact_words.induct)
  case (1 b)
  show ?case by (rule exI [of _ b]) simp
next
  case (2 b a ws)
  show ?case
  proof (cases "b \<and> \<not> flag_like a")
    case True
    from "2.IH"(1) [OF True] obtain b' where
      "\<forall>rest. redact_words False (ws @ rest) = redact_words False ws @ redact_words b' rest" by blast
    with True show ?thesis by (intro exI [of _ b']) simp
  next
    case False
    from "2.IH"(2) [OF False] obtain b' where
      "\<forall>rest. redact_words (arms_next a) (ws @ rest) = redact_words (arms_next a) ws @ redact_words b' rest"
      by blast
    with False show ?thesis by (intro exI [of _ b']) auto
  qed
qed

lemma redact_argv_context:
  "(\<And>b. redact_words b (xs @ post) = redact_words b (ys @ post)) \<Longrightarrow>
   redact_argv (pre @ xs @ post) = redact_argv (pre @ ys @ post)"
  using redact_words_append [of False pre] by (fastforce simp: redact_argv_def)



text \<open>The separator is the first \<open>=\<close> wherever it stands, and a colon only counts without one; so
  a header-like word whose value ends in base64 padding keeps the whole credential in the
  clear, whatever it is.\<close>

theorem redact_padding_leak:
  "redact_argv [''Authorization:'' @ filter (\<lambda>c. c \<noteq> CHR ''='') credential @ ''='' @ padding] =
   [VString (''Authorization:'' @ filter (\<lambda>c. c \<noteq> CHR ''='') credential @ ''='' @ redacted)]"
proof -
  let ?h = "''Authorization:'' @ filter (\<lambda>c. c \<noteq> CHR ''='') credential"
  let ?keep = "\<lambda>c. c \<noteq> CHR ''-'' \<and> c \<noteq> CHR ''_''"
  have "to_ascii_lowercase (dropWhile (\<lambda>c. c = CHR ''-'') ?h) =
      ''authorization'' @ to_ascii_lowercase ('':'' @ filter (\<lambda>c. c \<noteq> CHR ''='') credential)"
    by (simp add: to_ascii_lowercase_def str_simps lower_byte_other code_def)
  then have "filter ?keep (to_ascii_lowercase (dropWhile (\<lambda>c. c = CHR ''-'') ?h)) =
      ''authorization'' @ filter ?keep (to_ascii_lowercase ('':'' @ filter (\<lambda>c. c \<noteq> CHR ''='') credential))"
    by (simp only: filter_append) simp
  then have "str_contains (filter ?keep (to_ascii_lowercase (dropWhile (\<lambda>c. c = CHR ''-'') ?h)))
      ''authorization''"
    by (simp only: str_contains_prefix)
  then have "is_secret_flag ?h"
    unfolding is_secret_flag_def Let_def secret_substrings_def list_ex_iff by (simp del: str_contains.simps)
  then have "redact_word (?h @ CHR ''='' # padding) = ?h @ CHR ''='' # redacted"
    using flag_split_equals [of ?h padding] by (simp add: redact_word_def)
  then show ?thesis by (simp add: redact_argv_def)
qed

section \<open>What the caps guarantee\<close>

lemma chars_count_ellipsis: "chars_count ellipsis = 1" "\<not> is_cont (hd ellipsis)" "ellipsis \<noteq> []"
  by (simp_all add: ellipsis_def chars_count_def is_cont_def code_def)

lemma chars_count_marked:
  assumes "\<forall>c\<in>set pre \<union> set post. code c < 128"
  shows "chars_count (s @ ellipsis @ pre @ show_nat k @ post) =
    chars_count s + 1 + length pre + length (show_nat k) + length post"
proof -
  have "chars_count ((s @ ellipsis) @ (pre @ show_nat k @ post)) =
      chars_count (s @ ellipsis) + length (pre @ show_nat k @ post)"
    using assms show_nat_digits digit_ascii by (intro chars_count_append_ascii) auto
  then show ?thesis
    by (simp add: chars_count_append chars_count_ellipsis)
qed

text \<open>Every string, and every array, of a value.\<close>

fun all_strings :: "(string \<Rightarrow> bool) \<Rightarrow> json \<Rightarrow> bool"
and all_strings_in :: "(string \<Rightarrow> bool) \<Rightarrow> json list \<Rightarrow> bool"
and all_strings_of :: "(string \<Rightarrow> bool) \<Rightarrow> (string \<times> json) list \<Rightarrow> bool" where
  "all_strings P (VString s) = P s"
| "all_strings P (VArray a) = all_strings_in P a"
| "all_strings P (VObject m) = all_strings_of P m"
| "all_strings P VNull = True"
| "all_strings P (VBool b) = True"
| "all_strings P (VNumber n) = True"
| "all_strings_in P [] = True"
| "all_strings_in P (v # a) = (all_strings P v \<and> all_strings_in P a)"
| "all_strings_of P [] = True"
| "all_strings_of P ((k, v) # m) = (all_strings P v \<and> all_strings_of P m)"

fun all_arrays :: "(json list \<Rightarrow> bool) \<Rightarrow> json \<Rightarrow> bool"
and all_arrays_in :: "(json list \<Rightarrow> bool) \<Rightarrow> json list \<Rightarrow> bool"
and all_arrays_of :: "(json list \<Rightarrow> bool) \<Rightarrow> (string \<times> json) list \<Rightarrow> bool" where
  "all_arrays P (VString s) = True"
| "all_arrays P (VArray a) = (P a \<and> all_arrays_in P a)"
| "all_arrays P (VObject m) = all_arrays_of P m"
| "all_arrays P VNull = True"
| "all_arrays P (VBool b) = True"
| "all_arrays P (VNumber n) = True"
| "all_arrays_in P [] = True"
| "all_arrays_in P (v # a) = (all_arrays P v \<and> all_arrays_in P a)"
| "all_arrays_of P [] = True"
| "all_arrays_of P ((k, v) # m) = (all_arrays P v \<and> all_arrays_of P m)"

text \<open>The characters of all strings together.\<close>

fun weight :: "json \<Rightarrow> nat"
and weight_in :: "json list \<Rightarrow> nat"
and weight_of :: "(string \<times> json) list \<Rightarrow> nat" where
  "weight (VString s) = chars_count s"
| "weight (VArray a) = weight_in a"
| "weight (VObject m) = weight_of m"
| "weight VNull = 0"
| "weight (VBool b) = 0"
| "weight (VNumber n) = 0"
| "weight_in [] = 0"
| "weight_in (v # a) = weight v + weight_in a"
| "weight_of [] = 0"
| "weight_of ((k, v) # m) = weight v + weight_of m"

lemma chars_count_trunc:
  "chars_count (trunc_chars s n) =
     (if chars_count s \<le> n then chars_count s else n + 16 + length (show_nat (chars_count s - n)))"
proof (cases "chars_count s \<le> n")
  case False
  have "\<forall>c \<in> set '' (+'' \<union> set '' more chars)''. code c < 128"
    by (simp add: code_def)
  from chars_count_marked [OF this, where s = "take_chars n s" and k = "chars_count s - n"] False show ?thesis
    by (simp add: trunc_chars_def)
qed (simp add: trunc_chars_def)

lemma chars_count_shorter: "1 < chars_count s \<Longrightarrow> chars_count (shorter s) < chars_count s"
  by (auto simp: shorter_def Let_def chars_count_ellipsis)

lemmas json_list_induct = all_strings_all_strings_in_all_strings_of.induct [of "\<lambda>_. p" "\<lambda>_. q" "\<lambda>_. r" for p q r]

lemma all_strings_weaken:
  assumes "\<And>s. P s \<Longrightarrow> Q s"
  shows "all_strings P v \<longrightarrow> all_strings Q v"
    "all_strings_in P a \<longrightarrow> all_strings_in Q a"
    "all_strings_of P m \<longrightarrow> all_strings_of Q m"
  by (induction v and a and m rule: json_list_induct) (auto simp: assms)

lemma longest_puts:
  "longest v = Some (s, put) \<Longrightarrow> 1 < chars_count s \<and>
     (\<forall>x. weight (put x) + chars_count s = weight v + chars_count x) \<and>
     (\<forall>P. all_strings P v \<longrightarrow> P s \<and> (\<forall>x. P x \<longrightarrow> all_strings P (put x))) \<and>
     (\<forall>N x. all_arrays (\<lambda>a. length a \<le> N) v \<longrightarrow> all_arrays (\<lambda>a. length a \<le> N) (put x))"
  "longest_item a = Some (s', put') \<Longrightarrow> 1 < chars_count s' \<and>
     (\<forall>x. weight_in (put' x) + chars_count s' = weight_in a + chars_count x) \<and>
     (\<forall>x. length (put' x) = length a) \<and>
     (\<forall>P. all_strings_in P a \<longrightarrow> P s' \<and> (\<forall>x. P x \<longrightarrow> all_strings_in P (put' x))) \<and>
     (\<forall>N x. all_arrays_in (\<lambda>a. length a \<le> N) a \<longrightarrow> all_arrays_in (\<lambda>a. length a \<le> N) (put' x))"
  "longest_field m = Some (s'', put'') \<Longrightarrow> 1 < chars_count s'' \<and>
     (\<forall>x. weight_of (put'' x) + chars_count s'' = weight_of m + chars_count x) \<and>
     (\<forall>P. all_strings_of P m \<longrightarrow> P s'' \<and> (\<forall>x. P x \<longrightarrow> all_strings_of P (put'' x))) \<and>
     (\<forall>N x. all_arrays_of (\<lambda>a. length a \<le> N) m \<longrightarrow> all_arrays_of (\<lambda>a. length a \<le> N) (put'' x))"
  apply (induction v and a and m arbitrary: s put and s' put' and s'' put''
      rule: longest_longest_item_longest_field.induct)
  apply (auto split: if_splits option.splits prod.splits)
  done

lemma shorter_progress:
  assumes "longest v = Some (s, put)"
  shows "weight (put (shorter s)) < weight v"
  using longest_puts(1) [OF assms] chars_count_shorter [of s] by (metis add_less_cancel_right less_add_eq_less add.commute)

text \<open>Capping to the total size always gets somewhere: every pass takes characters away, so with
  as many passes as the value has characters in its strings the loop ends with a text that fits
  or with no string left to shorten; the pass count of the source is only a backstop.\<close>

theorem cap_loop_settles:
  assumes "weight v \<le> n"
  shows "chars_count (to_text sj (cap_loop sj n v)) \<le> IDENTITY_TOTAL_CAP \<or> longest (cap_loop sj n v) = None"
  using assms
proof (induction n arbitrary: v)
  case 0
  have "longest v = None"
    using shorter_progress [of v] 0 by (cases "longest v") auto
  then show ?case by simp
next
  case (Suc n)
  show ?case
  proof (cases "longest v")
    case (Some p)
    then obtain s put where p: "longest v = Some (s, put)" by (cases p) simp
    from shorter_progress [OF p] Suc.prems have "weight (put (shorter s)) \<le> n" by simp
    from Suc.IH [OF this] show ?thesis by (simp add: p)
  qed simp
qed

theorem cap_loop_settles_witness:
  "chars_count (to_text brace_serde (cap_loop brace_serde 3 (VString ''abc''))) \<le> IDENTITY_TOTAL_CAP \<or>
   longest (cap_loop brace_serde 3 (VString ''abc'')) = None"
  by (rule cap_loop_settles) (simp add: chars_count_def is_cont_def code_def)

lemma digits_u64: "n < 2 ^ 64 \<Longrightarrow> length (show_nat n) \<le> 20"
  using length_show_nat [of n 19] by simp

lemma chars_count_cap_str: "chars_count s < 2 ^ 64 \<Longrightarrow> chars_count (cap_str s) \<le> 548"
  using digits_u64 [of "chars_count s - 512"]
  by (auto simp: cap_str_def chars_count_trunc IDENTITY_FIELD_CAP_def)

lemma chars_count_more_marker: "n < 2 ^ 64 \<Longrightarrow> chars_count (more_marker n) \<le> 30"
proof -
  assume n: "n < 2 ^ 64"
  have "\<forall>c \<in> set '' (+'' \<union> set '' more)''. code c < 128"
    by (simp add: code_def)
  from chars_count_marked [OF this, where s = "[]" and k = n] digits_u64 [OF n] show ?thesis
    by (simp add: more_marker_def chars_count_def)
qed

lemma length_cap_first: "length (cap_first n a) \<le> n"
  by (induction n a rule: cap_walk_cap_first_cap_fields.induct(2) [of "\<lambda>_. True" _ "\<lambda>_. True"]) simp_all

lemma all_arrays_in_append: "all_arrays_in P (a @ b) = (all_arrays_in P a \<and> all_arrays_in P b)"
  by (induction a) auto

lemma all_strings_in_append: "all_strings_in P (a @ b) = (all_strings_in P a \<and> all_strings_in P b)"
  by (induction a) auto

lemma cap_walk_bounds:
  "all_strings (\<lambda>s. chars_count s < 2 ^ 64) v \<and> all_arrays (\<lambda>a. length a < 2 ^ 64) v \<longrightarrow>
     all_strings (\<lambda>s. chars_count s \<le> 548) (cap_walk v) \<and> all_arrays (\<lambda>a. length a \<le> 33) (cap_walk v)"
  "all_strings_in (\<lambda>s. chars_count s < 2 ^ 64) a \<and> all_arrays_in (\<lambda>a. length a < 2 ^ 64) a \<longrightarrow>
     all_strings_in (\<lambda>s. chars_count s \<le> 548) (cap_first n a) \<and> all_arrays_in (\<lambda>a. length a \<le> 33) (cap_first n a)"
  "all_strings_of (\<lambda>s. chars_count s < 2 ^ 64) m \<and> all_arrays_of (\<lambda>a. length a < 2 ^ 64) m \<longrightarrow>
     all_strings_of (\<lambda>s. chars_count s \<le> 548) (cap_fields m) \<and> all_arrays_of (\<lambda>a. length a \<le> 33) (cap_fields m)"
proof (induction v and n a and m rule: cap_walk_cap_first_cap_fields.induct)
  case (2 a)
  have "chars_count (cap_str (more_marker (length a - 32))) \<le> 548" if "length a < 2 ^ 64"
  proof (rule chars_count_cap_str)
    have "chars_count (more_marker (length a - 32)) \<le> 30"
      using that by (intro chars_count_more_marker) simp
    also have "(30 :: nat) < 2 ^ 64" by simp
    finally show "chars_count (more_marker (length a - 32)) < 2 ^ 64" .
  qed
  with 2 length_cap_first [of 32 a] length_cap_first [of "length a" a] show ?case
    by (auto simp: IDENTITY_ARRAY_CAP_def all_arrays_in_append all_strings_in_append)
qed (auto simp: chars_count_cap_str)


lemma cap_loop_fits: "chars_count (to_text sj v) \<le> IDENTITY_TOTAL_CAP \<Longrightarrow> cap_loop sj n v = v"
  by (cases n) simp_all

lemma cap_loop_bounds:
  assumes "all_strings (\<lambda>s. chars_count s \<le> N) v" and "all_arrays (\<lambda>a. length a \<le> K) v"
  shows "all_strings (\<lambda>s. chars_count s \<le> N) (cap_loop sj n v) \<and> all_arrays (\<lambda>a. length a \<le> K) (cap_loop sj n v)"
  using assms
proof (induction n arbitrary: v)
  case (Suc n)
  show ?case
  proof (cases "longest v")
    case (Some p)
    then obtain s put where p: "longest v = Some (s, put)" by (cases p) simp
    note l = longest_puts(1) [OF p]
    have "\<forall>P. all_strings P v \<longrightarrow> P s \<and> (\<forall>x. P x \<longrightarrow> all_strings P (put x))" using l by blast
    note ls = this [THEN spec, of "\<lambda>s. chars_count s \<le> N"]
    have s: "chars_count s \<le> N" using ls Suc.prems(1) by blast
    then have "chars_count (shorter s) \<le> N" using l chars_count_shorter [of s] by simp
    then have "all_strings (\<lambda>s. chars_count s \<le> N) (put (shorter s))"
        "all_arrays (\<lambda>a. length a \<le> K) (put (shorter s))"
      using l ls Suc.prems by blast+
    from Suc.IH [OF this] Suc.prems show ?thesis by (simp add: p)
  qed (use Suc.prems in simp)
qed simp

text \<open>C33: Whatever the serializer, a capped identity has no string of more than 548 characters (512 and
  the truncation mark) and no array of more than 33 elements.\<close>

theorem cap_identity_bounds:
  assumes "all_strings (\<lambda>s. chars_count s < 2 ^ 64) v" and "all_arrays (\<lambda>a. length a < 2 ^ 64) v"
  shows "all_strings (\<lambda>s. chars_count s \<le> 548) (cap_identity sj v) \<and>
    all_arrays (\<lambda>a. length a \<le> 33) (cap_identity sj v)"
  using cap_walk_bounds(1) [of v] assms 
    cap_loop_bounds [of 548 "cap_walk v" 33] by (simp add: cap_identity_def)

theorem cap_identity_bounds_witness:
  "all_strings (\<lambda>s. chars_count s \<le> 548) (cap_identity brace_serde (VArray [VNull, VString ''a''])) \<and>
   all_arrays (\<lambda>a. length a \<le> 33) (cap_identity brace_serde (VArray [VNull, VString ''a'']))"
  by (rule cap_identity_bounds) (simp_all add: chars_count_def)

text \<open>Capping twice is not capping once: the mark that counts the dropped elements is itself the
  33rd element, so a second cap drops it and reports one dropped element instead of eight.\<close>

theorem cap_not_idempotent:
  assumes "\<forall>n\<in>{1, 8}. chars_count (to_text sj (VArray (replicate 32 VNull @ [VString (more_marker n)]))) \<le> 2048"
  shows "cap_identity sj (VArray (replicate 40 VNull)) = VArray (replicate 32 VNull @ [VString (more_marker 8)]) \<and>
   cap_identity sj (cap_identity sj (VArray (replicate 40 VNull))) =
     VArray (replicate 32 VNull @ [VString (more_marker 1)])"
proof -
  have m: "cap_str (more_marker n) = more_marker n" if "n < 2 ^ 64" for n
    using chars_count_more_marker [OF that] by (simp add: cap_str_def IDENTITY_FIELD_CAP_def)
  have first: "cap_first k (replicate k VNull @ rest) = replicate k VNull" for k rest
    by (induction k) simp_all
  have loop: "cap_loop sj 4096 (VArray (replicate 32 VNull @ [VString (more_marker n)])) =
      VArray (replicate 32 VNull @ [VString (more_marker n)])" if "n \<in> {1, 8}" for n
    using assms that by (intro cap_loop_fits) (unfold IDENTITY_TOTAL_CAP_def, blast)
  have "replicate 40 VNull = replicate 32 VNull @ replicate 8 VNull"
    by (simp flip: replicate_add)
  then have 1: "cap_walk (VArray (replicate 40 VNull)) = VArray (replicate 32 VNull @ [VString (more_marker 8)])"
    using first [of 32 "replicate 8 VNull"] m [of 8] by (simp add: IDENTITY_ARRAY_CAP_def)
  have 2: "cap_walk (VArray (replicate 32 VNull @ [VString (more_marker 8)])) =
      VArray (replicate 32 VNull @ [VString (more_marker 1)])"
    using first [of 32 "[VString (more_marker 8)]"] m [of 1] by (simp add: IDENTITY_ARRAY_CAP_def)
  show ?thesis
    by (simp only: cap_identity_def 1 2 loop insert_iff simp_thms)
qed

theorem cap_not_idempotent_witness:
  "cap_identity brace_serde (VArray (replicate 40 VNull)) =
     VArray (replicate 32 VNull @ [VString (more_marker 8)]) \<and>
   cap_identity brace_serde (cap_identity brace_serde (VArray (replicate 40 VNull))) =
     VArray (replicate 32 VNull @ [VString (more_marker 1)])"
  by (rule cap_not_idempotent) (simp add: brace_serde_def chars_count_def is_cont_def code_def)
section \<open>What a stored identity becomes\<close>

lemma is_object_cap_loop: "is_object v \<Longrightarrow> is_object (cap_loop sj n v)"
proof (induction n arbitrary: v)
  case (Suc n)
  then obtain m where m: "v = VObject m" by (auto simp: is_object_def split: json.splits)
  then have "\<And>s put x. longest v = Some (s, put) \<Longrightarrow> is_object (put x)"
    by (auto simp: is_object_def)
  with Suc show ?case by (auto split: option.splits)
qed simp

lemma is_object_cap_identity [simp]: "is_object v \<Longrightarrow> is_object (cap_identity sj v)"
  by (cases v) (auto simp: cap_identity_def intro!: is_object_cap_loop, simp_all add: is_object_def)

lemma is_object_reredact [simp]: "is_object (reredact_argv_in v) = is_object v"
  by (cases v) (simp_all add: is_object_def)

lemma map_of_foldl_entries:
  "map_of (foldl (\<lambda>m (k, role). map_insert k (f k role) m) m0 kvs) k =
     (case map_of (rev kvs) k of Some role \<Rightarrow> Some (f k role) | None \<Rightarrow> map_of m0 k)"
proof (induction kvs rule: rev_induct)
  case (snoc e kvs)
  then show ?case by (cases e) auto
qed simp

lemma map_of_fill_roles:
  "map_of (foldl (\<lambda>m role. fill_role at role m) m0 rs) k =
     (case map_of m0 k of Some x \<Rightarrow> Some x
      | None \<Rightarrow> if k \<in> set rs then Some (unavailable_role at k ''role missing from stored identity'') else None)"
proof (induction rs rule: rev_induct)
  case (snoc r rs)
  then show ?case by (auto simp: fill_role_def split: option.splits)
qed (simp split: option.splits)

definition object_or_null :: "json \<Rightarrow> bool" where
  "object_or_null v = (is_object v \<or> v = VNull)"

lemma sanitize_role_shape: "k \<in> set identity_roles \<Longrightarrow> object_or_null (sanitize_role sj k v)"
  by (cases v) (simp_all add: sanitize_role_def object_or_null_def is_object_def [of "VObject _"])

lemma unavailable_role_shape: "object_or_null (unavailable_role at f r)"
  by (simp add: object_or_null_def unavailable_role_def)

text \<open>C32: What is shown of a stored identity is null or layered: an answer other than null comes from a
  stored object of the layered shape (never a flat one), and carries each of the three roles as an
  object or null, whatever the stored roles held.\<close>

theorem layered_identity_shape:
  assumes "run_state (layered_identity_or_null E stored) w = (v, w')" and "v \<noteq> VNull"
  shows "\<exists>s. stored = Some s \<and> is_layered_identity s \<and>
    list_all (\<lambda>role. case json_get v role of None \<Rightarrow> False | Some r \<Rightarrow> object_or_null r) identity_roles"
proof -
  obtain s where s: "stored = Some s" "is_layered_identity s"
      "run_state (sanitize_layered_identity E s) w = (v, w')"
    using assms by (auto simp: layered_identity_or_null_def split: option.splits if_splits)
  have "case json_get v k of None \<Rightarrow> False | Some r \<Rightarrow> object_or_null r" if "k \<in> set identity_roles" for k
    using s(3) that
    by (auto simp: sanitize_layered_identity_def identity_now_def State_Monad.bind_def Let_def json_get_def
        map_of_fill_roles map_of_foldl_entries sanitize_role_shape unavailable_role_shape split: option.splits)
  with s show ?thesis by (simp add: list_all_iff)
qed

theorem layered_identity_shape_witness:
  "is_layered_identity (jobj [(''debuggee'', VNull), (''endpoint'', VNull), (''adapter'', VNull)])"
proof -
  let ?s = "jobj [(''debuggee'', VNull), (''endpoint'', VNull), (''adapter'', VNull)]"
  obtain v w' where run: "run_state (layered_identity_or_null (still_env brace_serde) (Some ?s)) (world_of []) = (v, w')"
    by fastforce
  moreover have "is_layered_identity ?s"
    by (simp add: is_layered_identity_def as_object_def jobj_def identity_roles_def)
  ultimately have "v \<noteq> VNull"
    by (auto simp: layered_identity_or_null_def sanitize_layered_identity_def State_Monad.bind_def identity_now_def Let_def)
  from layered_identity_shape [OF run this] show ?thesis by simp
qed

lemma as_str_reredact [simp]: "as_str (reredact_argv_in v) = as_str v"
  by (cases v) (simp_all add: as_str_def)

lemma strings_only [simp]:
  "list_all (\<lambda>e. \<exists>s. as_str e = Some s) (map VString ws)"
  "List.map_filter as_str (map VString ws) = ws"
  "list_all (\<lambda>e. \<exists>s. as_str e = Some s) (reredact_items a) = list_all (\<lambda>e. \<exists>s. as_str e = Some s) a"
proof -
  show "list_all (\<lambda>e. \<exists>s. as_str e = Some s) (map VString ws)"
    by (simp add: list_all_iff as_str_def)
  show "List.map_filter as_str (map VString ws) = ws"
    by (induction ws) (simp_all add: as_str_def List.map_filter_simps)
  show "list_all (\<lambda>e. \<exists>s. as_str e = Some s) (reredact_items a) = list_all (\<lambda>e. \<exists>s. as_str e = Some s) a"
    by (induction a) simp_all
qed

lemma reredact_idem:
  "reredact_argv_in (reredact_argv_in v) = reredact_argv_in v"
  "reredact_items (reredact_items a) = reredact_items a"
  "reredact_fields (reredact_fields m) = reredact_fields m"
proof (induction v and a and m rule: reredact_argv_in_reredact_items_reredact_fields.induct)
  case (10 k child m)
  then show ?case
    by (cases child) (auto simp: as_array_def redact_argv_def)
qed auto

text \<open>Redacting again changes nothing: an argument list keeps its length and a redacted one is
  its own redaction, and the walk that redacts every \<open>argv\<close> of an identity read back from disk is
  idempotent on any JSON value.\<close>

theorem redact_idempotent:
  "length (redact_argv argv) = length argv \<and>
   redact_argv (map (\<lambda>v. the (as_str v)) (redact_argv argv)) = redact_argv argv \<and>
   reredact_argv_in (reredact_argv_in v) = reredact_argv_in v"
  by (simp add: redact_argv_def as_str_def comp_def reredact_idem)

end
