(* ===== verification/Demo.thy ===== *)
theory Demo
  imports Sidecar
begin

text \<open>
  One concrete session for the witnesses: a session \<open>cart\<close> of a language \<open>l\<close> on port 5678 under the home
  directory of \<open>still_env\<close>, with current markers, one persisted break and a bridge that answers
  every request with a success. Its codec prints and parses a fixed table of values.
\<close>

definition table_serde :: "(string \<times> json) list \<Rightarrow> serde" where
  "table_serde tab =
     \<lparr>from_str = (\<lambda>s. case map_of tab s of Some v \<Rightarrow> Inr v | None \<Rightarrow> Inl ''expected value''),
      to_text = (\<lambda>v. case find (\<lambda>e. snd e = v) tab of Some e \<Rightarrow> fst e | None \<Rightarrow> ''null''),
      to_pretty = (\<lambda>v. case find (\<lambda>e. snd e = v) tab of Some e \<Rightarrow> fst e | None \<Rightarrow> ''null'')\<rparr>"

definition demo_lang :: "string \<Rightarrow> json" where
  "demo_lang l = jobj [(''lang'', VString l), (''schemaVersion'', num 2)]"

definition demo_stops :: json where
  "demo_stops = jobj [(''breaks'', VArray [VString ''a.py:3'']), (''schemaVersion'', num 2)]"

definition demo_session :: json where
  "demo_session = jobj [(''port'', num 5678), (''stopped'', VBool True)]"

definition demo_reply :: json where
  "demo_reply = jobj [(''ok'', VBool True), (''stops'', VArray [])]"

definition demo_table :: "string \<Rightarrow> (string \<times> json) list" where
  "demo_table l = [(''{L}'', (demo_lang l)), (''{S}'', demo_stops), (''{P}'', demo_session), (''{K}'', demo_reply)]"

definition demo_dir :: string where
  "demo_dir = ''/h/.agent-debugger/sessions/cart''"

definition demo_files :: "(string \<times> node) list" where
  "demo_files = [
     (demo_dir, Dir 0),
     (''/h/.agent-debugger/sessions/cart/lang.json'', File 1 ''{L}'' 0),
     (''/h/.agent-debugger/sessions/cart/stops.json'', File 2 ''{S}'' 0),
     (''/h/.agent-debugger/sessions/cart/session.json'', File 3 ''{P}'' 0)]"

definition demo_exchange_of :: "serde \<Rightarrow> json \<Rightarrow> exchange" where
  "demo_exchange_of sj v =
     \<lparr>connected = None, set_read_timeout = None, set_write_timeout = None, sent = None, started_at = 0,
      steps = [\<lparr>now_at = 0, set_timeout = None, received = Inr (encode_message sj v)\<rparr>]\<rparr>"

definition demo_codec :: "string \<Rightarrow> serde" where
  "demo_codec l = table_serde (demo_table l)"

definition demo_env :: "string \<Rightarrow> env" where
  "demo_env l = (still_env (demo_codec l))\<lparr>peer := (\<lambda>_ _ _ _. demo_exchange_of (demo_codec l) demo_reply)\<rparr>"

definition demo_world :: world where
  "demo_world = world_of demo_files"

lemma demo_env_simps [simp]:
  "fault (demo_env l) n = None" "codec (demo_env l) = (demo_codec l)" "home_var (demo_env l) = Some ''/h''"
  "seen (demo_env l) w = kern w" "clock (demo_env l) n = n" "process_id (demo_env l) = 42"
  by (simp_all add: demo_env_def seen_def)

lemma demo_values_neq:
  "(demo_lang l) \<noteq> demo_stops" "(demo_lang l) \<noteq> demo_session" "(demo_lang l) \<noteq> demo_reply"
  "demo_stops \<noteq> demo_session" "demo_stops \<noteq> demo_reply" "demo_session \<noteq> demo_reply"
  by (simp_all add: demo_lang_def demo_stops_def demo_session_def demo_reply_def jobj_def)

lemma demo_codec_reads [simp]:
  "from_str (demo_codec l) ''{L}'' = Inr (demo_lang l)" "from_str (demo_codec l) ''{S}'' = Inr demo_stops"
  "from_str (demo_codec l) ''{P}'' = Inr demo_session" "from_str (demo_codec l) ''{K}'' = Inr demo_reply"
  "to_text (demo_codec l) demo_reply = ''{K}''"
  using demo_values_neq by (simp_all add: demo_codec_def table_serde_def demo_table_def)

lemma demo_frameable: "frameable (demo_codec l) demo_reply"
proof -
  have "valid_utf8 ''{K}''" by (rule valid_utf8_ascii) (auto simp: code_def)
  then show ?thesis
    by (simp add: frameable_def reads_back_def demo_reply_def [THEN arg_cong, of is_object]
        del: valid_utf8.simps)
qed

lemma demo_bridge [simp]:
  assumes "0 < timeout"
  shows "bridge_answer (demo_env l) n port b timeout = Inr demo_reply"
proof -
  have len: "length (encode_message (demo_codec l) demo_reply @ []) \<le> MAX_FRAME_BYTES"
    using length_frame_header_bound [of "Suc (Suc (Suc 0))"]
    by (simp add: encode_message_eq MAX_FRAME_BYTES_def)
  have "receive (demo_codec l) port timeout [] (steps (demo_exchange_of (demo_codec l) demo_reply) @ [hang_up]) =
      Some (Inr demo_reply)"
    using assms demo_frameable
    by (intro receive_transfer [OF demo_frameable len])
      (auto simp: demo_exchange_of_def quiet_step_def chunk_of_def encode_message_eq frame_header_def)
  then show ?thesis
    by (simp add: bridge_answer_def request_def answered_def demo_env_def demo_exchange_of_def)
qed

lemma demo_paths [simp]:
  "path_join demo_dir ''lang.json'' = ''/h/.agent-debugger/sessions/cart/lang.json''"
  "path_join demo_dir ''stops.json'' = ''/h/.agent-debugger/sessions/cart/stops.json''"
  "path_join demo_dir ''session.json'' = ''/h/.agent-debugger/sessions/cart/session.json''"
  "session_dir (demo_env l) ''cart'' = Inr demo_dir"
  "check_name ''cart'' = Inr ()"
  by (simp_all add: demo_dir_def path_join_def starts_with_def session_dir_def sessions_dir_def
      agent_home_def check_name_plain plain_segment_def and_then_def trim_def is_whitespace_single is_cont_def code_def)

lemma demo_world_files [simp]:
  "files (kern demo_world) demo_dir = Some (Dir 0)"
  "files (kern demo_world) ''/h/.agent-debugger/sessions/cart/lang.json'' = Some (File 1 ''{L}'' 0)"
  "files (kern demo_world) ''/h/.agent-debugger/sessions/cart/stops.json'' = Some (File 2 ''{S}'' 0)"
  "files (kern demo_world) ''/h/.agent-debugger/sessions/cart/session.json'' = Some (File 3 ''{P}'' 0)"
  by (simp_all add: demo_world_def demo_files_def demo_dir_def)

end
