(* ===== verification/Forward.thy ===== *)
theory Forward
  imports Identity Demo
begin

text \<open>
  \<open>src/session/forward.rs\<close>: one command forwarded to a session's bridge. The gates that come
  first, the routing of a target, the envelope that comes back, and the commands built on it.
\<close>

section \<open>Answers\<close>

definition bridge_failure_of :: "json \<Rightarrow> anyhow" where
  "bridge_failure_of resp = Bridge
     \<lparr>bf_message = (case str_field resp ''error'' of None \<Rightarrow> ''unknown bridge error'' | Some m \<Rightarrow> m),
      bf_cause = None,
      bf_wait_context = (case json_get resp ''waitContext'' of None \<Rightarrow> None
        | Some v \<Rightarrow> if is_object v then Some v else None),
      bf_diagnosis = None, bf_target_identity = None, bf_requested_target = None\<rparr>"

definition stamp_main :: "json \<Rightarrow> json" where
  "stamp_main resp =
     (case resp of VObject m \<Rightarrow> VObject (map_or_insert ''target'' (VString ''main'') m) | _ \<Rightarrow> resp)"

definition is_ok :: "json \<Rightarrow> bool" where
  "is_ok resp = (case bool_field resp ''ok'' of None \<Rightarrow> False | Some b \<Rightarrow> b)"

section \<open>Routing\<close>

definition main_only :: "string option \<Rightarrow> bool" where
  "main_only lang = (lang = Some ''java'' \<or> lang = Some ''browser'')"

definition unsupported_target :: "string \<Rightarrow> string \<Rightarrow> string" where
  "unsupported_target other lang = ''unsupported target '' @ quoted other @ '' (session is '' @ lang @ '', main-only)''"

definition normalize_target_for_lang_opt :: "string option \<Rightarrow> string option \<Rightarrow> string option result" where
  "normalize_target_for_lang_opt lang target =
     (case target of
        None \<Rightarrow> Inr None
      | Some t \<Rightarrow>
          if main_only lang then
            if t = ''main'' then Inr None else bail (unsupported_target t (the lang))
          else Inr (Some t))"

text \<open>The three checks every command that speaks to a bridge starts with.\<close>

definition session_gate :: "env \<Rightarrow> string \<Rightarrow> (string result) io" where
  "session_gate E name =
     try_io (lift_result (check_name name)) (\<lambda>_.
     try_io (checked_session_dir E name) (\<lambda>dir.
     try_io (require_schema_v2 E dir name) (\<lambda>_. ok dir)))"

definition with_target :: "string option \<Rightarrow> json \<Rightarrow> json" where
  "with_target target body =
     (case target of None \<Rightarrow> body | Some t \<Rightarrow> insert_if_object ''target'' (VString t) body)"

definition forward_target :: "env \<Rightarrow> string \<Rightarrow> json \<Rightarrow> nat \<Rightarrow> string option \<Rightarrow> (json result) io" where
  "forward_target E name body timeout target =
     try_io (session_gate E name) (\<lambda>dir. do {
       lang \<leftarrow> session_lang_opt E dir;
       try_io (lift_result (normalize_target_for_lang_opt lang target)) (\<lambda>target.
       try_io (session_port E name) (\<lambda>port.
       try_io (ask_bridge E port (with_target target body) timeout) (\<lambda>resp.
       if is_ok resp then ok (stamp_main resp) else err (bridge_failure_of resp))))
     })"

definition forward :: "env \<Rightarrow> string \<Rightarrow> json \<Rightarrow> nat \<Rightarrow> (json result) io" where
  "forward E name body timeout = forward_target E name body timeout None"

section \<open>Commands\<close>

definition clamp_tail :: "u64 \<Rightarrow> u64" where
  "clamp_tail tail = min tail 500"

definition u64_json :: "u64 \<Rightarrow> json" where
  "u64_json n = VNumber (PosInt n)"

definition cmd_logs :: "env \<Rightarrow> string \<Rightarrow> u64 \<Rightarrow> (json result) io" where
  "cmd_logs E name tail =
     forward E name (jobj [(''cmd'', VString ''logs''), (''tail'', u64_json (clamp_tail tail))]) (secs 10)"

definition reload_gate :: "string option \<Rightarrow> unit result" where
  "reload_gate lang =
     (if lang = Some ''browser'' then Inr ()
      else bail ''reload is browser-only (browser attach sessions only)'')"

definition cmd_reload :: "env \<Rightarrow> string \<Rightarrow> u64 \<Rightarrow> (json result) io" where
  "cmd_reload E name timeout =
     try_io (session_gate E name) (\<lambda>dir. do {
       lang \<leftarrow> session_lang_opt E dir;
       try_io (lift_result (reload_gate lang)) (\<lambda>_.
       forward E name (jobj [(''cmd'', VString ''reload''), (''timeout'', u64_json timeout)])
         (secs (saturating_add timeout 5)))
     })"

definition targets_use_local_roster :: "env \<Rightarrow> string \<Rightarrow> bool io" where
  "targets_use_local_roster E dir = do {
     lang \<leftarrow> session_lang_opt E dir;
     State_Monad.return (main_only lang)
   }"

definition roster :: "json \<Rightarrow> json \<Rightarrow> json" where
  "roster parsed identity = jobj [
     (''ok'', VBool True),
     (''targets'', VArray [jobj [
        (''id'', VString ''main''), (''kind'', VString ''main''), (''pid'', VNull),
        (''state'', VString (if bool_field parsed ''stopped'' = Some True then ''stopped'' else ''running'')),
        (''lastStop'', case json_get parsed ''lastStop'' of None \<Rightarrow> VNull | Some v \<Rightarrow> v),
        (''scope'', VString ''global'')]]),
     (''selected'', VString ''main''), (''ignored'', num 0), (''droppedExited'', num 0),
     (''target'', VString ''main''), (''targetIdentity'', identity)]"

definition cmd_targets_in :: "env \<Rightarrow> string \<Rightarrow> json io" where
  "cmd_targets_in E dir = do {
     v \<leftarrow> read_json_opt E (path_join dir ''session.json'');
     let parsed = (case v of None \<Rightarrow> jobj [] | Some v \<Rightarrow> v);
     identity \<leftarrow> layered_identity_or_null E (json_get parsed ''targetIdentity'');
     State_Monad.return (roster parsed identity)
   }"

definition cmd_targets :: "env \<Rightarrow> string \<Rightarrow> (json result) io" where
  "cmd_targets E name =
     try_io (session_gate E name) (\<lambda>dir. do {
       local_roster \<leftarrow> targets_use_local_roster E dir;
       if local_roster then do { v \<leftarrow> cmd_targets_in E dir; State_Monad.return (Inr v) }
       else try_io (forward E name (jobj [(''cmd'', VString ''targets'')]) (secs 10)) (\<lambda>v. ok (stamp_main v))
     })"

section \<open>What is sent\<close>

text \<open>Programs that send nothing to any bridge.\<close>

definition silent :: "'a io \<Rightarrow> bool" where
  "silent m = (\<forall>w. requests (snd (run_state m w)) = requests w)"

named_theorems silent_rules "programs that send nothing"

lemma silentD: "silent m \<Longrightarrow> run_state m w = (r, w') \<Longrightarrow> requests w' = requests w"
  by (metis silent_def snd_conv)

interpretation unsent: keeping "\<lambda>w w'. requests w' = requests w"
  by unfold_locales auto

lemma silent_within_iff: "silent m = within (\<lambda>w w'. requests w' = requests w) m"
  by (simp add: silent_def within_def)

lemma silent_bind [silent_rules]: "silent m \<Longrightarrow> (\<And>a. silent (f a)) \<Longrightarrow> silent (State_Monad.bind m f)"
  unfolding silent_within_iff by (rule unsent.bind)

lemma silent_basic [silent_rules]:
  "silent (State_Monad.return a)" "silent (ok b)" "silent (err c)" "silent (lift_result d)"
  "silent (look E f)" "silent (syscall E g)" "silent (now E)" "silent (sleep E)"
  "silent next_nonce" "silent next_tmp" "silent next_provision"
  "silent (read_dir E p)" "silent (connect_port E q)" "silent (write_all E i s)"
  by (auto simp: silent_def split: option.split)

lemma silent_try [silent_rules]: "silent m \<Longrightarrow> (\<And>a. silent (f a)) \<Longrightarrow> silent (try_io m f)"
  unfolding silent_within_iff by (rule unsent.try_rule)

lemma silent_map_err [silent_rules]: "silent m \<Longrightarrow> silent (map_err h m)"
  unfolding silent_within_iff by (rule unsent.map_err)

lemma silent_reads [silent_rules]:
  "silent (symlink_metadata E p)" "silent (modified E p)" "silent (read_to_string E p)"
  "silent (read_bytes E p)" "silent (exists E p)" "silent (read_link E p)"
  "silent (read_json_opt E p)" "silent (session_lang_opt E d)" "silent (sidecar_is_v2 E d f)"
  by (auto simp: symlink_metadata_def modified_def read_to_string_def read_bytes_def exists_def
      read_link_def read_json_opt_def session_lang_opt_def sidecar_is_v2_def intro!: silent_rules)

lemma silent_gate [silent_rules]:
  "silent (cli_markers_v2 E d)" "silent (require_schema_v2 E d n)" "silent (check_dir_real E d)"
  "silent (checked_session_dir E n)" "silent (session_gate E n)" "silent (session_port E n)"
  by (auto simp: cli_markers_v2_def require_schema_v2_def check_dir_real_def checked_session_dir_def
      session_gate_def session_port_def read_session_def intro!: silent_rules split: if_split)

text \<open>What a passed gate has established: the name, the directory, and both markers.\<close>

definition marked_v2 :: "env \<Rightarrow> kern \<Rightarrow> string \<Rightarrow> bool" where
  "marked_v2 E k path = (case json_at E k path of None \<Rightarrow> False | Some v \<Rightarrow> v2_object v)"

definition gate_open :: "env \<Rightarrow> string \<Rightarrow> world \<Rightarrow> string \<Rightarrow> bool" where
  "gate_open E name w dir =
     (check_name name = Inr () \<and> session_dir E name = Inr dir \<and>
      (case files (seen E w) dir of Some (Link _) \<Rightarrow> fault E (calls w) \<noteq> None
       | Some (Dir _) \<Rightarrow> True | None \<Rightarrow> True | _ \<Rightarrow> fault E (calls w) \<noteq> None) \<and>
      marked_v2 E (seen E (moved E w)) (path_join dir ''lang.json'') \<and>
      marked_v2 E (seen E (moved E (moved E w))) (path_join dir ''stops.json''))"

lemma run_sidecar_is_v2:
  "run_state (sidecar_is_v2 E d f) w =
     (fault E (calls w) = None \<and> marked_v2 E (seen E w) (path_join d f), moved E w)"
  by (auto simp: sidecar_is_v2_def State_Monad.bind_def marked_v2_def split: option.split)

lemma session_gate_open:
  assumes "run_state (session_gate E name) w = (Inr dir, w')"
  shows "gate_open E name w dir \<and> w' = moved E (moved E (moved E w))"
  using assms
  by (auto simp: session_gate_def checked_session_dir_def check_dir_real_def require_schema_v2_def
      cli_markers_v2_def run_sidecar_is_v2 State_Monad.bind_def gate_open_def symlink_metadata_def
      k_lstat_def bail_def split: option.splits sum.splits if_splits prod.splits node.splits file_type.splits)

definition lang_seen :: "env \<Rightarrow> world \<Rightarrow> string \<Rightarrow> string option" where
  "lang_seen E w dir = (if fault E (calls w) = None
     then Option.bind (json_at E (seen E w) (path_join dir ''lang.json'')) (\<lambda>v. str_field v ''lang'') else None)"

lemma run_session_lang_opt [simp]:
  "run_state (session_lang_opt E dir) w = (lang_seen E w dir, moved E w)"
  by (simp add: session_lang_opt_def State_Monad.bind_def lang_seen_def split: option.split)

definition answer_of :: "json result \<Rightarrow> json result" where
  "answer_of a = (case a of Inl e \<Rightarrow> Inl e
     | Inr resp \<Rightarrow> if is_ok resp then Inr (stamp_main resp) else Inl (bridge_failure_of resp))"

lemma forward_target_run:
  assumes "run_state (forward_target E name body timeout target) w = (r, w')"
  shows "(\<exists>e. r = Inl e) \<and> requests w' = requests w \<or>
    (\<exists>dir t port w3. gate_open E name w dir \<and>
       normalize_target_for_lang_opt (lang_seen E (moved E (moved E (moved E w))) dir) target = Inr t \<and>
       run_state (session_port E name) (moved E (moved E (moved E (moved E w)))) = (Inr port, w3) \<and>
       r = answer_of (bridge_answer E (calls w3) port (with_target t body) timeout) \<and>
       requests w' = requests w @ [(port, with_target t body, timeout)])"
proof (cases "fst (run_state (session_gate E name) w)")
  case (Inl e)
  then obtain w1 where 1: "run_state (session_gate E name) w = (Inl e, w1)" by (metis prod.collapse)
  have "requests w1 = requests w" using silentD [OF silent_gate(5) 1] .
  with assms 1 show ?thesis by (auto simp: forward_target_def)
next
  case (Inr dir)
  then obtain w1 where 1: "run_state (session_gate E name) w = (Inr dir, w1)" by (metis prod.collapse)
  note g = session_gate_open [OF 1]
  let ?w1 = "moved E (moved E (moved E w))" and ?w2 = "moved E (moved E (moved E (moved E w)))"
  show ?thesis
  proof (cases "normalize_target_for_lang_opt (lang_seen E ?w1 dir) target")
    case (Inl e)
    with assms 1 g show ?thesis by (auto simp: forward_target_def State_Monad.bind_def)
  next
    case (Inr t)
    obtain p w3 where 3: "run_state (session_port E name) ?w2 = (p, w3)" by fastforce
    have q: "requests w3 = requests w" using silentD [OF silent_gate(6) 3] by simp
    show ?thesis
    proof (cases p)
      case (Inl e)
      with assms 1 g Inr 3 q show ?thesis by (auto simp add: forward_target_def State_Monad.bind_def)
    next
      case (Inr port)
      have "r = answer_of (bridge_answer E (calls w3) port (with_target t body) timeout) \<and>
          requests w' = requests w @ [(port, with_target t body, timeout)]"
        using assms 1 g \<open>_ = Inr t\<close> 3 q Inr
        by (auto simp: forward_target_def State_Monad.bind_def answer_of_def split: sum.splits if_splits)
      with g \<open>_ = Inr t\<close> 3 Inr show ?thesis by blast
    qed
  qed
qed

lemma json_get_stamp_main:
  "is_object resp \<Longrightarrow> json_get (stamp_main resp) k =
     (if k = ''target'' \<and> json_get resp k = None then Some (VString ''main'') else json_get resp k)"
  by (auto simp: stamp_main_def json_get_def is_object_def map_of_map_or_insert split: json.splits option.splits)

lemma is_ok_object: "is_ok resp \<Longrightarrow> is_object resp"
  by (auto simp: is_ok_def bool_field_def json_get_def is_object_def split: json.splits option.splits bind_splits)

text \<open>The concrete session: its gate opens and its bridge answers.\<close>

lemma k_read_file:
  "files k p = Some (File i c t) \<Longrightarrow> valid_utf8 c \<Longrightarrow> k_read_to_string p k = Inr c"
  by (simp add: k_read_to_string_def k_read_def k_stat_def follow_def numeral_eq_Suc)

lemma demo_reads:
  "json_at (demo_env l) (kern demo_world) ''/h/.agent-debugger/sessions/cart/lang.json'' = Some (demo_lang l)"
  "json_at (demo_env l) (kern demo_world) ''/h/.agent-debugger/sessions/cart/stops.json'' = Some demo_stops"
  "json_at (demo_env l) (kern demo_world) ''/h/.agent-debugger/sessions/cart/session.json'' = Some demo_session"
  by (simp_all add: json_at_def k_read_file code_def)

lemma demo_v2: "v2_object (demo_lang l)" "v2_object demo_stops"
  by (simp_all add: v2_object_def demo_lang_def demo_stops_def as_object_def jobj_def as_u64_def num_def
      SCHEMA_VERSION_def)

lemma demo_gate [simp]:
  "kern w = kern demo_world \<Longrightarrow> run_state (session_gate (demo_env l) ''cart'') w =
     (Inr demo_dir, moved (demo_env l) (moved (demo_env l) (moved (demo_env l) w)))"
  by (simp add: session_gate_def checked_session_dir_def check_dir_real_def require_schema_v2_def
      cli_markers_v2_def run_sidecar_is_v2 State_Monad.bind_def symlink_metadata_def k_lstat_def
      marked_v2_def demo_reads demo_v2)

lemma demo_lang_seen [simp]:
  "kern w = kern demo_world \<Longrightarrow> lang_seen (demo_env l) w demo_dir = Some l"
  by (simp add: lang_seen_def demo_reads) (simp add: demo_lang_def str_field_def as_str_def)

lemma demo_port [simp]:
  "kern w = kern demo_world \<Longrightarrow> fst (run_state (session_port (demo_env l) ''cart'') w) = Inr 5678"
  by (simp add: session_port_def read_session_def checked_session_dir_def check_dir_real_def
      State_Monad.bind_def symlink_metadata_def k_lstat_def read_to_string_def k_read_file code_def
      split: prod.split)
    (simp add: demo_session_def u16_field_def u64_field_def as_u64_def num_def u16_try_from_def)

lemma demo_forward:
  assumes "0 < timeout" and "normalize_target_for_lang_opt (Some l) target = Inr t"
    and "kern w = kern demo_world"
  shows "\<exists>w'. run_state (forward_target (demo_env l) ''cart'' body timeout target) w =
      (Inr (stamp_main demo_reply), w') \<and> requests w' = requests w @ [(5678, with_target t body, timeout)]"
proof -
  let ?w = "moved (demo_env l) (moved (demo_env l) (moved (demo_env l) (moved (demo_env l) w)))"
  have "fst (run_state (session_port (demo_env l) ''cart'') ?w) = Inr 5678"
    using assms(3) by (intro demo_port) simp
  then obtain w3 where 3: "run_state (session_port (demo_env l) ''cart'') ?w = (Inr 5678, w3)"
    by (metis prod.collapse)
  have "is_ok demo_reply" by (simp add: demo_reply_def is_ok_def bool_field_def as_bool_def)
  moreover have "requests w3 = requests w"
    using silentD [OF silent_gate(6) 3] by simp
  ultimately show ?thesis
    using 3 assms by (simp add: forward_target_def State_Monad.bind_def)
qed

lemma demo_reload:
  "\<exists>r w'. run_state (cmd_reload (demo_env ''browser'') ''cart'' timeout) demo_world = (r, w') \<and>
    requests w' \<noteq> requests demo_world"
proof -
  let ?E = "demo_env ''browser''"
  have pos: "0 < secs (saturating_add timeout 5)"
    by (simp add: secs_def unat_saturating_add)
  obtain w' where "run_state (forward_target ?E ''cart'' (jobj [(''cmd'', VString ''reload''),
        (''timeout'', u64_json timeout)]) (secs (saturating_add timeout 5)) None)
      (moved ?E (moved ?E (moved ?E (moved ?E demo_world)))) = (Inr (stamp_main demo_reply), w')"
      "requests w' \<noteq> requests demo_world"
    using demo_forward [OF pos, of "''browser''" None None "moved ?E (moved ?E (moved ?E (moved ?E demo_world)))"]
    by (force simp: normalize_target_for_lang_opt_def)
  then show ?thesis
    by (simp add: cmd_reload_def State_Monad.bind_def reload_gate_def forward_def)
qed

text \<open>C25: A command reaches a bridge only through the gates, once, and with the routed target: when
  something was sent, the name is a plain segment, both markers were current, exactly one request
  went out, and its body is the given one, plus the target as given on a multi-target or unknown
  language; a main-only session (java, browser) is only ever asked for main, with no target field
  added.\<close>

theorem forward_gated_routed:
  assumes "run_state (forward_target E name body timeout target) w = (r, w')"
    and "requests w' \<noteq> requests w"
  shows "\<exists>dir port. gate_open E name w dir \<and>
    (let main_only_lang = main_only (lang_seen E (moved E (moved E (moved E w))) dir) in
     requests w' = requests w @
       [(port, if main_only_lang then body else with_target target body, timeout)] \<and>
     (target = None \<or> target = Some ''main'' \<or> \<not> main_only_lang))"
proof -
  obtain dir t port where g: "gate_open E name w dir"
    and t: "normalize_target_for_lang_opt (lang_seen E (moved E (moved E (moved E w))) dir) target = Inr t"
    and r: "requests w' = requests w @ [(port, with_target t body, timeout)]"
    using forward_target_run [OF assms(1)] assms(2) by blast
  let ?m = "main_only (lang_seen E (moved E (moved E (moved E w))) dir)"
  have eq: "with_target t body = (if ?m then body else with_target target body)"
    and c: "target = None \<or> target = Some ''main'' \<or> \<not> ?m"
    using t by (auto simp: normalize_target_for_lang_opt_def with_target_def split: option.splits if_splits)
  show ?thesis
    unfolding Let_def using g r [unfolded eq] c by (intro exI [of _ dir] exI [of _ port] conjI)
qed

theorem forward_gated_routed_witness:
  "\<exists>dir port (w' :: world). gate_open (demo_env ''py'') ''cart'' demo_world dir \<and>
     requests w' = [(port, with_target (Some ''child:7'') (jobj []), 1)]"
proof -
  have py: "normalize_target_for_lang_opt (Some ''py'') t = Inr t" for t
    by (simp add: normalize_target_for_lang_opt_def main_only_def split: option.split)
  obtain w' where run: "run_state (forward_target (demo_env ''py'') ''cart'' (jobj []) 1 (Some ''child:7'')) demo_world =
      (Inr (stamp_main demo_reply), w')" and r: "requests w' = [(5678, with_target (Some ''child:7'') (jobj []), 1)]"
    using demo_forward [of 1 "''py''" _ _ demo_world, OF _ py] by (auto simp: demo_world_def)
  from r have "requests w' \<noteq> requests demo_world" by (simp add: demo_world_def)
  from forward_gated_routed [OF run this]
  obtain dir where "gate_open (demo_env ''py'') ''cart'' demo_world dir" by blast
  with r show ?thesis
    by (intro exI [of _ dir] exI [of _ 5678] exI [of _ w'] conjI)
qed

text \<open>What a forwarded command returns is the bridge's answer and names a target: a refusal is
  an error with the bridge's own message, and a success has every field of the bridge's response
  unchanged, with \<open>main\<close> as the target only where the bridge named none.\<close>

theorem forward_answer:
  assumes "run_state (forward_target E name body timeout target) w = (Inr v, w')"
  shows "\<exists>n port b resp. bridge_answer E n port b timeout = Inr resp \<and> is_ok resp \<and>
    (\<forall>k. json_get v k = (if k = ''target'' \<and> json_get resp k = None then Some (VString ''main'')
       else json_get resp k))"
proof -
  obtain n port b where v: "answer_of (bridge_answer E n port b timeout) = Inr v"
    using forward_target_run [OF assms] by auto
  then obtain resp where "bridge_answer E n port b timeout = Inr resp" "is_ok resp" "v = stamp_main resp"
    by (auto simp: answer_of_def split: sum.splits if_splits)
  then show ?thesis using json_get_stamp_main [OF is_ok_object] by blast
qed

theorem forward_answer_witness:
  "\<exists>v n port b. bridge_answer (demo_env ''py'') n port b 1 = Inr demo_reply \<and> json_get v ''target'' = Some (VString ''main'')"
proof -
  have py: "normalize_target_for_lang_opt (Some ''py'') t = Inr t" for t
    by (simp add: normalize_target_for_lang_opt_def main_only_def split: option.split)
  obtain w' where run: "run_state (forward_target (demo_env ''py'') ''cart'' (jobj []) 1 None) demo_world =
      (Inr (stamp_main demo_reply), w')"
    using demo_forward [of 1 "''py''" _ _ demo_world, OF _ py] by auto
  from forward_answer [OF run] obtain resp n port b where
    "bridge_answer (demo_env ''py'') n port b 1 = Inr resp"
    "json_get (stamp_main demo_reply) ''target'' =
      (if json_get resp ''target'' = None then Some (VString ''main'') else json_get resp ''target'')"
    by auto
  then show ?thesis by (auto simp: demo_reply_def)
qed

text \<open>Nothing is reloaded but a browser tab: \<open>cmd_reload\<close> sends a request only when the session's
  language read as \<open>browser\<close> after the gates.\<close>

theorem reload_browser_only:
  assumes "run_state (cmd_reload E name timeout) w = (r, w')" and "requests w' \<noteq> requests w"
  shows "\<exists>dir. gate_open E name w dir \<and> lang_seen E (moved E (moved E (moved E w))) dir = Some ''browser''"
proof (cases "fst (run_state (session_gate E name) w)")
  case (Inl e)
  then obtain w1 where 1: "run_state (session_gate E name) w = (Inl e, w1)" by (metis prod.collapse)
  have "requests w1 = requests w" using silentD [OF silent_gate(5) 1] .
  with assms 1 show ?thesis by (simp add: cmd_reload_def)
next
  case (Inr dir)
  then obtain w1 where 1: "run_state (session_gate E name) w = (Inr dir, w1)" by (metis prod.collapse)
  with assms session_gate_open [OF 1] show ?thesis
    by (auto simp: cmd_reload_def State_Monad.bind_def reload_gate_def bail_def split: if_splits)
qed

theorem reload_browser_only_witness:
  "\<exists>dir. gate_open (demo_env ''browser'') ''cart'' demo_world dir"
proof -
  obtain r w' where run: "run_state (cmd_reload (demo_env ''browser'') ''cart'' 7) demo_world = (r, w')"
    and "requests w' \<noteq> requests demo_world"
    using demo_reload [of 7] by blast
  from reload_browser_only [OF this] show ?thesis by blast
qed

end
