(* ===== verification/Locks.thy ===== *)
theory Locks
  imports Forward
begin

text \<open>
  \<open>src/session/locks.rs\<close>: the startup lock of a session name and the endpoint lock of an attach target,
  files claimed by exclusive creation and released by their nonce, with the verified transfer of a
  stale record into quarantine. Liveness of a holder is read from \<open>/proc\<close> (Linux; the \<open>ps\<close> probe of
  other systems is in \<open>Mac\<close>). A guard is a value; dropping it is the call of its release.
\<close>

section \<open>The startup lock\<close>

definition startup_lock_path :: "string \<Rightarrow> string \<Rightarrow> string" where
  "startup_lock_path sessions_root name = path_join sessions_root (name @ ''.lock'')"

definition STARTUP_LOCK_STALE :: nat where
  "STARTUP_LOCK_STALE = secs 300"

text \<open>A time in the future has no age.\<close>

definition stale_startup_mtime :: "env \<Rightarrow> nat \<Rightarrow> bool io" where
  "stale_startup_mtime E mtime = do {
     t \<leftarrow> now E;
     State_Monad.return (mtime \<le> t \<and> STARTUP_LOCK_STALE \<le> t - mtime)
   }"

record lock_guard =
  guard_path :: string
  guard_nonce :: string

definition startup_lock_is_mine :: "env \<Rightarrow> string \<Rightarrow> string \<Rightarrow> bool io" where
  "startup_lock_is_mine E path nonce = do {
     c \<leftarrow> read_to_string E path;
     State_Monad.return (c = Inr nonce)
   }"

definition release_startup_lock :: "env \<Rightarrow> string \<Rightarrow> string \<Rightarrow> unit io" where
  "release_startup_lock E path nonce = do {
     mine \<leftarrow> startup_lock_is_mine E path nonce;
     if mine then do { _ \<leftarrow> remove_file E path; State_Monad.return () }
     else State_Monad.return ()
   }"

text \<open>Up to \<open>n\<close> attempts; the last error is returned. \<open>None\<close>: the file is gone.\<close>

fun attempts :: "env \<Rightarrow> nat \<Rightarrow> (io_error + 'a) io \<Rightarrow> io_error \<Rightarrow> (io_error + 'a option) io" where
  "attempts E 0 op latest = err latest"
| "attempts E (Suc n) op latest = do {
     r \<leftarrow> op;
     (case r of
        Inr a \<Rightarrow> ok (Some a)
      | Inl e \<Rightarrow> if io_kind e = NotFound then ok None
          else do { _ \<leftarrow> sleep E; attempts E n op e })
   }"

definition read_lock_bytes :: "env \<Rightarrow> string \<Rightarrow> (io_error + string option) io" where
  "read_lock_bytes E path = attempts E 3 (read_to_string E path) (IoError OtherKind ''unreadable lock record'')"

definition lock_mtime :: "env \<Rightarrow> string \<Rightarrow> (io_error + nat option) io" where
  "lock_mtime E path = attempts E 3 (modified E path) (IoError OtherKind ''undatable lock record'')"

text \<open>The created file is an inode; on a failed write the path is removed.\<close>

definition write_lock_record :: "env \<Rightarrow> nat \<Rightarrow> string \<Rightarrow> string \<Rightarrow> (io_error + unit) io" where
  "write_lock_record E f path content = do {
     r \<leftarrow> write_all E f content;
     (case r of
        Inl e \<Rightarrow> do { _ \<leftarrow> remove_file E path; err e }
      | Inr _ \<Rightarrow> ok ())
   }"

definition file_name_of :: "string \<Rightarrow> string option" where
  "file_name_of path = (case rev (components path) of Normal s # _ \<Rightarrow> Some s | _ \<Rightarrow> None)"

text \<open>\<open>file_stem\<close>: up to the last dot, unless that is the first byte.\<close>

definition file_stem :: "string \<Rightarrow> string option" where
  "file_stem path =
     (case file_name_of path of None \<Rightarrow> None
      | Some s \<Rightarrow> (case find_index (\<lambda>c. c = CHR ''.'') (rev s) of
          None \<Rightarrow> Some s
        | Some i \<Rightarrow> let stem = take (length s - Suc i) s in Some (if stem = [] then s else stem)))"

definition lock_holder_name :: "string \<Rightarrow> string" where
  "lock_holder_name path = (case file_stem path of None \<Rightarrow> [] | Some s \<Rightarrow> from_utf8_lossy s)"

definition concurrent_start :: string where
  "concurrent_start = '' is starting (concurrent start in progress; retry shortly)''"

definition starting :: "string \<Rightarrow> 'a result" where
  "starting path = bail (''session '' @ quoted (lock_holder_name path) @ concurrent_start)"

definition cannot_write_lock :: "string \<Rightarrow> io_error \<Rightarrow> anyhow" where
  "cannot_write_lock what e = Msg (''cannot write '' @ what @ '' lock: '' @ io_text e)"

definition claim_stale_startup_lock :: "env \<Rightarrow> string \<Rightarrow> (lock_guard result) io" where
  "claim_stale_startup_lock E path = do {
     nonce \<leftarrow> startup_nonce E;
     try_io (map_err (\<lambda>_. Msg (''session'' @ concurrent_start)) (create_new E path)) (\<lambda>f.
     try_io (map_err (cannot_write_lock ''startup'') (write_lock_record E f path nonce)) (\<lambda>_.
     ok \<lparr>guard_path = path, guard_nonce = nonce\<rparr>))
   }"

section \<open>Quarantine\<close>

definition with_file_name :: "string \<Rightarrow> string \<Rightarrow> string" where
  "with_file_name path n =
     (case parent_of path of None \<Rightarrow> n | Some d \<Rightarrow> if d = [] then ''/'' @ n else path_join d n)"

definition quarantine_name :: "nat \<Rightarrow> string \<Rightarrow> string" where
  "quarantine_name pid nonce = ''.q-'' @ show_nat pid @ ''-'' @ nonce @ ''.tmp''"

definition detach_to_quarantine :: "env \<Rightarrow> string \<Rightarrow> (io_error + string) io" where
  "detach_to_quarantine E path = do {
     nonce \<leftarrow> startup_nonce E;
     (let q = with_file_name path (quarantine_name (process_id E) nonce) in
      try_io (rename E path q) (\<lambda>_. ok q))
   }"

definition restore_quarantine_bytes :: "env \<Rightarrow> string \<Rightarrow> string \<Rightarrow> bool io" where
  "restore_quarantine_bytes E path q = do {
     bytes \<leftarrow> read_bytes E q;
     (case bytes of
        Inl _ \<Rightarrow> State_Monad.return False
      | Inr bytes \<Rightarrow> do {
          f \<leftarrow> create_new E path;
          (case f of
             Inl _ \<Rightarrow> State_Monad.return False
           | Inr f \<Rightarrow> do {
               r \<leftarrow> write_all E f bytes;
               (case r of
                  Inl _ \<Rightarrow> do { _ \<leftarrow> remove_file E path; State_Monad.return False }
                | Inr _ \<Rightarrow> do { _ \<leftarrow> sync_all E f; State_Monad.return True })
             })
        })
   }"

definition reconcile_quarantine :: "env \<Rightarrow> string \<Rightarrow> string \<Rightarrow> string \<Rightarrow> bool io" where
  "reconcile_quarantine E path q expected = do {
     qb \<leftarrow> read_to_string E q;
     (case qb of
        Inl _ \<Rightarrow> do { _ \<leftarrow> remove_file E q; State_Monad.return True }
      | Inr b \<Rightarrow>
          if b = expected then do { _ \<leftarrow> remove_file E q; State_Monad.return True }
          else do {
            m \<leftarrow> symlink_metadata E path;
            (case m of
               Inl e \<Rightarrow>
                 if io_kind e = NotFound then do {
                   _ \<leftarrow> restore_quarantine_bytes E path q;
                   _ \<leftarrow> remove_file E q;
                   State_Monad.return False
                 }
                 else do { _ \<leftarrow> remove_file E q; State_Monad.return False }
             | Inr _ \<Rightarrow> do { _ \<leftarrow> remove_file E q; State_Monad.return False })
          })
   }"

fun detach_attempts :: "env \<Rightarrow> nat \<Rightarrow> string \<Rightarrow> string \<Rightarrow> bool io" where
  "detach_attempts E 0 path expected = State_Monad.return False"
| "detach_attempts E (Suc n) path expected = do {
     d \<leftarrow> detach_to_quarantine E path;
     (case d of
        Inr q \<Rightarrow> reconcile_quarantine E path q expected
      | Inl e \<Rightarrow>
          if io_kind e = NotFound then State_Monad.return True
          else do {
            _ \<leftarrow> sleep E;
            again \<leftarrow> read_lock_bytes E path;
            (case again of
               Inr (Some r) \<Rightarrow> if r = expected then detach_attempts E n path expected
                 else State_Monad.return False
             | Inr None \<Rightarrow> State_Monad.return True
             | Inl _ \<Rightarrow> State_Monad.return False)
          })
   }"

definition quarantine_verified :: "env \<Rightarrow> string \<Rightarrow> string \<Rightarrow> bool io" where
  "quarantine_verified E path expected = do {
     raw2 \<leftarrow> read_lock_bytes E path;
     (case raw2 of
        Inl _ \<Rightarrow> State_Monad.return False
      | Inr None \<Rightarrow> State_Monad.return True
      | Inr (Some r) \<Rightarrow>
          if r \<noteq> expected then State_Monad.return False
          else detach_attempts E 3 path expected)
   }"

section \<open>Claiming a name\<close>

definition reclaim_and_claim :: "env \<Rightarrow> string \<Rightarrow> string \<Rightarrow> (lock_guard result) io" where
  "reclaim_and_claim E path raw = do {
     m \<leftarrow> lock_mtime E path;
     (case m of
        Inl _ \<Rightarrow> lift_result (starting path)
      | Inr None \<Rightarrow> claim_stale_startup_lock E path
      | Inr (Some mtime) \<Rightarrow> do {
          stale \<leftarrow> stale_startup_mtime E mtime;
          if \<not> stale then lift_result (starting path)
          else do {
            gone \<leftarrow> quarantine_verified E path raw;
            if \<not> gone then lift_result (starting path)
            else claim_stale_startup_lock E path
          }
        })
   }"

definition acquire_startup_lock :: "env \<Rightarrow> string \<Rightarrow> (lock_guard result) io" where
  "acquire_startup_lock E path = do {
     nonce \<leftarrow> startup_nonce E;
     f \<leftarrow> create_new E path;
     (case f of
        Inr f \<Rightarrow>
          try_io (map_err (cannot_write_lock ''startup'') (write_lock_record E f path nonce)) (\<lambda>_.
          ok \<lparr>guard_path = path, guard_nonce = nonce\<rparr>)
      | Inl e \<Rightarrow>
          if io_kind e \<noteq> AlreadyExists then err (Msg (''cannot create startup lock: '' @ io_text e))
          else do {
            raw \<leftarrow> read_lock_bytes E path;
            (case raw of
               Inl _ \<Rightarrow> lift_result (starting path)
             | Inr None \<Rightarrow> claim_stale_startup_lock E path
             | Inr (Some r) \<Rightarrow> reclaim_and_claim E path r)
          })
   }"

section \<open>The endpoint lock\<close>

definition endpoint_locks_dir :: "env \<Rightarrow> string result" where
  "endpoint_locks_dir E =
     and_then (agent_home E) (\<lambda>home. Inr (path_join (path_join home ''.agent-debugger'') ''endpoint-locks''))"

definition endpoint_locks_dir_for :: "env \<Rightarrow> string \<Rightarrow> string result" where
  "endpoint_locks_dir_for E sessions_root =
     (if sessions_root = [] \<or> sessions_root = ''/'' then endpoint_locks_dir E
      else (case parent_of sessions_root of
          Some p \<Rightarrow> Inr (path_join (if p = [] then ''/'' else p) ''endpoint-locks'')
        | None \<Rightarrow> Inr (path_join [] ''endpoint-locks'')))"

text \<open>\<open>{:02x}\<close>.\<close>

definition hex_char :: "nat \<Rightarrow> char" where
  "hex_char n = (if n < 10 then char_of (48 + n) else char_of (87 + n))"

definition escape_byte :: "char \<Rightarrow> string" where
  "escape_byte b =
     (if is_ascii_alphanumeric b then [b]
      else if b = CHR ''_'' then ''__''
      else [CHR ''_'', hex_char (code b div 16), hex_char (code b mod 16)])"

definition endpoint_lock_name :: "string \<Rightarrow> string \<Rightarrow> u16 \<Rightarrow> string" where
  "endpoint_lock_name lang norm_host port =
     lang @ ''-'' @ concat (map escape_byte norm_host) @ ''-'' @ show_nat (unat port) @ ''.lock''"

definition endpoint_lock_path :: "string \<Rightarrow> string \<Rightarrow> string \<Rightarrow> u16 \<Rightarrow> string" where
  "endpoint_lock_path locks_dir lang norm_host port = path_join locks_dir (endpoint_lock_name lang norm_host port)"

definition ENDPOINT_LOCK_STALE :: nat where
  "ENDPOINT_LOCK_STALE = secs 7200"

definition ENDPOINT_LOCK_GRACE :: nat where
  "ENDPOINT_LOCK_GRACE = secs 10"

definition release_endpoint_lock :: "env \<Rightarrow> string \<Rightarrow> string \<Rightarrow> unit io" where
  "release_endpoint_lock E path nonce = do {
     v \<leftarrow> read_json_opt E path;
     if Option.bind v (\<lambda>v. str_field v ''nonce'') = Some nonce
     then do { _ \<leftarrow> remove_file E path; State_Monad.return () }
     else State_Monad.return ()
   }"

definition endpoint_lock_session_name :: "env \<Rightarrow> string \<Rightarrow> (string option) io" where
  "endpoint_lock_session_name E path = do {
     v \<leftarrow> read_json_opt E path;
     State_Monad.return (Option.bind v (\<lambda>v. str_field v ''session''))
   }"

datatype liveness = Alive | Dead | Unknown

definition holder_alive :: "env \<Rightarrow> u32 \<Rightarrow> liveness io" where
  "holder_alive E pid = do {
     m \<leftarrow> symlink_metadata E (''/proc/'' @ show_nat (unat pid));
     State_Monad.return (case m of
         Inr TDir \<Rightarrow> Alive
       | Inr _ \<Rightarrow> Unknown
       | Inl e \<Rightarrow> if io_kind e = NotFound then Dead else Unknown)
   }"

text \<open>\<open>u32::try_from(u64)\<close>.\<close>

definition u32_try_from :: "u64 \<Rightarrow> u32 option" where
  "u32_try_from x = (if unat x < 2 ^ 32 then Some (ucast x) else None)"

definition record_pid :: "env \<Rightarrow> string \<Rightarrow> u32 option" where
  "record_pid E raw =
     Option.bind (to_option (from_str (codec E) raw)) (\<lambda>v. Option.bind (u64_field v ''pid'') u32_try_from)"

text \<open>The liveness probe is the platform's.\<close>

definition lock_snapshot_is_stale_by :: "(u32 \<Rightarrow> liveness io) \<Rightarrow> env \<Rightarrow> string \<Rightarrow> nat \<Rightarrow> bool io" where
  "lock_snapshot_is_stale_by alive E raw mtime = do {
     t \<leftarrow> now E;
     if t < mtime then State_Monad.return False
     else if ENDPOINT_LOCK_STALE \<le> t - mtime then State_Monad.return True
     else if t - mtime < ENDPOINT_LOCK_GRACE then State_Monad.return False
     else (case record_pid E raw of
         None \<Rightarrow> State_Monad.return False
       | Some pid \<Rightarrow> do { l \<leftarrow> alive pid; State_Monad.return (l = Dead) })
   }"

abbreviation lock_snapshot_is_stale :: "env \<Rightarrow> string \<Rightarrow> nat \<Rightarrow> bool io" where
  "lock_snapshot_is_stale E \<equiv> lock_snapshot_is_stale_by (holder_alive E) E"

definition reclaim_stale_lock :: "env \<Rightarrow> string \<Rightarrow> bool io" where
  "reclaim_stale_lock E path = do {
     raw \<leftarrow> read_lock_bytes E path;
     (case raw of
        Inl _ \<Rightarrow> State_Monad.return False
      | Inr None \<Rightarrow> State_Monad.return True
      | Inr (Some raw) \<Rightarrow> do {
          m \<leftarrow> lock_mtime E path;
          (case m of
             Inl _ \<Rightarrow> State_Monad.return False
           | Inr None \<Rightarrow> State_Monad.return True
           | Inr (Some mtime) \<Rightarrow> do {
               stale \<leftarrow> lock_snapshot_is_stale E raw mtime;
               if \<not> stale then State_Monad.return False else quarantine_verified E path raw
             })
        })
   }"

text \<open>Up to ten reads, 50 ms apart, while the path is absent.\<close>

fun holds_attempts :: "env \<Rightarrow> nat \<Rightarrow> lock_guard \<Rightarrow> bool io" where
  "holds_attempts E 0 g = State_Monad.return False"
| "holds_attempts E (Suc n) g = do {
     r \<leftarrow> read_to_string E (guard_path g);
     (case r of
        Inr raw \<Rightarrow> State_Monad.return
          (Option.bind (to_option (from_str (codec E) raw)) (\<lambda>v. str_field v ''nonce'') = Some (guard_nonce g))
      | Inl e \<Rightarrow>
          if io_kind e = NotFound then do { _ \<leftarrow> sleep E; holds_attempts E n g }
          else State_Monad.return False)
   }"

definition still_holds_endpoint :: "env \<Rightarrow> lock_guard \<Rightarrow> bool io" where
  "still_holds_endpoint E guard = holds_attempts E 10 guard"

record endpoint_busy =
  busy_session :: string
  busy_published :: bool

datatype endpoint_claim = Held lock_guard | Busy endpoint_busy

definition endpoint_record :: "env \<Rightarrow> string \<Rightarrow> string \<Rightarrow> nat \<Rightarrow> json" where
  "endpoint_record E nonce name t =
     jobj [(''nonce'', VString nonce), (''pid'', num (process_id E)), (''session'', VString name),
       (''createdAt'', num (t div 1000000000))]"

definition claim_endpoint :: "env \<Rightarrow> string \<Rightarrow> string \<Rightarrow> (lock_guard result) io" where
  "claim_endpoint E path name = do {
     nonce \<leftarrow> startup_nonce E;
     t \<leftarrow> now E;
     try_io (map_err Io (create_new E path)) (\<lambda>f.
     try_io (map_err (cannot_write_lock ''endpoint'')
       (write_lock_record E f path (to_text (codec E) (endpoint_record E nonce name t)))) (\<lambda>_.
     ok \<lparr>guard_path = path, guard_nonce = nonce\<rparr>))
   }"

definition endpoint_busy_report :: "env \<Rightarrow> string \<Rightarrow> string \<Rightarrow> (endpoint_claim result) io" where
  "endpoint_busy_report E path sessions_root = do {
     s \<leftarrow> endpoint_lock_session_name E path;
     (let session = (case s of Some n \<Rightarrow> n | None \<Rightarrow> ''another session'') in do {
       published \<leftarrow> exists E (path_join (path_join sessions_root session) ''session.json'');
       ok (Busy \<lparr>busy_session = session, busy_published = published\<rparr>)
     })
   }"

definition acquire_endpoint_lock ::
    "env \<Rightarrow> string \<Rightarrow> string \<Rightarrow> string \<Rightarrow> string \<Rightarrow> string \<Rightarrow> u16 \<Rightarrow> (endpoint_claim result) io" where
  "acquire_endpoint_lock E locks_dir sessions_root name lang norm_host port =
     try_io (map_err (\<lambda>e. Msg (''cannot create endpoint locks dir '' @ locks_dir @ '': '' @ io_text e))
       (create_dir_all E locks_dir)) (\<lambda>_.
     let path = endpoint_lock_path locks_dir lang norm_host port in do {
       c1 \<leftarrow> claim_endpoint E path name;
       (case c1 of
          Inr g \<Rightarrow> ok (Held g)
        | Inl e \<Rightarrow>
            if downcast_io e \<noteq> Some AlreadyExists then err e
            else do {
              gone \<leftarrow> reclaim_stale_lock E path;
              if gone then do {
                c2 \<leftarrow> claim_endpoint E path name;
                (case c2 of
                   Inr g \<Rightarrow> ok (Held g)
                 | Inl e2 \<Rightarrow>
                     if downcast_io e2 \<noteq> Some AlreadyExists then err e2
                     else endpoint_busy_report E path sessions_root)
              }
              else endpoint_busy_report E path sessions_root
            })
     })"


section \<open>Lock names\<close>

text \<open>A code whose words are not prefixes of one another reads back in one way only.\<close>

locale prefix_code =
  fixes enc :: "'a \<Rightarrow> 'b list"
  assumes word_not_Nil: "enc x \<noteq> []"
    and prefix_free: "enc x @ s = enc y @ t \<Longrightarrow> x = y"
begin

lemma encode_inject: "concat (map enc xs) = concat (map enc ys) \<longleftrightarrow> xs = ys"
proof
  show "concat (map enc xs) = concat (map enc ys) \<Longrightarrow> xs = ys"
  proof (induction xs arbitrary: ys)
    case Nil
    then show ?case using word_not_Nil by (cases ys) simp_all
  next
    case (Cons x xs)
    from Cons.prems word_not_Nil obtain y zs where ys: "ys = y # zs" by (cases ys) auto
    with Cons.prems have "x = y" using prefix_free [of x _ y] by simp
    with ys Cons show ?case by simp
  qed
qed simp

end

lemma code_hex_char: "n < 16 \<Longrightarrow> code (hex_char n) = (if n < 10 then 48 + n else 87 + n)"
  by (simp add: hex_char_def code_def)

lemma hex_char_inject:
  assumes "m < 16" "n < 16"
  shows "hex_char m = hex_char n \<longleftrightarrow> m = n"
proof
  assume "hex_char m = hex_char n"
  then have "code (hex_char m) = code (hex_char n)" by (rule arg_cong)
  then show "m = n"
    unfolding code_hex_char [OF assms(1)] code_hex_char [OF assms(2)] by (simp split: if_splits)
qed simp

lemma code_inject: "code a = code b \<longleftrightarrow> a = b"
  by (simp add: code_def)

lemma code_less: "code c < 256"
  using of_char_mod_256 [of c, where 'a = nat] mod_less_divisor [of 256 "code c"] by (simp add: code_def)

lemma hex_char_underscore: "n < 16 \<Longrightarrow> hex_char n \<noteq> CHR ''_''"
proof
  assume "n < 16" "hex_char n = CHR ''_''"
  with code_hex_char [of n] show False by (simp add: code_def split: if_splits)
qed

lemma underscore_not_alnum: "\<not> is_ascii_alphanumeric (CHR ''_'')"
  by (simp add: is_ascii_alphanumeric_def is_ascii_digit_def is_ascii_alphabetic_def code_def)

interpretation escaped: prefix_code escape_byte
proof
  fix x y :: char and s t
  show "escape_byte x \<noteq> []" by (simp add: escape_byte_def)
  have lt: "code c div 16 < 16" "code c mod 16 < 16" for c
    using code_less [of c] by auto
  have digits: "code x div 16 = code y div 16 \<Longrightarrow> code x mod 16 = code y mod 16 \<Longrightarrow> x = y"
    by (metis code_inject div_mult_mod_eq)
  have shape: "escape_byte c = [c] \<and> c \<noteq> CHR ''_'' \<or> c = CHR ''_'' \<and> escape_byte c = ''__'' \<or>
      escape_byte c = [CHR ''_'', hex_char (code c div 16), hex_char (code c mod 16)]" for c
    using underscore_not_alnum by (cases "is_ascii_alphanumeric c") (auto simp: escape_byte_def)
  assume eq: "escape_byte x @ s = escape_byte y @ t"
  have not_underscore: "hex_char (code c div 16) \<noteq> CHR ''_''" for c
    by (rule hex_char_underscore [OF lt(1)])
  show "x = y"
    using shape [of x] shape [of y]
  proof (elim disjE conjE)
    assume "escape_byte x = [CHR ''_'', hex_char (code x div 16), hex_char (code x mod 16)]"
      "escape_byte y = [CHR ''_'', hex_char (code y div 16), hex_char (code y mod 16)]"
    with eq digits show ?thesis by (simp add: hex_char_inject lt)
  qed (use eq not_underscore [of x] not_underscore [of y] in simp_all)
qed

lemma dash_free_split:
  fixes a a' b b' :: string
  assumes "CHR ''-'' \<notin> set b" "CHR ''-'' \<notin> set b'"
  shows "a @ CHR ''-'' # b = a' @ CHR ''-'' # b' \<longleftrightarrow> a = a' \<and> b = b'"
proof
  assume eq: "a @ CHR ''-'' # b = a' @ CHR ''-'' # b'"
  have part: "takeWhile (\<lambda>c. c \<noteq> CHR ''-'') (rev (u @ CHR ''-'' # v)) = rev v" if "CHR ''-'' \<notin> set v" for u v :: string
  proof -
    have "rev (u @ CHR ''-'' # v) = rev v @ CHR ''-'' # rev u" by simp
    then show ?thesis using that by (simp only:) (rule takeWhile_append_stop, auto)
  qed
  have "rev b = rev b'"
    using part [OF assms(1), of a] part [OF assms(2), of a'] by (simp only: eq)
  then have "b = b'" by (simp only: rev_is_rev_conv)
  with eq show "a = a' \<and> b = b'" by (simp only: append_same_eq simp_thms)
qed simp

lemma escaped_no_dash: "CHR ''-'' \<notin> set (concat (map escape_byte s))"
proof -
  have "code (CHR ''-'') = 45" by (simp add: code_def)
  moreover have "code (hex_char n) \<noteq> 45" if "n < 16" for n using code_hex_char [OF that] by simp
  moreover have "code c div 16 < 16" "code c mod 16 < 16" for c using code_less [of c] by auto
  ultimately have "CHR ''-'' \<noteq> hex_char (code c div 16)" "CHR ''-'' \<noteq> hex_char (code c mod 16)" for c by metis+
  then show ?thesis
    by (auto simp: escape_byte_def is_ascii_alphanumeric_def is_ascii_digit_def is_ascii_alphabetic_def
        code_def split: if_splits)
qed

lemma endpoint_lock_name_inject:
  "endpoint_lock_name l h p = endpoint_lock_name l' h' p' \<longleftrightarrow> l = l' \<and> h = h' \<and> p = p'"
proof -
  let ?port = "\<lambda>p :: u16. show_nat (unat p) @ ''.lock''"
  have "CHR ''-'' \<notin> set (?port p)" for p
    using show_nat_digits [of "CHR ''-''" "unat p"] dash_not_digit by auto
  then have "endpoint_lock_name l h p = endpoint_lock_name l' h' p' \<longleftrightarrow>
      l @ ''-'' @ concat (map escape_byte h) = l' @ ''-'' @ concat (map escape_byte h') \<and> ?port p = ?port p'"
    using dash_free_split [of "?port p" "?port p'" "l @ ''-'' @ concat (map escape_byte h)"
        "l' @ ''-'' @ concat (map escape_byte h')"]
    by (simp add: endpoint_lock_name_def)
  also have "\<dots> \<longleftrightarrow> l = l' \<and> h = h' \<and> p = p'"
    using dash_free_split [OF escaped_no_dash escaped_no_dash, of l h l' h'] escaped.encode_inject [of h h']
    by (auto simp: unsigned_word_eqI)
  finally show ?thesis .
qed

lemma endpoint_lock_name_plain:
  assumes "plain_segment l"
  shows "plain_segment (endpoint_lock_name l h p)"
proof -
  have "c \<notin> {CHR 0x5C, CHR ''/'', CHR 0x00}" if "c \<in> set (concat (map escape_byte h))" for c
  proof -
    have lt: "code b div 16 < 16" "code b mod 16 < 16" for b using code_less [of b] by auto
    have hex: "code (hex_char n) \<in> {48..57} \<union> {97..102}" if "n < 16" for n
      using code_hex_char [OF that] that by auto
    from that obtain b where "c \<in> set (escape_byte b)" by auto
    then have "is_ascii_alphanumeric c \<or> c = CHR ''_'' \<or> code c \<in> {48..57} \<union> {97..102}"
      using hex [OF lt(1)] hex [OF lt(2)] by (auto simp: escape_byte_def split: if_splits)
    then show ?thesis
      by (auto simp: is_ascii_alphanumeric_def is_ascii_digit_def is_ascii_alphabetic_def code_def)
  qed
  moreover have "c \<notin> {CHR 0x5C, CHR ''/'', CHR 0x00}" if "c \<in> set (show_nat n)" for c n
    using show_nat_digits [OF that] by (auto simp: is_ascii_digit_def code_def)
  ultimately show ?thesis
    using assms unfolding plain_segment_def endpoint_lock_name_def
    by (auto simp: append_eq_Cons_conv)
qed

text \<open>C30: Two endpoints share a lock file only when language, host and port are all the same: the
  escaping of the host is injective and nothing in it can be taken for the separators, so
  distinct endpoints never block each other. (The languages are the plain names the commands use.)\<close>

theorem endpoint_lock_path_inject:
  assumes "plain_segment lang" "plain_segment lang'"
  shows "endpoint_lock_path d lang host port = endpoint_lock_path d lang' host' port' \<longleftrightarrow>
    lang = lang' \<and> host = host' \<and> port = port'"
  unfolding endpoint_lock_path_def path_join_inject [OF endpoint_lock_name_plain [OF assms(1)] endpoint_lock_name_plain [OF assms(2)]]
  by (rule endpoint_lock_name_inject)

theorem endpoint_lock_path_inject_witness:
  "endpoint_lock_path ''/l'' ''py'' ''my-host'' 5678 \<noteq> endpoint_lock_path ''/l'' ''py'' ''my.host'' 5678"
proof -
  have "plain_segment ''py''" by (simp add: plain_segment_def)
  from endpoint_lock_path_inject [OF this this] show ?thesis by simp
qed

section \<open>Claims\<close>

lemma passes_next_nonce [passes_rules]:
  "(\<And>w. P w \<Longrightarrow> Q (nonce_counter w) (w\<lparr>nonce_counter := nonce_counter w + 1\<rparr>)) \<Longrightarrow> passes H P next_nonce Q"
  by (auto simp: passes_def)

text \<open>\<open>holds K m G\<close>: from a state with \<open>K\<close>, \<open>m\<close> keeps \<open>K\<close> in every state it goes through and answers what
  \<open>G\<close> accepts. The others keep \<open>K\<close> when they are \<open>sheltered\<close>.\<close>

definition holds :: "(kern \<Rightarrow> bool) \<Rightarrow> 'a io \<Rightarrow> ('a \<Rightarrow> bool) \<Rightarrow> bool" where
  "holds K m G = passes K (\<lambda>w. K (kern w)) m (\<lambda>r w. K (kern w) \<and> G r)"

definition sheltered :: "env \<Rightarrow> (kern \<Rightarrow> bool) \<Rightarrow> bool" where
  "sheltered E K = (\<forall>n k. K k \<longrightarrow> K (interfere E n k))"

lemma sheltered_seen: "sheltered E K \<Longrightarrow> K (kern w) \<Longrightarrow> K (seen E w)"
  by (simp add: sheltered_def seen_def)

lemma sheltered_alone: "alone E \<Longrightarrow> sheltered E K"
  by (simp add: sheltered_def alone_def)

lemma holds_same:
  assumes "holds (\<lambda>l. l = k) m G" and "kern w = k" and "run_state m w = (r, w')"
  shows "kern w' = k \<and> G r"
  using passesD [OF assms(1) [unfolded holds_def] _ assms(3)] assms(2) by simp

lemma holds_weaken: "holds K m G \<Longrightarrow> (\<And>r. G r \<Longrightarrow> G' r) \<Longrightarrow> holds K m G'"
  unfolding holds_def by (erule passes_post) auto

lemma holds_return: "G a \<Longrightarrow> holds K (State_Monad.return a) G"
  unfolding holds_def by (rule passes_return) simp

lemma holds_bind:
  "holds K m R \<Longrightarrow> (\<And>a. R a \<Longrightarrow> holds K (f a) G) \<Longrightarrow> holds K (State_Monad.bind m f) G"
proof -
  assume m: "holds K m R" and f: "\<And>a. R a \<Longrightarrow> holds K (f a) G"
  have "passes K (\<lambda>w. K (kern w) \<and> R a) (f a) (\<lambda>r w. K (kern w) \<and> G r)" for a
  proof (cases "R a")
    case True
    from f [OF this] show ?thesis unfolding holds_def by (rule passes_pre) simp
  qed (simp add: passes_def)
  with m show ?thesis unfolding holds_def by (rule passes_bind)
qed

lemma holds_try:
  "holds K m R \<Longrightarrow> (\<And>a. R (Inr a) \<Longrightarrow> holds K (f a) G) \<Longrightarrow> (\<And>e. R (Inl e) \<Longrightarrow> G (Inl e)) \<Longrightarrow> holds K (try_io m f) G"
  unfolding try_io_def by (erule holds_bind) (auto split: sum.split intro: holds_return)

lemma holds_map_err:
  "holds K m (\<lambda>r. case r of Inl e \<Rightarrow> G (Inl (h e)) | Inr a \<Rightarrow> G (Inr a)) \<Longrightarrow> holds K (map_err h m) G"
  unfolding map_err_def by (erule holds_bind) (auto split: sum.splits intro: holds_return)

lemma holds_look: "sheltered E K \<Longrightarrow> (\<And>k. K k \<Longrightarrow> G (f k)) \<Longrightarrow> (\<And>e. G (Inl e)) \<Longrightarrow> holds K (look E f) G"
  unfolding holds_def by (rule passes_look) (auto simp: sheltered_seen)

lemma holds_now: "sheltered E K \<Longrightarrow> (\<And>n. G (clock E n)) \<Longrightarrow> holds K (now E) G"
  unfolding holds_def by (rule passes_now) (auto simp: sheltered_seen)

lemma holds_sleep: "sheltered E K \<Longrightarrow> G () \<Longrightarrow> holds K (sleep E) G"
  unfolding holds_def by (rule passes_sleep) (auto simp: sheltered_seen)

lemma holds_nonce: "sheltered E K \<Longrightarrow> holds K (startup_nonce E) (\<lambda>_. True)"
  unfolding startup_nonce_def
  by (rule holds_bind [where R = "\<lambda>_. True"], simp add: holds_def, rule passes_next_nonce, simp)
    (rule holds_bind [OF holds_now], auto intro: holds_return)

lemma holds_create_new:
  "sheltered E K \<Longrightarrow> (\<And>k. K k \<Longrightarrow> files k p \<noteq> None) \<Longrightarrow> holds K (create_new E p) isl"
  unfolding create_new_def holds_def
  by (rule passes_syscall) (auto simp: k_create_new_def sheltered_seen)

lemma holds_attempts:
  assumes "sheltered E K" and "holds K m (\<lambda>r. \<forall>a. r = Inr a \<longrightarrow> G a)"
  shows "holds K (attempts E n m latest) (\<lambda>r. \<forall>a. r = Inr (Some a) \<longrightarrow> G a)"
proof (induction n arbitrary: latest)
  case 0
  show ?case by (simp add: err_def holds_return)
next
  case (Suc n)
  show ?case
    unfolding attempts.simps
    by (rule holds_bind [OF assms(2)])
      (auto split: sum.split simp: ok_def intro!: holds_return holds_bind [OF holds_sleep [OF assms(1)] Suc.IH])
qed

lemma follow_file: "files k p = Some (File i c t) \<Longrightarrow> follow k p = Some p"
  by (simp add: follow_def numeral_eq_Suc)

text \<open>A record that is there is read as it is, or not at all.\<close>

lemma holds_record:
  assumes "sheltered E K" and there: "\<And>k. K k \<Longrightarrow> files k p = Some (File i c m)"
  shows "holds K (read_lock_bytes E p) (\<lambda>r. \<forall>a. r = Inr (Some a) \<longrightarrow> a = c)"
    and "holds K (lock_mtime E p) (\<lambda>r. \<forall>t. r = Inr (Some t) \<longrightarrow> t = m)"
proof -
  have "holds K (read_to_string E p) (\<lambda>r. \<forall>a. r = Inr a \<longrightarrow> a = c)"
    unfolding read_to_string_def
    by (rule holds_look [OF assms(1)]) (simp_all add: k_read_to_string_def k_read_def k_stat_def follow_file [OF there] there)
  from holds_attempts [OF assms(1) this]
  show "holds K (read_lock_bytes E p) (\<lambda>r. \<forall>a. r = Inr (Some a) \<longrightarrow> a = c)" by (simp add: read_lock_bytes_def)
  have "holds K (modified E p) (\<lambda>r. \<forall>a. r = Inr a \<longrightarrow> a = m)"
    unfolding modified_def
    by (rule holds_look [OF assms(1)]) (simp_all add: k_stat_def follow_file [OF there] there)
  from holds_attempts [OF assms(1) this]
  show "holds K (lock_mtime E p) (\<lambda>r. \<forall>t. r = Inr (Some t) \<longrightarrow> t = m)" by (simp add: lock_mtime_def)
qed

lemma holds_claim_stale:
  assumes "sheltered E K" and "\<And>k. K k \<Longrightarrow> files k p \<noteq> None"
  shows "holds K (claim_stale_startup_lock E p) isl"
  unfolding claim_stale_startup_lock_def
  by (rule holds_bind [OF holds_nonce [OF assms(1)]])
    (rule holds_try [where R = isl], rule holds_map_err, rule holds_weaken [OF holds_create_new [OF assms]],
     auto split: sum.split)

lemma holds_young:
  assumes "sheltered E K" and "\<And>n. clock E n < m + STARTUP_LOCK_STALE"
  shows "holds K (stale_startup_mtime E m) (\<lambda>stale. \<not> stale)"
  unfolding stale_startup_mtime_def
  by (rule holds_bind [where R = "\<lambda>t. t < m + STARTUP_LOCK_STALE"], rule holds_now [OF assms(1)], rule assms(2), rule holds_return)
    arith

lemma holds_acquire:
  assumes guard: "sheltered E K" and there: "\<And>k. K k \<Longrightarrow> files k p = Some (File i c m)"
    and young: "\<And>n. clock E n < m + STARTUP_LOCK_STALE"
  shows "holds K (acquire_startup_lock E p) isl"
proof -
  have claim: "holds K (claim_stale_startup_lock E p) isl" by (rule holds_claim_stale [OF guard]) (simp add: there)
  have busy: "holds K (lift_result (starting p)) isl"
    by (simp add: lift_result_def starting_def bail_def holds_return)
  have young_branch: "holds K (do { stale \<leftarrow> stale_startup_mtime E m;
      if \<not> stale then lift_result (starting p) else f stale }) isl" for f
    by (rule holds_bind [OF holds_young [OF guard young]]) (simp add: busy)
  have reclaim: "holds K (reclaim_and_claim E p raw) isl" for raw
    unfolding reclaim_and_claim_def
  proof (rule holds_bind [OF holds_record(2) [OF guard there]], goal_cases)
    case (2 r)
    then show ?case
    proof (cases r)
      case (Inr t)
      show ?thesis
      proof (cases t)
        case (Some a)
        with 2 Inr have "a = m" by simp
        then show ?thesis unfolding Inr Some sum.case option.case by (simp only:) (rule young_branch)
      qed (simp only: Inr sum.case option.case claim)
    qed (simp only: sum.case busy)
  qed
  have occupied: "holds K (do { raw \<leftarrow> read_lock_bytes E p;
      (case raw of
         Inl _ \<Rightarrow> lift_result (starting p)
       | Inr None \<Rightarrow> claim_stale_startup_lock E p
       | Inr (Some r) \<Rightarrow> reclaim_and_claim E p r) }) isl"
    by (rule holds_bind [OF holds_weaken [OF holds_record(1) [OF guard there], where G' = "\<lambda>_. True"]])
      (auto split: sum.split option.split simp: busy claim reclaim)
  show ?thesis
    unfolding acquire_startup_lock_def
    by (rule holds_bind [OF holds_nonce [OF guard]], rule holds_bind [OF holds_create_new [OF guard]])
      (auto split: sum.splits simp: occupied err_def holds_return there)
qed

text \<open>The node \<open>nd\<close> stays at the path \<open>p\<close>.\<close>

abbreviation stays :: "string \<Rightarrow> node \<Rightarrow> 'a io \<Rightarrow> ('a \<Rightarrow> bool) \<Rightarrow> bool" where
  "stays p nd \<equiv> holds (\<lambda>k. files k p = Some nd)"

lemma calm_sheltered: "calm E {p} \<Longrightarrow> sheltered E (\<lambda>k. files k p = Some nd)"
  by (simp add: sheltered_def calm_in_def)

lemma stays_acquire:
  assumes "calm E {p}" and "\<And>n. clock E n < m + STARTUP_LOCK_STALE"
  shows "stays p (File i c m) (acquire_startup_lock E p) isl"
  by (rule holds_acquire [OF calm_sheltered [OF assms(1)] _ assms(2)])

text \<open>A live starter's lock is never taken. While nobody else touches the record and it is younger
  than five minutes by every clock reading, an attempt to acquire the same name fails, whatever
  errors occur on the way, and the record is there unchanged in every state in between.\<close>

theorem live_startup_lock_respected:
  assumes "calm E {path}" and "files (kern w) path = Some (File i c m)"
    and "\<forall>n. clock E n < m + secs 300"
    and "run_state (acquire_startup_lock E path) w = (r, w')"
  shows "isl r \<and> files (kern w') path = Some (File i c m) \<and>
    (\<exists>new. history w' = history w @ new \<and> (\<forall>k\<in>set new. files k path = Some (File i c m)))"
proof -
  have "stays path (File i c m) (acquire_startup_lock E path) isl"
    using stays_acquire [OF assms(1)] assms(3) by (simp add: STARTUP_LOCK_STALE_def)
  note this [unfolded holds_def]
  from passesD [OF this assms(2,4)] passes_history [OF this assms(2,4)] show ?thesis by blast
qed

theorem live_startup_lock_respected_witness:
  "isl (fst (run_state (acquire_startup_lock ((still_env brace_serde)\<lparr>clock := \<lambda>_. 6\<rparr>) ''/s/x.lock'')
     ((world_of [(''/s/x.lock'', File 1 ''7-1-0'' 5)]))))"
proof -
  have "calm ((still_env brace_serde)\<lparr>clock := \<lambda>_. 6\<rparr>) {''/s/x.lock''}" by (simp add: calm_in_def)
  from live_startup_lock_respected [OF this _ _ surjective_pairing, of _ 1 "''7-1-0''" 5] show ?thesis
    by (simp add: secs_def)
qed

text \<open>What a program ends in, whatever came before.\<close>

definition ends_in :: "'a io \<Rightarrow> ('a \<Rightarrow> world \<Rightarrow> bool) \<Rightarrow> bool" where
  "ends_in m Q = (\<forall>w. Q (fst (run_state m w)) (snd (run_state m w)))"

lemma ends_in_return: "(\<And>w. Q a w) \<Longrightarrow> ends_in (State_Monad.return a) Q"
  by (simp add: ends_in_def)

lemma ends_in_bind: "(\<And>a. ends_in (f a) Q) \<Longrightarrow> ends_in (State_Monad.bind m f) Q"
  by (auto simp: ends_in_def State_Monad.bind_def split: prod.split)

definition names_owner :: "string \<Rightarrow> lock_guard result \<Rightarrow> world \<Rightarrow> bool" where
  "names_owner path r w =
     (case r of Inl _ \<Rightarrow> True
      | Inr g \<Rightarrow> guard_path g = path \<and> valid_utf8 (guard_nonce g) \<and>
          (\<exists>i t. files (kern w) path = Some (File i (guard_nonce g) t)))"

lemma names_owner_simps:
  "names_owner path (Inl e) w"
  "names_owner path (Inr \<lparr>guard_path = p, guard_nonce = n\<rparr>) w \<longleftrightarrow>
     p = path \<and> valid_utf8 n \<and> (\<exists>i t. files (kern w) path = Some (File i n t))"
  by (simp_all add: names_owner_def)

lemma nonce_text_utf8: "valid_utf8 (nonce_text p t n)"
proof (rule valid_utf8_ascii)
  fix c assume "c \<in> set (nonce_text p t n)"
  then have "c = CHR ''-'' \<or> is_ascii_digit c" by (auto simp: nonce_text_def dest: show_nat_digits)
  then show "code c < 128" by (auto simp: is_ascii_digit_def code_def)
qed

lemma claim_names_owner:
  assumes "calm E {path}"
  shows "ends_in (do { nonce \<leftarrow> startup_nonce E;
     try_io (map_err h (create_new E path)) (\<lambda>f.
     try_io (map_err h' (write_lock_record E f path nonce)) (\<lambda>_.
     ok \<lparr>guard_path = path, guard_nonce = nonce\<rparr>)) }) (names_owner path)"
  using assms
  by (auto simp: ends_in_def startup_nonce_def State_Monad.bind_def names_owner_def create_new_def k_create_new_def
      k_create_def write_lock_record_def remove_file_def append_ino_self put_node_def nonce_text_utf8
      split: option.split prod.split sum.split)

lemma ends_in_err: "ends_in (err e) (names_owner path)"
  and ends_in_starting: "ends_in (lift_result (starting path')) (names_owner path)"
  by (simp_all add: ends_in_def names_owner_def starting_def bail_def)

lemma claim_stale_names_owner: "calm E {path} \<Longrightarrow> ends_in (claim_stale_startup_lock E path) (names_owner path)"
  unfolding claim_stale_startup_lock_def by (rule claim_names_owner)

lemma reclaim_names_owner:
  assumes "calm E {path}"
  shows "ends_in (reclaim_and_claim E path raw) (names_owner path)"
  unfolding reclaim_and_claim_def
  by (rule ends_in_bind)
    (auto split: sum.split option.split intro!: ends_in_bind ends_in_starting claim_stale_names_owner [OF assms])

lemma acquire_names_owner:
  assumes "calm E {path}"
  shows "ends_in (acquire_startup_lock E path) (names_owner path)"
proof -
  have first: "ends_in (do { nonce \<leftarrow> startup_nonce E; f \<leftarrow> create_new E path;
      (case f of
        Inr f \<Rightarrow>
          try_io (map_err (cannot_write_lock ''startup'') (write_lock_record E f path nonce)) (\<lambda>_.
          ok \<lparr>guard_path = path, guard_nonce = nonce\<rparr>)
      | Inl e \<Rightarrow> m e) }) (names_owner path)" if "\<And>e. ends_in (m e) (names_owner path)" for m
    using that assms unfolding ends_in_def
    by (auto simp: startup_nonce_def State_Monad.bind_def create_new_def k_create_new_def
        k_create_def write_lock_record_def remove_file_def append_ino_self put_node_def nonce_text_utf8
        names_owner_simps split: option.split prod.split sum.split)
  show ?thesis
    unfolding acquire_startup_lock_def
    by (rule first)
      (auto split: sum.split option.split
        intro!: ends_in_bind ends_in_err ends_in_starting claim_stale_names_owner [OF assms] reclaim_names_owner [OF assms])
qed

text \<open>Acquiring and releasing a name round-trip: an acquired guard is for the path asked for and its nonce
  is what the file holds, and releasing it, if no error intervenes, frees the path, as long as the
  others leave the path alone.\<close>

theorem startup_lock_cycle:
  assumes "calm E {path}"
    and "run_state (acquire_startup_lock E path) w = (Inr g, w1)"
    and "run_state (release_startup_lock E (guard_path g) (guard_nonce g)) w1 = (u, w2)"
    and "fault E (calls w1) = None" "fault E (Suc (calls w1)) = None"
  shows "guard_path g = path \<and> (\<exists>i t. files (kern w1) path = Some (File i (guard_nonce g) t)) \<and>
    files (kern w2) path = None"
proof -
  from acquire_names_owner [OF assms(1), unfolded ends_in_def, rule_format, of w] assms(2)
  obtain i t where own: "guard_path g = path" "valid_utf8 (guard_nonce g)"
      "files (kern w1) path = Some (File i (guard_nonce g) t)"
    by (auto simp: names_owner_def)
  from assms(1) own(3) have "files (seen E w1) path = Some (File i (guard_nonce g) t)" by simp
  then have "k_read_to_string path (seen E w1) = Inr (guard_nonce g)"
    using own(2) by (simp add: k_read_to_string_def k_read_def k_stat_def follow_file)
  with assms own show ?thesis
    by (auto simp: release_startup_lock_def startup_lock_is_mine_def read_to_string_def State_Monad.bind_def
        remove_file_def k_remove_file_def put_node_def)
qed

theorem startup_lock_cycle_witness:
  "\<exists>g w1. run_state (acquire_startup_lock (still_env brace_serde) ''/s/x.lock'') (world_of [(''/s'', Dir 0)]) = (Inr g, w1) \<and>
     files (kern (snd (run_state (release_startup_lock (still_env brace_serde) (guard_path g) (guard_nonce g)) w1))) ''/s/x.lock'' = None"
proof -
  let ?E = "still_env brace_serde" and ?w = "world_of [(''/s'', Dir 0)]"
  have "parent_ok (kern ?w) ''/s/x.lock''"
    by (simp add: parent_ok_def parent_of_def follow_def numeral_eq_Suc)
  then obtain g w1 where run: "run_state (acquire_startup_lock ?E ''/s/x.lock'') ?w = (Inr g, w1)"
    by (simp add: acquire_startup_lock_def startup_nonce_def State_Monad.bind_def create_new_def k_create_new_def
        k_create_def write_lock_record_def parent_ok_def follow_def)
  from startup_lock_cycle [OF calm_still run surjective_pairing] run show ?thesis by auto
qed

definition rival_after_read :: env where
  "rival_after_read = (still_env brace_serde)\<lparr>interfere :=
     \<lambda>n k. if n = 1 then put_node ''/s/x.lock'' (Some (File 9 ''rival'' 400)) k else k\<rparr>"

text \<open>Releasing is a read followed by an unlink of whatever is there then: if the record was reclaimed
  and the name claimed again in between, the release deletes the new owner's record.\<close>

theorem release_unlinks_rival:
  "(let w' = snd (run_state (release_startup_lock rival_after_read ''/s/x.lock'' ''7-1-0'')
       (world_of [(''/s/x.lock'', File 1 ''7-1-0'' 5)])) in
    files (kern w') ''/s/x.lock'' = None \<and>
    (\<exists>k\<in>set (history w'). files k ''/s/x.lock'' = Some (File 9 ''rival'' 400)))"
proof -
  have "valid_utf8 ''7-1-0''" by (rule valid_utf8_ascii) (auto simp: code_def)
  then show ?thesis
    by (simp add: rival_after_read_def release_startup_lock_def startup_lock_is_mine_def read_to_string_def
        State_Monad.bind_def seen_def k_read_to_string_def k_read_def k_stat_def follow_file remove_file_def
        k_remove_file_def put_node_def del: valid_utf8.simps)
qed

section \<open>Stale endpoint locks\<close>

text \<open>An endpoint lock reads as stale exactly when its record is not dated in the future and is two
  hours old, or past its ten seconds of grace with a recorded holder whose process is provably
  gone; a missing or malformed pid, or a failed probe, keeps the lock.\<close>

theorem stale_endpoint_iff:
  "fst (run_state (lock_snapshot_is_stale E raw mtime) w) \<longleftrightarrow>
   (let t = clock E (calls w) in
    mtime \<le> t \<and> (secs 7200 \<le> t - mtime \<or>
      secs 10 \<le> t - mtime \<and> (\<exists>pid. record_pid E raw = Some pid \<and>
        (case fault E (Suc (calls w)) of
           Some e \<Rightarrow> io_kind e = NotFound
         | None \<Rightarrow> files (seen E (moved E w)) (''/proc/'' @ show_nat (unat pid)) = None))))"
proof -
  have lstat: "(case k_lstat p k of Inl e \<Rightarrow> io_kind e = NotFound | Inr _ \<Rightarrow> False) \<longleftrightarrow> files k p = None" for p k
    by (simp add: k_lstat_def split: option.split)
  have "(case k_lstat p k of Inl e \<Rightarrow> (if io_kind e = NotFound then Dead else Unknown) | Inr TDir \<Rightarrow> Alive | Inr _ \<Rightarrow> Unknown) = Dead \<longleftrightarrow>
      files k p = None" for p k
    by (auto simp: k_lstat_def split: option.split file_type.split)
  then show ?thesis
    by (auto simp: lock_snapshot_is_stale_by_def State_Monad.bind_def holder_alive_def symlink_metadata_def Let_def
        ENDPOINT_LOCK_STALE_def ENDPOINT_LOCK_GRACE_def not_le not_less split: option.splits)
qed

section \<open>The quarantine\<close>

lemma parent_of_child:
  assumes "CHR ''/'' \<notin> set n"
  shows "parent_of (d @ ''/'' @ n) = Some d"
proof -
  have "dropWhile (\<lambda>c. c \<noteq> CHR ''/'') (rev n @ CHR ''/'' # rev d) = CHR ''/'' # rev d"
    using assms by (intro dropWhile_append_stop) auto
  then show ?thesis by (simp add: parent_of_def)
qed

lemma parent_ok_dir: "parent_of p = Some d \<Longrightarrow> files k d = Some (Dir t) \<Longrightarrow> parent_ok k p"
  by (simp add: parent_ok_def follow_def numeral_eq_Suc)

definition claim_before_rename :: env where
  "claim_before_rename = (still_env brace_serde)\<lparr>
     interfere := \<lambda>n k. if n = 2 then put_node ''/s/x.lock'' (Some (File 9 ''fresh'' 400)) k else k,
     fault := \<lambda>n. if n = 3 then Some (os OtherKind) else None\<rparr>"

text \<open>A record claimed between the verification and the detaching rename is lost when the read of the
  quarantined file fails: the transfer reports success, having dropped the fresh claim.\<close>

theorem quarantine_drops_fresh:
  "(case run_state (quarantine_verified claim_before_rename ''/s/x.lock'' ''stale'')
       (world_of [(''/s'', Dir 0), (''/s/x.lock'', File 1 ''stale'' 5)]) of
     (r, w') \<Rightarrow> r \<and> (\<forall>p. \<not> is_file (files (kern w') p)) \<and>
       (\<exists>k\<in>set (history w'). files k ''/s/x.lock'' = Some (File 9 ''fresh'' 400)))"
proof -
  define q where "q = with_file_name ''/s/x.lock'' (quarantine_name 42 (nonce_text 42 (Suc 0) 0))"
  have utf8: "valid_utf8 ''stale''" by (rule valid_utf8_ascii) (auto simp: code_def)
  have free: "CHR ''/'' \<notin> set (quarantine_name 42 (nonce_text 42 (Suc 0) 0))"
    using show_nat_digits [of "CHR ''/''"]
    by (auto simp: quarantine_name_def nonce_text_def is_ascii_digit_def code_def)
  have q: "q = ''/s'' @ ''/'' @ quarantine_name 42 (nonce_text 42 (Suc 0) 0)"
    by (simp add: q_def with_file_name_def parent_of_def path_join_def starts_with_def quarantine_name_def)
  have "parent_of q = Some ''/s''"
    unfolding q using free by (rule parent_of_child)
  moreover have "q \<noteq> ''/s''" "q \<noteq> ''/s/x.lock''"
    by (simp_all add: q quarantine_name_def)
  ultimately show ?thesis
    using utf8
    by (simp add: claim_before_rename_def quarantine_verified_def read_lock_bytes_def read_to_string_def numeral_3_eq_3
        State_Monad.bind_def seen_def k_read_to_string_def k_read_def k_stat_def follow_file
        detach_to_quarantine_def startup_nonce_def rename_def k_rename_def reconcile_quarantine_def remove_file_def Let_def
        k_remove_file_def put_node_def parent_ok_dir q_def [symmetric] del: valid_utf8.simps)
qed

section \<open>A name that is another's lock\<close>

text \<open>The lock of a name lives among the session directories, under a name that is itself a valid
  session name.\<close>

lemma lock_is_a_session_name:
  assumes "plain_segment name"
  shows "check_name (name @ ''.lock'') = Inr () \<and>
    path_join root (name @ ''.lock'') = startup_lock_path root name"
proof -
  have "plain_segment (name @ ''.lock'')"
    using assms by (auto simp: plain_segment_def append_eq_Cons_conv)
  then show ?thesis by (simp add: check_name_plain startup_lock_path_def)
qed

text \<open>And so a session of that name is in the way: while its directory is there, no attempt to acquire the
  lock of \<open>name\<close> succeeds, however long ago either was started.\<close>

lemma lock_named_session_blocks:
  assumes "sheltered E (\<lambda>k. is_dir (files k (path_join root (name @ ''.lock''))))"
    and "is_dir (files (kern w) (path_join root (name @ ''.lock'')))"
    and "run_state (acquire_startup_lock E (startup_lock_path root name)) w = (r, w')"
  shows "isl r \<and> is_dir (files (kern w') (path_join root (name @ ''.lock'')))"
proof -
  let ?p = "startup_lock_path root name" and ?K = "\<lambda>k. is_dir (files k (startup_lock_path root name))"
  have guard: "sheltered E ?K" using assms(1) by (simp add: startup_lock_path_def)
  have there: "files k ?p \<noteq> None" if "?K k" for k using that by (cases "files k ?p") auto
  have dir: "k_read_to_string ?p k = Inl (os IsADirectory)" if "?K k" for k
    using that by (cases "files k ?p" rule: is_dir.cases)
      (auto simp: k_read_to_string_def k_read_def k_stat_def follow_def numeral_eq_Suc)
  have "holds ?K (read_to_string E ?p) (\<lambda>r. \<forall>a. r = Inr a \<longrightarrow> False)"
    unfolding read_to_string_def by (rule holds_look [OF guard]) (simp_all add: dir)
  from holds_attempts [OF guard this]
  have unread: "holds ?K (read_lock_bytes E ?p) (\<lambda>r. \<forall>a. r \<noteq> Inr (Some a))" by (simp add: read_lock_bytes_def)
  have occupied: "holds ?K (do { raw \<leftarrow> read_lock_bytes E ?p;
      (case raw of
         Inl _ \<Rightarrow> lift_result (starting ?p)
       | Inr None \<Rightarrow> claim_stale_startup_lock E ?p
       | Inr (Some r) \<Rightarrow> reclaim_and_claim E ?p r) }) isl"
    by (rule holds_bind [OF unread])
      (auto split: sum.split option.split intro!: holds_claim_stale [OF guard there] simp: lift_result_def starting_def bail_def holds_return)
  have "holds ?K (acquire_startup_lock E ?p) isl"
    unfolding acquire_startup_lock_def
    by (rule holds_bind [OF holds_nonce [OF guard]], rule holds_bind [OF holds_create_new [OF guard there]])
      (auto split: sum.splits simp: occupied err_def holds_return)
  from passesD [OF this [unfolded holds_def] _ assms(3)] assms(2) show ?thesis by (simp add: startup_lock_path_def)
qed
end
