(* ===== verification/Polling.thy ===== *)
theory Polling
  imports Hoare
begin

text \<open>
  Loops that poll until a deadline. Each is written with fuel where the code loops without a bound;
  the locale says once why the fuel is enough: a pass that finds the deadline passed ends the loop, and
  each pass takes at least the poll interval, so only so many passes fit.
\<close>

text \<open>The clock, read every \<open>stride\<close> calls from \<open>first\<close> on, advances by \<open>poll\<close> each time.\<close>

definition ticks :: "env \<Rightarrow> nat \<Rightarrow> nat \<Rightarrow> nat \<Rightarrow> nat \<Rightarrow> bool" where
  "ticks E first stride t poll = (\<forall>j. t + j * poll \<le> clock E (first + stride * j))"

lemma ticksD: "ticks E first stride t poll \<Longrightarrow> t + j * poll \<le> clock E (first + stride * j)"
  by (simp add: ticks_def)

lemma ticks_start: "ticks E first stride t poll \<Longrightarrow> t \<le> clock E first"
  using ticksD [of E first stride t poll 0] by simp

lemma ticks_later: "ticks E first stride t poll \<Longrightarrow> ticks E (first + stride) stride (t + poll) poll"
proof -
  assume "ticks E first stride t poll"
  from ticksD [OF this] show ?thesis
    unfolding ticks_def by (metis add.assoc add.commute mult_Suc mult_Suc_right)
qed

text \<open>
  One pass answers, or \<open>None\<close> to go on; it reads the clock \<open>reading\<close> calls after its start, and a pass
  that goes on makes \<open>stride\<close> calls.
\<close>

locale polling =
  fixes E :: env and deadline reading stride :: nat and loop :: "nat \<Rightarrow> 'a io" and body :: "'a option io"
  assumes unfold: "run_state (loop (Suc n)) w =
      (case run_state body w of (Some a, w') \<Rightarrow> (a, w') | (None, w') \<Rightarrow> run_state (loop n) w')"
    and late: "deadline \<le> clock E (calls w + reading) \<Longrightarrow> fst (run_state body w) \<noteq> None"
    and calls: "run_state body w = (None, w') \<Longrightarrow> calls w' = calls w + stride"
begin

lemma fuel:
  assumes "ticks E (calls w + reading) stride t poll" and "deadline \<le> t + n * poll" and "n < m"
  shows "run_state (loop m) w = run_state (loop (Suc n)) w"
  using assms
proof (induction n arbitrary: w t m)
  case 0
  then obtain m' where m: "m = Suc m'" by (cases m) auto
  obtain a w' where "run_state body w = (Some a, w')"
    using late [of w] ticks_start [OF 0(1)] 0(2) by (cases "run_state body w") auto
  then show ?case by (simp add: m unfold)
next
  case (Suc n)
  then obtain m' where m: "m = Suc m'" "n < m'" by (cases m) auto
  obtain r w' where body: "run_state body w = (r, w')" by fastforce
  show ?case
  proof (cases r)
    case None
    with body have "calls w' = calls w + stride" by (simp add: calls)
    then have "ticks E (calls w' + reading) stride (t + poll) poll"
      using ticks_later [OF Suc.prems(1)] by (simp add: ac_simps)
    from Suc.IH [OF this _ m(2)] Suc.prems(2) show ?thesis
      unfolding m(1) unfold [of m'] unfold [of "Suc n"] by (simp add: body None ac_simps)
  qed (simp add: m(1) unfold body)
qed

text \<open>The same for the fuel a caller passes.\<close>

lemma enough_fuel:
  assumes "ticks E (calls w + reading) stride t poll" and "deadline \<le> t + n * poll" and "n < m" and "n < m'"
  shows "run_state (loop m) w = run_state (loop m') w"
  using fuel [OF assms(1,2,3)] fuel [OF assms(1,2,4)] by simp

end

end
