(* ===== verification/Flock.thy ===== *)
theory Flock
  imports Forward Polling
begin

text \<open>
  Kernel file locks as \<open>session/breaks.rs\<close> and \<open>bridge.rs\<close> use them: a handle is an inode and a
  descriptor, \<open>try_lock\<close> gives the inode to one descriptor, and closing the handle (or dying)
  releases it. The waiting loop polls until a deadline; its fuel is justified at the end.
\<close>

section \<open>Handles and locks\<close>

type_synonym handle = "nat \<times> nat"

definition k_open_handle :: "string \<Rightarrow> nat \<Rightarrow> kern \<Rightarrow> (io_error + handle) \<times> kern" where
  "k_open_handle p t k =
     (case k_open_create p t k of
        (Inl e, k') \<Rightarrow> (Inl e, k')
      | (Inr i, k') \<Rightarrow> (Inr (i, next_fd k'), k'\<lparr>next_fd := Suc (next_fd k')\<rparr>))"

definition k_try_lock :: "handle \<Rightarrow> kern \<Rightarrow> (io_error + unit) \<times> kern" where
  "k_try_lock h k =
     (case flocks k (fst h) of
        None \<Rightarrow> (Inr (), k\<lparr>flocks := (flocks k)(fst h := Some (snd h))\<rparr>)
      | Some fd \<Rightarrow> if fd = snd h then (Inr (), k) else (Inl (os WouldBlock), k))"

definition holds_lock :: "handle \<Rightarrow> kern \<Rightarrow> bool" where
  "holds_lock h k = (flocks k (fst h) = Some (snd h))"

definition k_close :: "handle \<Rightarrow> kern \<Rightarrow> kern" where
  "k_close h k = (if holds_lock h k then k\<lparr>flocks := (flocks k)(fst h := None)\<rparr> else k)"

definition open_handle :: "env \<Rightarrow> string \<Rightarrow> (io_error + handle) io" where
  "open_handle E p = syscall E (k_open_handle p)"

text \<open>\<open>file.metadata().map(is_file).unwrap_or(false)\<close> on a handle that opened: a regular file.\<close>

definition handle_is_file :: "env \<Rightarrow> handle \<Rightarrow> bool io" where
  "handle_is_file E h = do {
     r \<leftarrow> look E (\<lambda>k. Inr ());
     State_Monad.return (case r of Inl _ \<Rightarrow> False | Inr _ \<Rightarrow> True)
   }"

definition try_lock :: "env \<Rightarrow> handle \<Rightarrow> (io_error + unit) io" where
  "try_lock E h = syscall E (\<lambda>t k. k_try_lock h k)"

text \<open>Dropping a handle cannot fail.\<close>

definition close_handle :: "env \<Rightarrow> handle \<Rightarrow> unit io" where
  "close_handle E h = State (\<lambda>w. ((), changed E (k_close h (seen E w)) w))"

lemma run_close_handle [simp]:
  "run_state (close_handle E h) w = ((), changed E (k_close h (seen E w)) w)"
  by (simp add: close_handle_def)

text \<open>The polling loop; on every error the handle is dropped.\<close>

fun poll_lock :: "env \<Rightarrow> nat \<Rightarrow> handle \<Rightarrow> nat \<Rightarrow> string \<Rightarrow> (io_error \<Rightarrow> string) \<Rightarrow> (handle result) io" where
  "poll_lock E 0 h deadline busy failed = do { _ \<leftarrow> close_handle E h; err (Msg busy) }"
| "poll_lock E (Suc polls) h deadline busy failed = do {
     r \<leftarrow> try_lock E h;
     (case r of
        Inr _ \<Rightarrow> ok h
      | Inl e \<Rightarrow>
          if io_kind e = WouldBlock then do {
            t \<leftarrow> now E;
            if deadline \<le> t then do { _ \<leftarrow> close_handle E h; err (Msg busy) }
            else do { _ \<leftarrow> sleep E; poll_lock E polls h deadline busy failed }
          }
          else do { _ \<leftarrow> close_handle E h; err (Msg (failed e)) })
   }"

text \<open>A body that runs while the guard lives.\<close>

definition guarded :: "env \<Rightarrow> handle \<Rightarrow> 'a io \<Rightarrow> 'a io" where
  "guarded E h m = do { r \<leftarrow> m; _ \<leftarrow> close_handle E h; State_Monad.return r }"

section \<open>Exclusion\<close>

text \<open>
  What a client of a lock relies on: taking it makes you the holder, is refused while another
  handle of the same file holds it, and neither taking nor dropping touches another holder.
  Whatever sequence of takes and drops the processes make, one file has at most one holder.
\<close>

datatype 'h lock_op = Take 'h | Drop 'h

locale exclusive_lock =
  fixes held :: "'h \<Rightarrow> 's \<Rightarrow> bool"
    and take_lock :: "'h \<Rightarrow> 's \<Rightarrow> bool \<times> 's"
    and drop_lock :: "'h \<Rightarrow> 's \<Rightarrow> 's"
    and same :: "'h \<Rightarrow> 'h \<Rightarrow> bool"
  assumes take_holds: "take_lock h s = (True, s') \<Longrightarrow> held h s'"
    and take_refused: "take_lock h s = (False, s') \<Longrightarrow> s' = s"
    and take_exclusive: "held h' s \<Longrightarrow> same h h' \<Longrightarrow> h \<noteq> h' \<Longrightarrow> \<not> fst (take_lock h s)"
    and take_others: "take_lock h s = (True, s') \<Longrightarrow> h' \<noteq> h \<Longrightarrow> held h' s' \<Longrightarrow> held h' s"
    and take_keeps: "take_lock h s = (True, s') \<Longrightarrow> held h' s \<Longrightarrow> held h' s'"
    and drop_releases: "held h' (drop_lock h s) \<longleftrightarrow> held h' s \<and> h' \<noteq> h"
    and same_sym: "same h h' \<Longrightarrow> same h' h"
begin

fun lock_step :: "'h lock_op \<Rightarrow> 's \<Rightarrow> 's" where
  "lock_step (Take h) s = snd (take_lock h s)"
| "lock_step (Drop h) s = drop_lock h s"

definition exclusive :: "'s \<Rightarrow> bool" where
  "exclusive s = (\<forall>h h'. held h s \<longrightarrow> held h' s \<longrightarrow> same h h' \<longrightarrow> h = h')"

lemma exclusive_step: "exclusive s \<Longrightarrow> exclusive (lock_step x s)"
proof (cases x)
  case (Take h)
  assume ex: "exclusive s"
  obtain b s' where t: "take_lock h s = (b, s')" by fastforce
  show ?thesis
  proof (cases b)
    case True
    with t have take: "take_lock h s = (True, s')" by simp
    have no: "\<not> held h' s" if "same h h'" "h \<noteq> h'" for h'
      using take_exclusive [of h' s h] that take by auto
    show ?thesis
      unfolding exclusive_def Take lock_step.simps take snd_conv
    proof (intro allI impI)
      fix a b assume ab: "held a s'" "held b s'" "same a b"
      show "a = b"
      proof (rule ccontr)
        assume "a \<noteq> b"
        moreover have "held a s" if "a \<noteq> h" using take_others [OF take that ab(1)] .
        moreover have "held b s" if "b \<noteq> h" using take_others [OF take that ab(2)] .
        ultimately show False
          using ab(3) ex no [of a] no [of b] same_sym by (auto simp: exclusive_def)
      qed
    qed
  next
    case False
    with t take_refused [of h s s'] ex show ?thesis by (simp add: Take)
  qed
next
  case (Drop h)
  assume "exclusive s"
  with Drop show ?thesis by (simp add: exclusive_def drop_releases)
qed

lemma exclusive_run: "exclusive s \<Longrightarrow> exclusive (fold lock_step ops s)"
  by (induction ops arbitrary: s) (simp_all add: exclusive_step)

lemma holder_stays:
  "held h s \<Longrightarrow> Drop h \<notin> set ops \<Longrightarrow> held h (fold lock_step ops s)"
proof (induction ops arbitrary: s)
  case (Cons x ops)
  have "held h (lock_step x s)"
  proof (cases x)
    case (Take h')
    obtain b s' where t: "take_lock h' s = (b, s')" by fastforce
    with Take Cons.prems(1) show ?thesis
      using take_keeps [of h' s s' h] take_refused [of h' s s'] by (cases b) auto
  next
    case (Drop h')
    then show ?thesis using Cons.prems by (auto simp: drop_releases)
  qed
  with Cons show ?case by simp
qed simp

end

definition take_flock :: "handle \<Rightarrow> kern \<Rightarrow> bool \<times> kern" where
  "take_flock h k = (case k_try_lock h k of (Inr _, k') \<Rightarrow> (True, k') | (Inl _, k') \<Rightarrow> (False, k'))"

interpretation flock: exclusive_lock holds_lock take_flock k_close "\<lambda>h h'. fst h = fst h'"
  by unfold_locales
    (auto simp: take_flock_def k_try_lock_def holds_lock_def k_close_def prod_eq_iff
      split: option.splits if_splits)

text \<open>A kernel lock has one holder: from a state where it has, no sequence of claims and releases
  by any processes gives one file two holders, and a holder that does not release keeps it.\<close>

theorem flock_exclusive:
  assumes "\<forall>a b. holds_lock a k \<longrightarrow> holds_lock b k \<longrightarrow> fst a = fst b \<longrightarrow> a = b"
    and "holds_lock h k" and "Drop h \<notin> set ops" and "fst h' = fst h" and "h' \<noteq> h"
  shows "holds_lock h (fold flock.lock_step ops k) \<and> \<not> holds_lock h' (fold flock.lock_step ops k) \<and>
    \<not> fst (take_flock h' (fold flock.lock_step ops k))"
proof -
  have "flock.exclusive k" using assms(1) by (simp add: flock.exclusive_def)
  then have ex: "flock.exclusive (fold flock.lock_step ops k)" by (rule flock.exclusive_run)
  have held: "holds_lock h (fold flock.lock_step ops k)"
    using assms(2,3) by (rule flock.holder_stays)
  with ex assms(4,5) have "\<not> holds_lock h' (fold flock.lock_step ops k)"
    unfolding flock.exclusive_def by blast
  with held assms(4,5) flock.take_exclusive [OF held, of h'] show ?thesis by simp
qed

theorem flock_exclusive_witness:
  "holds_lock (7, 1) ((kern (world_of []))\<lparr>flocks := [7 \<mapsto> 1]\<rparr>) \<and>
   \<not> holds_lock (7, 2) (fold flock.lock_step [Take (7, 2)] ((kern (world_of []))\<lparr>flocks := [7 \<mapsto> 1]\<rparr>))"
proof -
  let ?k = "(kern (world_of []))\<lparr>flocks := [7 \<mapsto> 1]\<rparr>"
  have h: "holds_lock (7, 1) ?k" by (simp add: holds_lock_def)
  from flock_exclusive [OF _ h, of "[Take (7, 2)]" "(7, 2)"] h show ?thesis
    by (auto simp: holds_lock_def split: if_splits)
qed

section \<open>Waiting\<close>

text \<open>
  With a clock on which every pass of the loop takes at least the poll interval, the fuel never
  runs out: beyond the number of polls that fit before the deadline, more of it changes nothing.
\<close>

definition paced :: "env \<Rightarrow> nat \<Rightarrow> nat \<Rightarrow> nat \<Rightarrow> bool" where
  "paced E first t poll = (\<forall>j. t + j * poll \<le> clock E (first + 3 * j + 1))"

lemma paced_ticks: "paced E first t poll \<Longrightarrow> ticks E (Suc first) 3 t poll"
  by (simp add: paced_def ticks_def)

definition try_pass :: "env \<Rightarrow> handle \<Rightarrow> nat \<Rightarrow> string \<Rightarrow> (io_error \<Rightarrow> string) \<Rightarrow> (handle result option) io" where
  "try_pass E h deadline busy failed = do {
     r \<leftarrow> try_lock E h;
     (case r of
        Inr _ \<Rightarrow> State_Monad.return (Some (Inr h))
      | Inl e \<Rightarrow>
          if io_kind e = WouldBlock then do {
            t \<leftarrow> now E;
            if deadline \<le> t then do { _ \<leftarrow> close_handle E h; State_Monad.return (Some (Inl (Msg busy))) }
            else do { _ \<leftarrow> sleep E; State_Monad.return None }
          }
          else do { _ \<leftarrow> close_handle E h; State_Monad.return (Some (Inl (Msg (failed e)))) })
   }"


interpretation lock_poll: polling E deadline 1 3 "\<lambda>n. poll_lock E n h deadline busy failed" "try_pass E h deadline busy failed"
  for E h deadline busy failed
  by unfold_locales
    (auto simp: try_pass_def try_lock_def State_Monad.bind_def split: option.splits sum.splits prod.splits if_splits)

lemma poll_lock_fuel:
  assumes "paced E (calls w) t poll" and "deadline \<le> t + n * poll" and "n < m"
  shows "run_state (poll_lock E m h deadline busy failed) w =
    run_state (poll_lock E (Suc n) h deadline busy failed) w"
  using lock_poll.fuel [of E w t poll deadline n m h busy failed] paced_ticks [OF assms(1)] assms(2,3) by simp

lemma passes_poll_lock:
  assumes stable: "\<And>n k. I k \<Longrightarrow> I (interfere E n k)" and fl: "\<And>k f. I (k\<lparr>flocks := f\<rparr>) = I k"
  shows "passes (\<lambda>_. True) (\<lambda>w. I (kern w)) (poll_lock E n h deadline busy failed)
    (\<lambda>r w. I (kern w) \<and> (case r of Inl _ \<Rightarrow> True | Inr h' \<Rightarrow> h' = h \<and> holds_lock h (kern w)))"
proof (induction n)
  have seen: "I (kern w) \<Longrightarrow> I (seen E w)" for w using stable by (simp add: seen_def)
  have close: "passes (\<lambda>_. True) (\<lambda>w. I (kern w)) (do { _ \<leftarrow> close_handle E h; err (Msg m) })
      (\<lambda>r w. I (kern w) \<and> (case r of Inl _ \<Rightarrow> True | Inr h' \<Rightarrow> h' = h \<and> holds_lock h (kern w)))" for m
    by (rule passesI) (auto simp: State_Monad.bind_def k_close_def seen fl)
  {
    case 0
    show ?case using close by simp
  next
    case (Suc n)
    have try_it: "passes (\<lambda>_. True) (\<lambda>w. I (kern w)) (try_lock E h)
        (\<lambda>r w. I (kern w) \<and> (case r of Inl _ \<Rightarrow> True | Inr _ \<Rightarrow> holds_lock h (kern w)))"
      unfolding try_lock_def
      by (rule passes_syscall) (auto simp: seen k_try_lock_def holds_lock_def fl split: option.splits)
    have wait: "passes (\<lambda>_. True) (\<lambda>w. I (kern w)) (do {
          t \<leftarrow> now E;
          if deadline \<le> t then do { _ \<leftarrow> close_handle E h; err (Msg busy) }
          else do { _ \<leftarrow> sleep E; poll_lock E n h deadline busy failed } })
        (\<lambda>r w. I (kern w) \<and> (case r of Inl _ \<Rightarrow> True | Inr h' \<Rightarrow> h' = h \<and> holds_lock h (kern w)))"
      by (rule passes_bind [where R = "\<lambda>_ w. I (kern w)"], rule passes_now, simp add: seen,
          rule passes_if, rule close, rule passes_bind [where R = "\<lambda>_ w. I (kern w)"],
          rule passes_sleep, simp add: seen, rule Suc)
    show ?case
      unfolding poll_lock.simps
    proof (rule passes_bind [OF try_it])
      fix r :: "io_error + unit"
      show "passes (\<lambda>_. True) (\<lambda>w. I (kern w) \<and> (case r of Inl _ \<Rightarrow> True | Inr _ \<Rightarrow> holds_lock h (kern w)))
          (case r of Inl e \<Rightarrow> if io_kind e = WouldBlock then do {
              t \<leftarrow> now E;
              if deadline \<le> t then do { _ \<leftarrow> close_handle E h; err (Msg busy) }
              else do { _ \<leftarrow> sleep E; poll_lock E n h deadline busy failed } }
            else do { _ \<leftarrow> close_handle E h; err (Msg (failed e)) }
           | Inr _ \<Rightarrow> ok h)
          (\<lambda>r w. I (kern w) \<and> (case r of Inl _ \<Rightarrow> True | Inr h' \<Rightarrow> h' = h \<and> holds_lock h (kern w)))"
        by (cases r) (auto intro!: passes_if passes_pre [OF wait] passes_pre [OF close] passes_ok)
    qed
  }
qed

end
