(* ===== verification/Breaks.thy ===== *)
theory Breaks
  imports Flock
begin

text \<open>
  \<open>src/session/breaks.rs\<close>: adding, removing and clearing live breakpoints, and the persistence of
  what the bridge confirmed in \<open>stops.json\<close> under the \<open>breaks.lock\<close> file lock.
\<close>

section \<open>The lock\<close>

definition breaks_lock_path :: "string \<Rightarrow> string" where
  "breaks_lock_path dir = path_join dir ''breaks.lock''"

definition BREAKS_LOCK_WAIT :: nat where "BREAKS_LOCK_WAIT = millis 2000"
definition BREAKS_LOCK_POLL :: nat where "BREAKS_LOCK_POLL = millis 5"

text \<open>As many polls as fit in the wait, and one.\<close>

definition BREAKS_LOCK_POLLS :: nat where
  "BREAKS_LOCK_POLLS = 401"

definition breaks_lock_regular :: "string \<Rightarrow> string" where
  "breaks_lock_regular path = ''breaks lock must be a regular file: '' @ path"

definition check_breaks_lock :: "env \<Rightarrow> string \<Rightarrow> (unit result) io" where
  "check_breaks_lock E path = do {
     m \<leftarrow> symlink_metadata E path;
     State_Monad.return (case m of
         Inr TLink \<Rightarrow> bail (''breaks lock must not be a symlink: '' @ path)
       | Inr TFile \<Rightarrow> Inr ()
       | Inr _ \<Rightarrow> bail (breaks_lock_regular path)
       | Inl e \<Rightarrow> if io_kind e = NotFound then Inr ()
           else bail (''cannot stat breaks lock '' @ path @ '': '' @ io_text e))
   }"

definition acquire_breaks_lock_polls :: "nat \<Rightarrow> env \<Rightarrow> string \<Rightarrow> (handle result) io" where
  "acquire_breaks_lock_polls polls E dir =
     (let path = breaks_lock_path dir in
      try_io (check_breaks_lock E path) (\<lambda>_.
      try_io (map_err (\<lambda>e. Msg (''cannot open breaks lock '' @ path @ '': '' @ io_text e)) (open_handle E path)) (\<lambda>h. do {
        regular \<leftarrow> handle_is_file E h;
        if \<not> regular then do { _ \<leftarrow> close_handle E h; err (Msg (breaks_lock_regular path)) }
        else do {
          t \<leftarrow> now E;
          poll_lock E polls h (t + BREAKS_LOCK_WAIT) ''breaks lock held by a live writer''
            (\<lambda>e. ''cannot lock breaks lock '' @ path @ '': '' @ io_text e)
        }
      })))"

definition acquire_breaks_lock :: "env \<Rightarrow> string \<Rightarrow> (handle result) io" where
  "acquire_breaks_lock = acquire_breaks_lock_polls BREAKS_LOCK_POLLS"

section \<open>The persisted intent\<close>

fun push_missing :: "json list \<Rightarrow> string list \<Rightarrow> json list" where
  "push_missing l [] = l"
| "push_missing l (r # raws) =
     push_missing (if list_ex (\<lambda>v. as_str v = Some r) l then l else l @ [VString r]) raws"

fun retain_others :: "json list \<Rightarrow> string list \<Rightarrow> json list" where
  "retain_others l [] = l"
| "retain_others l (r # raws) = retain_others (filter (\<lambda>v. as_str v \<noteq> Some r) l) raws"

definition cannot_persist :: "io_error \<Rightarrow> string" where
  "cannot_persist e = ''cannot persist session intent: '' @ io_text e"

text \<open>Read \<open>stops.json\<close>, change its list of breaks, write it back atomically.\<close>

definition edit_breaks_of :: "(json list \<Rightarrow> json list) \<Rightarrow> json \<Rightarrow> json result" where
  "edit_breaks_of f intent =
     (case array_field intent ''breaks'' of
        None \<Rightarrow> bail ''corrupt session intent: breaks is not a list''
      | Some l \<Rightarrow> Inr (insert_if_object ''breaks'' (VArray (f l)) intent))"

definition edit_intent :: "env \<Rightarrow> string \<Rightarrow> (json list \<Rightarrow> json list) \<Rightarrow> (unit result) io" where
  "edit_intent E dir f =
     (let path = path_join dir ''stops.json'' in
      try_io (map_err (\<lambda>e. Msg (''cannot read session intent: '' @ io_text e)) (read_to_string E path)) (\<lambda>raw.
      try_io (lift_result (case from_str (codec E) raw of
          Inl e \<Rightarrow> bail (''corrupt session intent: '' @ e) | Inr v \<Rightarrow> Inr v)) (\<lambda>intent.
      try_io (lift_result (edit_breaks_of f intent)) (\<lambda>intent'. do {
        tmp \<leftarrow> atomic_tmp_name E dir ''stops.json'';
        write_then_rename E tmp path (to_pretty (codec E) intent') cannot_persist
      }))))"

definition append_confirmed_breaks_in :: "env \<Rightarrow> string \<Rightarrow> string list \<Rightarrow> (unit result) io" where
  "append_confirmed_breaks_in E dir raws =
     try_io (acquire_breaks_lock E dir) (\<lambda>h.
       guarded E h (edit_intent E dir (\<lambda>l. push_missing l raws)))"

definition append_confirmed_breaks :: "env \<Rightarrow> string \<Rightarrow> string list \<Rightarrow> (unit result) io" where
  "append_confirmed_breaks E name raws =
     try_io (checked_session_dir E name) (\<lambda>dir. append_confirmed_breaks_in E dir raws)"

definition remove_confirmed_breaks_in :: "env \<Rightarrow> string \<Rightarrow> string list \<Rightarrow> (unit result) io" where
  "remove_confirmed_breaks_in E dir raws =
     try_io (acquire_breaks_lock E dir) (\<lambda>h.
       guarded E h (edit_intent E dir (\<lambda>l. retain_others l raws)))"

definition remove_confirmed_breaks :: "env \<Rightarrow> string \<Rightarrow> string list \<Rightarrow> (unit result) io" where
  "remove_confirmed_breaks E name raws =
     try_io (checked_session_dir E name) (\<lambda>dir. remove_confirmed_breaks_in E dir raws)"

section \<open>The commands\<close>

definition is_ephemeral_target :: "string option \<Rightarrow> bool" where
  "is_ephemeral_target target = (case target of None \<Rightarrow> False | Some t \<Rightarrow> t \<noteq> ''main'')"

definition line_break :: "json \<Rightarrow> bool" where
  "line_break v =
     (let s = (case as_str v of None \<Rightarrow> [] | Some s \<Rightarrow> s);
          head = hd (split_by (\<lambda>c. c = CHR ''|'') s) in
      \<not> (starts_with head ''method:'' \<or> head = ''exc'' \<or> starts_with head ''exc:''))"

definition line_breaks_of :: "json \<Rightarrow> nat" where
  "line_breaks_of intent =
     (case array_field intent ''breaks'' of None \<Rightarrow> 0 | Some a \<Rightarrow> length (filter line_break a))"

definition persisted_line_breaks_in :: "env \<Rightarrow> string \<Rightarrow> nat io" where
  "persisted_line_breaks_in E dir = do {
     v \<leftarrow> read_json_opt E (path_join dir ''stops.json'');
     State_Monad.return (case v of None \<Rightarrow> 0 | Some intent \<Rightarrow> line_breaks_of intent)
   }"

definition persisted_line_breaks :: "env \<Rightarrow> string \<Rightarrow> nat io" where
  "persisted_line_breaks E name = do {
     d \<leftarrow> checked_session_dir E name;
     (case d of Inl _ \<Rightarrow> State_Monad.return 0 | Inr dir \<Rightarrow> persisted_line_breaks_in E dir)
   }"

definition raws_in :: "json \<Rightarrow> string \<Rightarrow> string list" where
  "raws_in resp key =
     (case array_field resp key of None \<Rightarrow> []
      | Some a \<Rightarrow> List.map_filter (\<lambda>e. str_field e ''raw'') a)"

definition confirmed_removed :: "json \<Rightarrow> string list" where
  "confirmed_removed resp = raws_in resp ''removed''"

definition applied_live_err :: "string \<Rightarrow> anyhow \<Rightarrow> anyhow" where
  "applied_live_err op e = Msg (''breaks '' @ op @ '' applied live but intent persistence failed ('' @
     display e @ '') '' @ [CHR 0xE2, CHR 0x80, CHR 0x94] @ '' run bare `breaks` to check live stops; '' @
     ''resume intent is stale until stops.json is fixed'')"

definition maybe_applied :: "string \<Rightarrow> anyhow \<Rightarrow> anyhow" where
  "maybe_applied op e = Msg (''breaks '' @ op @ '' may or may not have applied ('' @ display e @ '') '' @
     [CHR 0xE2, CHR 0x80, CHR 0x94] @
     '' persistence skipped; run bare `breaks` to check live stops'')"

text \<open>\<open>min(10 + 5 * N, 65)\<close> seconds.\<close>

definition forward_bound :: "nat \<Rightarrow> nat" where
  "forward_bound n = secs (of_nat (min (10 + 5 * n) 65))"

text \<open>
  The shape the three commands share: the gates, the routed target, the port, one bounded request,
  and, for a global target only, the persistence of what the bridge confirmed.
\<close>

definition breaks_command ::
    "env \<Rightarrow> string \<Rightarrow> string \<Rightarrow> json \<Rightarrow> nat io \<Rightarrow> string option \<Rightarrow> (json \<Rightarrow> string list) \<Rightarrow>
     (string list \<Rightarrow> (unit result) io) \<Rightarrow> (json result) io" where
  "breaks_command E name op body count target confirmed persist =
     try_io (session_gate E name) (\<lambda>dir. do {
       lang \<leftarrow> session_lang_opt E dir;
       try_io (lift_result (normalize_target_for_lang_opt lang target)) (\<lambda>target.
       try_io (session_port E name) (\<lambda>port. do {
         n \<leftarrow> count;
         try_io (map_err (maybe_applied op) (ask_bridge E port (with_target target body) (forward_bound n)))
           (\<lambda>resp.
             if \<not> is_ok resp then err (bridge_failure_of resp)
             else if is_ephemeral_target target then ok (stamp_main resp)
             else if confirmed resp \<noteq> [] then
               try_io (map_err (applied_live_err op) (persist (confirmed resp))) (\<lambda>_. ok (stamp_main resp))
             else ok (stamp_main resp))
       }))
     })"

definition cmd_breaks_add :: "env \<Rightarrow> string \<Rightarrow> string list \<Rightarrow> string option \<Rightarrow> (json result) io" where
  "cmd_breaks_add E name breaks target =
     breaks_command E name ''add''
       (jobj [(''cmd'', VString ''breaksAdd''), (''breaks'', VArray (map VString breaks))])
       (State_Monad.return (length breaks)) target (\<lambda>resp. raws_in resp ''added'')
       (append_confirmed_breaks E name)"

definition cmd_breaks_remove :: "env \<Rightarrow> string \<Rightarrow> string list \<Rightarrow> string option \<Rightarrow> (json result) io" where
  "cmd_breaks_remove E name breaks target =
     breaks_command E name ''remove''
       (jobj [(''cmd'', VString ''breaksRemove''), (''breaks'', VArray (map VString breaks))])
       (State_Monad.return (length breaks)) target confirmed_removed
       (remove_confirmed_breaks E name)"

definition cmd_breaks_clear :: "env \<Rightarrow> string \<Rightarrow> string option \<Rightarrow> (json result) io" where
  "cmd_breaks_clear E name target =
     breaks_command E name ''clear'' (jobj [(''cmd'', VString ''breaksClear'')])
       (persisted_line_breaks E name) target confirmed_removed
       (remove_confirmed_breaks E name)"

section \<open>The lists\<close>

text \<open>What \<open>push_missing\<close> adds: each raw that is not there, once, in order.\<close>

fun fresh_raws :: "string set \<Rightarrow> string list \<Rightarrow> string list" where
  "fresh_raws known [] = []"
| "fresh_raws known (r # raws) =
     (if r \<in> known then fresh_raws known raws else r # fresh_raws (insert r known) raws)"

definition strings_of :: "json list \<Rightarrow> string set" where
  "strings_of l = set (List.map_filter as_str l)"

lemma strings_of_iff: "list_ex (\<lambda>v. as_str v = Some r) l \<longleftrightarrow> r \<in> strings_of l"
  by (force simp: strings_of_def list_ex_iff map_filter_def)

lemma strings_of_append [simp]: "strings_of (l @ [VString r]) = insert r (strings_of l)"
  by (auto simp: strings_of_def map_filter_def as_str_def)

lemma push_missing_fresh: "push_missing l raws = l @ map VString (fresh_raws (strings_of l) raws)"
proof (induction raws arbitrary: l)
  case (Cons r raws)
  then show ?case by (simp add: strings_of_iff)
qed simp

lemma set_fresh_raws: "set (fresh_raws known raws) = set raws - known"
  by (induction raws arbitrary: known) auto

lemma distinct_fresh_raws: "distinct (fresh_raws known raws)"
  by (induction raws arbitrary: known) (auto simp: set_fresh_raws)

lemma fresh_raws_none: "set raws \<subseteq> known \<Longrightarrow> fresh_raws known raws = []"
  by (induction raws) auto

lemma retain_others_filter: "retain_others l raws = filter (\<lambda>v. \<forall>r\<in>set raws. as_str v \<noteq> Some r) l"
proof (induction raws arbitrary: l)
  case (Cons r raws)
  then show ?case by (auto simp: intro!: filter_cong)
qed simp

lemma strings_of_list_append: "strings_of (a @ b) = strings_of a \<union> strings_of b"
  by (auto simp: strings_of_def map_filter_def)

lemma strings_of_map_VString: "strings_of (map VString ws) = set ws"
  by (simp add: strings_of_def)

text \<open>The persisted list only grows by what is missing: an append keeps the stored entries in front
  and in order, adds each confirmed raw that was not stored exactly once, and appending the same
  raws again changes nothing; a remove drops every occurrence of the confirmed raws and nothing
  else, so no duplicate brings a removed break back.\<close>

theorem persisted_lists:
  "\<exists>added. push_missing l raws = l @ map VString added \<and> distinct added \<and>
      set added = set raws - strings_of l \<and>
   push_missing (push_missing l raws) raws = push_missing l raws \<and>
   retain_others l raws = filter (\<lambda>v. list_all (\<lambda>r. as_str v \<noteq> Some r) raws) l \<and>
   set raws \<inter> strings_of (retain_others (push_missing l raws) raws) = {}"
proof (intro exI conjI)
  show "push_missing l raws = l @ map VString (fresh_raws (strings_of l) raws)"
    by (rule push_missing_fresh)
  show "distinct (fresh_raws (strings_of l) raws)" by (rule distinct_fresh_raws)
  show "set (fresh_raws (strings_of l) raws) = set raws - strings_of l" by (rule set_fresh_raws)
  show "push_missing (push_missing l raws) raws = push_missing l raws"
    by (simp add: push_missing_fresh fresh_raws_none strings_of_list_append strings_of_map_VString set_fresh_raws)
  show "retain_others l raws = filter (\<lambda>v. list_all (\<lambda>r. as_str v \<noteq> Some r) raws) l"
    by (simp add: retain_others_filter list_all_iff)
  show "set raws \<inter> strings_of (retain_others (push_missing l raws) raws) = {}"
    unfolding retain_others_filter by (auto simp: strings_of_def map_filter_def split: option.splits)
qed

section \<open>Editing under the lock\<close>

text \<open>
  The discipline of the writers of \<open>stops.json\<close>: nobody creates this call's own temporary file, the
  lock path is never a link, and whoever does not hold the lock leaves \<open>stops.json\<close> alone.
\<close>

definition not_link :: "node option \<Rightarrow> bool" where
  "not_link n = (case n of Some (Link _) \<Rightarrow> False | _ \<Rightarrow> True)"

definition orderly :: "string \<Rightarrow> string \<Rightarrow> kern \<Rightarrow> bool" where
  "orderly dir tmp k = (inodes_ok k \<and> files k tmp = None \<and> not_link (files k (breaks_lock_path dir)) \<and>
     not_link (files k (path_join dir ''stops.json'')))"

definition cooperative :: "env \<Rightarrow> string \<Rightarrow> string \<Rightarrow> bool" where
  "cooperative E dir tmp =
     ((\<forall>n k. orderly dir tmp k \<longrightarrow> orderly dir tmp (interfere E n k)) \<and>
      (\<forall>h. calm_in (holds_lock h) E {tmp, path_join dir ''stops.json''}))"

lemma follow_not_link:
  assumes "not_link (files k p)"
  shows "follow k p = Some p"
proof (cases "files k p")
  case None
  then show ?thesis by (simp add: follow_def numeral_eq_Suc)
next
  case (Some n)
  with assms show ?thesis by (cases n) (simp_all add: follow_def numeral_eq_Suc not_link_def)
qed

lemma inodes_ok_locks [simp]: "inodes_ok (k\<lparr>flocks := f\<rparr>) = inodes_ok k" "inodes_ok (k\<lparr>next_fd := n\<rparr>) = inodes_ok k"
  by (simp_all add: inodes_ok_def)

lemma orderly_flocks [simp]: "orderly dir tmp (k\<lparr>flocks := f\<rparr>) = orderly dir tmp k"
  "orderly dir tmp (k\<lparr>next_fd := n\<rparr>) = orderly dir tmp k"
  by (simp_all add: orderly_def)

lemma orderly_open:
  assumes "orderly dir tmp k" and "tmp \<noteq> breaks_lock_path dir"
  shows "orderly dir tmp (snd (k_open_handle (breaks_lock_path dir) t k))"
proof -
  let ?p = "breaks_lock_path dir"
  from assms have f: "follow k ?p = Some ?p" by (simp add: orderly_def follow_not_link)
  show ?thesis
  proof (cases "files k ?p")
    case None
    with assms inodes_ok_new [of k ?p "[]" t] f show ?thesis
      by (auto simp: k_open_handle_def k_open_create_def k_create_def orderly_def)
        (auto simp: put_node_def not_link_def)
  next
    case (Some n)
    with assms f show ?thesis
      by (cases n) (simp_all add: k_open_handle_def k_open_create_def)
  qed
qed

lemma acquired:
  assumes coop: "cooperative E dir tmp" and neq: "tmp \<noteq> breaks_lock_path dir"
  shows "passes (\<lambda>_. True) (\<lambda>w. orderly dir tmp (kern w))
    (acquire_breaks_lock_polls n E dir)
    (\<lambda>r w. orderly dir tmp (kern w) \<and>
      (case r of Inl _ \<Rightarrow> True | Inr h \<Rightarrow> holds_lock h (kern w)))"
proof -
  let ?o = "\<lambda>w. orderly dir tmp (kern w)"
  let ?done = "\<lambda>r w. ?o w \<and> (case r of Inl _ \<Rightarrow> True | Inr h \<Rightarrow> holds_lock h (kern w))"
  have stable: "\<And>n k. orderly dir tmp k \<Longrightarrow> orderly dir tmp (interfere E n k)"
    using coop by (simp add: cooperative_def)
  have seen: "\<And>w. ?o w \<Longrightarrow> orderly dir tmp (seen E w)"
    using stable by (simp add: seen_def)
  have check: "passes (\<lambda>_. True) ?o (check_breaks_lock E (breaks_lock_path dir)) (\<lambda>_. ?o)"
    unfolding check_breaks_lock_def symlink_metadata_def
    by (rule passes_bind [where R = "\<lambda>_. ?o"], rule passes_look) (auto simp: seen intro: passes_return)
  have opened: "passes (\<lambda>_. True) ?o (map_err m (open_handle E (breaks_lock_path dir))) (\<lambda>_. ?o)" for m :: "io_error \<Rightarrow> anyhow"
    unfolding open_handle_def
    by (rule passes_map_err [where R = "\<lambda>_. ?o"], rule passes_syscall) (auto simp: seen orderly_open neq)
  have regular: "passes (\<lambda>_. True) ?o (handle_is_file E h) (\<lambda>_. ?o)" for h
    unfolding handle_is_file_def
    by (rule passes_bind [where R = "\<lambda>_. ?o"], rule passes_look) (auto simp: seen intro: passes_return)
  have close: "passes (\<lambda>_. True) ?o (do { _ \<leftarrow> close_handle E h; err e }) ?done" for h e
    by (rule passesI) (auto simp: State_Monad.bind_def k_close_def seen)
  have poll: "passes (\<lambda>_. True) ?o (poll_lock E n h d b f) ?done" for h d b f
    by (rule passes_post [OF passes_poll_lock [where I = "orderly dir tmp"]])
      (auto simp: stable split: sum.splits)
  have now: "passes (\<lambda>_. True) ?o (now E) (\<lambda>_. ?o)"
    by (rule passes_now) (simp add: seen)
  show ?thesis
    unfolding acquire_breaks_lock_polls_def Let_def
    by (rule passes_try [OF check], rule passes_try [OF opened], rule passes_bind [OF regular],
        rule passes_if [OF close], rule passes_bind [OF now], rule poll, simp_all)
qed

text \<open>The edit, from a state where the lock is held.\<close>

lemma edit_held:
  assumes coop: "cooperative E dir (tmp_path E dir ''stops.json'' w)" and held: "holds_lock h (kern w)"
    and ord: "orderly dir (tmp_path E dir ''stops.json'' w) (kern w)"
    and run: "run_state (edit_intent E dir f) w = (Inr u, w')"
  shows "\<exists>intent l t i. json_at E (kern w) (path_join dir ''stops.json'') = Some intent \<and>
    array_field intent ''breaks'' = Some l \<and> holds_lock h (kern w') \<and>
    files (kern w') (path_join dir ''stops.json'') =
      Some (File i (to_pretty (codec E) (insert_if_object ''breaks'' (VArray (f l)) intent)) t)"
proof -
  let ?p = "path_join dir ''stops.json''" and ?tmp = "tmp_path E dir ''stops.json'' w"
  let ?w1 = "moved E w"
  have calm: "calm_in (holds_lock h) E {?tmp, ?p}" using coop unfolding cooperative_def by blast
  have fo: "flock_only (holds_lock h)" by (simp add: flock_only_def holds_lock_def)
  have w1: "holds_lock h (kern ?w1)" "inodes_ok (kern ?w1)" "files (kern ?w1) ?tmp = None"
      "files (kern ?w1) ?p = files (kern w) ?p"
    using calm held ord by (simp_all add: orderly_def)
  obtain raw intent l where raw: "k_read_to_string ?p (seen E w) = Inr raw" "fault E (calls w) = None"
      "from_str (codec E) raw = Inr intent" "array_field intent ''breaks'' = Some l"
    and wr: "run_state (write_then_rename E ?tmp ?p
      (to_pretty (codec E) (insert_if_object ''breaks'' (VArray (f l)) intent)) cannot_persist)
      (?w1\<lparr>tmp_counter := tmp_counter w + 1\<rparr>) = (Inr u, w')"
    using run
    by (auto simp: edit_intent_def Let_def State_Monad.bind_def read_to_string_def edit_breaks_of_def bail_def
        atomic_tmp_name_def tmp_path_def split: option.splits sum.splits)
  have link: "not_link (files (kern w) ?p)" using ord by (simp add: orderly_def)
  have "k_read_to_string ?p (kern w) = Inr raw"
    using raw(1) w1(4) link
    by (simp add: k_read_to_string_def k_read_def k_stat_def follow_not_link)
  then have at: "json_at E (kern w) ?p = Some intent"
    using raw by (simp add: json_at_def)
  from tmp_write_whole [OF fo calm _ _ _ _ wr] w1
  have "holds_lock h (kern w') \<and> landed ?tmp ?p
      (to_pretty (codec E) (insert_if_object ''breaks'' (VArray (f l)) intent)) w'"
    by (auto simp: tmp_path_def tmp_path_neq)
  with at raw(4) show ?thesis by (auto simp: landed_def)
qed

lemma tmp_counter_poll [simp]: "tmp_counter (snd (run_state (poll_lock E n h d b f) w)) = tmp_counter w"
  by (induction n arbitrary: w) (auto simp: State_Monad.bind_def try_lock_def split: option.split sum.split prod.split)

interpretation tallied: keeping "\<lambda>w w'. tmp_counter w' = tmp_counter w"
  by unfold_locales simp_all

lemma tmp_counter_calls: "within (\<lambda>w w'. tmp_counter w' = tmp_counter w) (syscall E f)"
  "within (\<lambda>w w'. tmp_counter w' = tmp_counter w) (look E g)" "within (\<lambda>w w'. tmp_counter w' = tmp_counter w) (now E)"
  "within (\<lambda>w w'. tmp_counter w' = tmp_counter w) (close_handle E h)"
  "within (\<lambda>w w'. tmp_counter w' = tmp_counter w) (poll_lock E n h d b e)"
  by (simp_all add: within_def split: option.split prod.split)

lemma tmp_counter_acquire:
  assumes "run_state (acquire_breaks_lock_polls n E dir) w = (r, w')"
  shows "tmp_counter w' = tmp_counter w"
proof -
  have "within (\<lambda>w w'. tmp_counter w' = tmp_counter w) (acquire_breaks_lock_polls n E dir)"
    by (auto simp: acquire_breaks_lock_polls_def Let_def check_breaks_lock_def symlink_metadata_def
        open_handle_def handle_is_file_def intro!: tallied.composed tmp_counter_calls split: sum.split)
  from withinD [OF this assms] show ?thesis .
qed

lemma guarded_edit:
  assumes coop: "cooperative E dir (tmp_path E dir ''stops.json'' w)"
    and ord: "orderly dir (tmp_path E dir ''stops.json'' w) (kern w)"
    and run: "run_state (try_io (acquire_breaks_lock E dir) (\<lambda>h. guarded E h (edit_intent E dir f))) w = (Inr u, w')"
  shows "\<exists>h w1 intent l t i. run_state (acquire_breaks_lock E dir) w = (Inr h, w1) \<and> holds_lock h (kern w1) \<and>
    json_at E (kern w1) (path_join dir ''stops.json'') = Some intent \<and>
    array_field intent ''breaks'' = Some l \<and>
    files (kern w') (path_join dir ''stops.json'') =
      Some (File i (to_pretty (codec E) (insert_if_object ''breaks'' (VArray (f l)) intent)) t)"
proof -
  let ?p = "path_join dir ''stops.json''"
  obtain h w1 where acq: "run_state (acquire_breaks_lock E dir) w = (Inr h, w1)"
    and g: "run_state (guarded E h (edit_intent E dir f)) w1 = (Inr u, w')"
    using run by (auto split: prod.splits sum.splits)
  have tmp: "tmp_path E dir ''stops.json'' w1 = tmp_path E dir ''stops.json'' w"
    using tmp_counter_acquire [OF acq [unfolded acquire_breaks_lock_def]] by (simp add: tmp_path_def)
  have neq: "tmp_path E dir ''stops.json'' w \<noteq> breaks_lock_path dir"
    by (simp add: tmp_path_def breaks_lock_path_def path_join_def tmp_file_name_def starts_with_def)
  have held: "holds_lock h (kern w1)" and ord1: "orderly dir (tmp_path E dir ''stops.json'' w1) (kern w1)"
    using passesD [OF acquired [OF coop neq] ord acq [unfolded acquire_breaks_lock_def]] tmp by simp_all
  obtain w2 where e: "run_state (edit_intent E dir f) w1 = (Inr u, w2)"
    and w': "w' = changed E (k_close h (seen E w2)) w2"
    using g by (auto simp: guarded_def State_Monad.bind_def split: prod.splits)
  obtain intent l t i where r: "json_at E (kern w1) ?p = Some intent" "array_field intent ''breaks'' = Some l"
      "holds_lock h (kern w2)"
      "files (kern w2) ?p = Some (File i (to_pretty (codec E) (insert_if_object ''breaks'' (VArray (f l)) intent)) t)"
    using edit_held [OF coop [folded tmp] held ord1 e] by blast
  have "calm_in (holds_lock h) E {tmp_path E dir ''stops.json'' w, ?p}"
    using coop unfolding cooperative_def by blast
  then have "files (kern w') ?p = files (kern w2) ?p"
    using r(3) by (simp add: w' k_close_def)
  with acq held r show ?thesis by auto
qed


lemma demo_calm: "calm_in Q (demo_env l) P" "cooperative (demo_env l) dir tmp"
proof -
  have i: "interfere (demo_env l) n k = k" for n k by (simp add: demo_env_def)
  show "calm_in Q (demo_env l) P" "cooperative (demo_env l) dir tmp"
    by (simp_all add: calm_in_def cooperative_def i)
qed

lemma demo_inodes: "inodes_ok (kern demo_world)"
  by (simp add: inodes_ok_world_of demo_world_def demo_files_def)

lemma poll_lock_first:
  assumes "flocks (seen E w) (fst h) = None" and "fault E (calls w) = None" and "0 < n"
  shows "run_state (poll_lock E n h d b f) w =
    (Inr h, changed E ((seen E w)\<lparr>flocks := (flocks (seen E w))(fst h := Some (snd h))\<rparr>) w)"
proof -
  obtain m where "n = Suc m" using assms(3) by (cases n) auto
  with assms show ?thesis
    by (simp add: State_Monad.bind_def try_lock_def k_try_lock_def)
qed

lemma demo_lock_path:
  "files (kern demo_world) (breaks_lock_path demo_dir) = None"
  "parent_of (breaks_lock_path demo_dir) = Some demo_dir"
  "path_join demo_dir ''stops.json'' \<noteq> breaks_lock_path demo_dir" "demo_dir \<noteq> breaks_lock_path demo_dir"
  by (simp_all add: demo_world_def demo_files_def demo_dir_def breaks_lock_path_def path_join_def
      starts_with_def parent_of_def)

lemma demo_tmp:
  "files (kern demo_world) (path_join demo_dir (tmp_file_name ''stops.json'' 42 0)) = None"
  "parent_of (path_join demo_dir (tmp_file_name ''stops.json'' 42 0)) = Some demo_dir"
  "path_join demo_dir (tmp_file_name ''stops.json'' 42 0) \<noteq> breaks_lock_path demo_dir"
  "tmp_counter demo_world = 0"
proof -
  have tmp: "path_join demo_dir (tmp_file_name ''stops.json'' 42 0) =
      ''/h/.agent-debugger/sessions/cart/stops.json.tmp.42.0''"
    by (simp add: demo_dir_def tmp_file_name_def path_join_def starts_with_def show_nat.simps str_simps)
  show "files (kern demo_world) (path_join demo_dir (tmp_file_name ''stops.json'' 42 0)) = None"
    "parent_of (path_join demo_dir (tmp_file_name ''stops.json'' 42 0)) = Some demo_dir"
    "path_join demo_dir (tmp_file_name ''stops.json'' 42 0) \<noteq> breaks_lock_path demo_dir"
    "tmp_counter demo_world = 0"
    unfolding tmp
    by (simp_all add: demo_world_def demo_files_def demo_dir_def parent_of_def breaks_lock_path_def
        path_join_def starts_with_def world_of_def)
qed

lemma demo_acquire:
  "\<exists>w1. run_state (acquire_breaks_lock (demo_env ''py'') demo_dir) demo_world = (Inr (100, 10), w1) \<and>
    files (kern w1) = (files (kern demo_world))(breaks_lock_path demo_dir \<mapsto> File 100 [] 1) \<and> tmp_counter w1 = 0"
proof -
  let ?k1 = "(put_node (breaks_lock_path demo_dir) (Some (File 100 [] (Suc 0)))
    ((kern demo_world)\<lparr>next_ino := 101\<rparr>))\<lparr>next_fd := 11\<rparr>"
  have nx: "next_ino (kern demo_world) = 100" "next_fd (kern demo_world) = 10" "calls demo_world = 0"
    "flocks (kern demo_world) = (\<lambda>_. None)" "tmp_counter demo_world = 0"
    by (simp_all add: demo_world_def world_of_def)
  have open1: "k_open_handle (breaks_lock_path demo_dir) (Suc 0) (kern demo_world) = (Inr (100, 10), ?k1)"
    using demo_lock_path nx
    by (simp add: k_open_handle_def k_open_create_def k_create_def follow_not_link not_link_def parent_ok_def)
       (simp add: put_node_def demo_dir_def)
  show ?thesis
    using nx demo_lock_path
    by (simp add: acquire_breaks_lock_def acquire_breaks_lock_polls_def Let_def check_breaks_lock_def
        symlink_metadata_def k_lstat_def State_Monad.bind_def open_handle_def open1 handle_is_file_def
        poll_lock_first BREAKS_LOCK_POLLS_def put_node_def del: poll_lock.simps)
qed

lemma write_then_rename_quiet:
  assumes "\<And>n. fault E n = None" and "\<And>v. seen E v = kern v" and "files (kern w) tmp = None"
    and "parent_of tmp = Some d" and "parent_of dest = Some d" and "files (kern w) d = Some (Dir t)"
    and "\<not> is_dir (files (kern w) dest)" and "tmp \<noteq> dest"
  shows "\<exists>w'. run_state (write_then_rename E tmp dest c msg) w = (Inr (), w')"
proof -
  have d: "d \<noteq> tmp" using assms(3,6) by auto
  have f: "follow (kern w) tmp = Some tmp" "parent_ok (kern w) tmp"
    using assms by (simp_all add: follow_not_link not_link_def parent_ok_def)
  let ?i = "next_ino (kern w)" and ?t = "clock E (calls w)"
  let ?k1 = "put_node tmp (Some (File ?i [] ?t)) ((kern w)\<lparr>next_ino := Suc ?i\<rparr>)"
  let ?k2 = "append_ino ?i c (clock E (Suc (calls w))) ?k1"
  have k2: "files ?k2 tmp = Some (File ?i c (clock E (Suc (calls w))))" "files ?k2 d = Some (Dir t)"
    "\<not> is_dir (files ?k2 dest)"
    using assms d by (auto simp: append_ino_def put_node_def elim!: is_dir.elims split: option.splits node.splits if_splits)
  have "follow ?k2 d = Some d" using k2(2) by (intro follow_not_link) (simp add: not_link_def)
  then have "fst (k_rename tmp dest ?k2) = Inr ()"
    using k2 assms(5) by (simp add: k_rename_def parent_ok_def)
  moreover have "k_create_trunc tmp ?t (kern w) = (Inr ?i, ?k1)"
    using f assms(3) by (simp add: k_create_trunc_def k_create_def)
  ultimately show ?thesis
    using assms(1,2)
    by (simp add: write_then_rename_def State_Monad.bind_def fs_write_def create_trunc_def rename_def)
qed

lemma demo_append:
  "\<exists>w'. run_state (append_confirmed_breaks_in (demo_env ''py'') demo_dir [''b.py:1'']) demo_world = (Inr (), w')"
proof -
  obtain w1 where acq: "run_state (acquire_breaks_lock (demo_env ''py'') demo_dir) demo_world = (Inr (100, 10), w1)"
    and f: "files (kern w1) = (files (kern demo_world))(breaks_lock_path demo_dir \<mapsto> File 100 [] 1)" and c: "tmp_counter w1 = 0"
    using demo_acquire by blast
  have "files (kern w1) (path_join demo_dir ''stops.json'') = Some (File 2 ''{S}'' 0)"
    using demo_lock_path by (simp add: f)
  then have rd: "k_read_to_string (path_join demo_dir ''stops.json'') (kern w1) = Inr ''{S}''"
    by (simp add: k_read_file code_def del: demo_paths)
  obtain i' where ed: "edit_breaks_of (\<lambda>l. push_missing l [''b.py:1'']) demo_stops = Inr i'"
    by (simp add: edit_breaks_of_def demo_stops_def array_field_def as_array_def)
  have "\<exists>w2. run_state (edit_intent (demo_env ''py'') demo_dir (\<lambda>l. push_missing l [''b.py:1''])) w1 = (Inr (), w2)"
  proof -
    let ?tmp = "path_join demo_dir (tmp_file_name ''stops.json'' 42 0)"
    let ?w = "(moved (demo_env ''py'') w1)\<lparr>tmp_counter := 1\<rparr>"
    have "files (kern ?w) ?tmp = None" "parent_of ?tmp = Some demo_dir" "files (kern ?w) demo_dir = Some (Dir 0)"
      "\<not> is_dir (files (kern ?w) (path_join demo_dir ''stops.json''))"
      "parent_of (path_join demo_dir ''stops.json'') = Some demo_dir"
      "?tmp \<noteq> path_join demo_dir ''stops.json''"
    proof -
      show "files (kern ?w) ?tmp = None" using demo_tmp by (simp add: f)
      show "parent_of ?tmp = Some demo_dir" by (rule demo_tmp)
      show "files (kern ?w) demo_dir = Some (Dir 0)" using demo_lock_path by (simp add: f)
      show "\<not> is_dir (files (kern ?w) (path_join demo_dir ''stops.json''))"
        using demo_lock_path by (simp add: f)
      show "parent_of (path_join demo_dir ''stops.json'') = Some demo_dir"
        by (subst demo_paths(2)) (simp add: parent_of_def demo_dir_def)
      show "?tmp \<noteq> path_join demo_dir ''stops.json''" by (rule tmp_path_neq)
    qed
    from write_then_rename_quiet [where E = "demo_env ''py''", OF _ _ this(1,2,5,3,4,6)]
    show ?thesis
      by (simp add: edit_intent_def Let_def State_Monad.bind_def read_to_string_def rd ed
        atomic_tmp_name_def c del: demo_paths push_missing.simps)
  qed
  then show ?thesis
    by (auto simp: append_confirmed_breaks_in_def acq guarded_def State_Monad.bind_def)
qed


section \<open>Bounds and confirmation\<close>

lemma run_try_cong:
  "(\<And>a w'. run_state m w = (Inr a, w') \<Longrightarrow> run_state (f a) w' = run_state (g a) w') \<Longrightarrow>
   run_state (try_io m f) w = run_state (try_io m g) w"
  by (auto split: prod.split sum.split)

lemma check_breaks_lock_calls: "run_state (check_breaks_lock E path) w = (a, w') \<Longrightarrow> w' = moved E w"
  by (auto simp: check_breaks_lock_def symlink_metadata_def State_Monad.bind_def split: sum.splits if_splits prod.splits)

text \<open>Waiting for the breaks lock ends: with a clock on which each poll takes at least its 5
  milliseconds, 401 polls (the 2 seconds of the bound, and one) are all there can be; allowing
  more changes nothing.\<close>

theorem breaks_lock_wait_bounded:
  assumes "paced E (calls w + 4) (clock E (calls w + 3)) BREAKS_LOCK_POLL" and "BREAKS_LOCK_POLLS \<le> m"
  shows "run_state (acquire_breaks_lock_polls m E dir) w = run_state (acquire_breaks_lock E dir) w"
proof -
  have poll: "run_state (poll_lock E m h (clock E (calls w + 3) + BREAKS_LOCK_WAIT) b f) v =
      run_state (poll_lock E BREAKS_LOCK_POLLS h (clock E (calls w + 3) + BREAKS_LOCK_WAIT) b f) v"
    if "calls v = calls w + 4" for v h b f
    using poll_lock_fuel [of E v "clock E (calls w + 3)" BREAKS_LOCK_POLL
        "clock E (calls w + 3) + BREAKS_LOCK_WAIT" 400 m h b f] assms that
    by (simp add: BREAKS_LOCK_POLLS_def BREAKS_LOCK_WAIT_def BREAKS_LOCK_POLL_def millis_def)
  show ?thesis
    unfolding acquire_breaks_lock_def acquire_breaks_lock_polls_def Let_def
  proof (intro run_try_cong)
    fix u h w1 w2 assume "run_state (check_breaks_lock E (breaks_lock_path dir)) w = (Inr u, w1)"
      and op: "run_state (map_err (\<lambda>e. Msg (''cannot open breaks lock '' @ breaks_lock_path dir @ '': '' @ io_text e))
        (open_handle E (breaks_lock_path dir))) w1 = (Inr h, w2)"
    then have "calls w2 = calls w + 2"
      by (auto simp: open_handle_def map_err_def State_Monad.bind_def dest!: check_breaks_lock_calls split: prod.splits sum.splits option.splits)
    then show "run_state (do {
        regular \<leftarrow> handle_is_file E h;
        if \<not> regular then do { _ \<leftarrow> close_handle E h; err (Msg (breaks_lock_regular (breaks_lock_path dir))) }
        else do {
          t \<leftarrow> now E;
          poll_lock E m h (t + BREAKS_LOCK_WAIT) ''breaks lock held by a live writer''
            (\<lambda>e. ''cannot lock breaks lock '' @ breaks_lock_path dir @ '': '' @ io_text e)
        } }) w2 = run_state (do {
        regular \<leftarrow> handle_is_file E h;
        if \<not> regular then do { _ \<leftarrow> close_handle E h; err (Msg (breaks_lock_regular (breaks_lock_path dir))) }
        else do {
          t \<leftarrow> now E;
          poll_lock E BREAKS_LOCK_POLLS h (t + BREAKS_LOCK_WAIT) ''breaks lock held by a live writer''
            (\<lambda>e. ''cannot lock breaks lock '' @ breaks_lock_path dir @ '': '' @ io_text e)
        } }) w2"
      using poll by (auto simp: handle_is_file_def State_Monad.bind_def numeral_eq_Suc)
  qed
qed

theorem breaks_lock_wait_bounded_witness:
  "run_state (acquire_breaks_lock_polls 1000 ((still_env brace_serde)\<lparr>clock := \<lambda>n. n * 5000000\<rparr>) ''/s'') (world_of []) =
   run_state (acquire_breaks_lock ((still_env brace_serde)\<lparr>clock := \<lambda>n. n * 5000000\<rparr>) ''/s'') (world_of [])"
  by (rule breaks_lock_wait_bounded)
    (simp_all add: paced_def BREAKS_LOCK_POLL_def BREAKS_LOCK_POLLS_def millis_def)

lemma inert_gates:
  assumes "alone E"
  shows "inert E (session_gate E name)" "inert E (session_lang_opt E dir)" "inert E (session_port E name)"
    "inert E (persisted_line_breaks E name)"
  using assms
  by (auto simp: session_gate_def checked_session_dir_def check_dir_real_def require_schema_v2_def
      cli_markers_v2_def sidecar_is_v2_def read_json_opt_def session_lang_opt_def session_port_def
      read_session_def persisted_line_breaks_def persisted_line_breaks_in_def symlink_metadata_def read_to_string_def
      intro!: inert_try inert_bind inert_map_err inert_reads split: sum.split option.split)

lemma inert_breaks_command:
  assumes "alone E" and "inert E count" and "is_ephemeral_target target"
  shows "inert E (breaks_command E name op body count target confirmed persist)"
proof -
  have eph: "is_ephemeral_target t" if "normalize_target_for_lang_opt lang target = Inr t" for lang t
    using that assms(3)
    by (auto simp: normalize_target_for_lang_opt_def is_ephemeral_target_def bail_def split: option.splits if_splits)
  have tail: "inert E (try_io (lift_result (normalize_target_for_lang_opt lang target)) f)"
    if "\<And>t. is_ephemeral_target t \<Longrightarrow> inert E (f t)" for lang and f :: "string option \<Rightarrow> (json result) io"
    using that eph by (cases "normalize_target_for_lang_opt lang target") (auto simp: inert_def)
  show ?thesis
    unfolding breaks_command_def
    by (auto intro!: inert_try inert_bind inert_map_err inert_reads inert_gates tail assms)
qed

text \<open>Only confirmed, global breaks are persisted: an add, remove or clear for another target than
  main leaves the whole file system as it was, whatever the bridge answers.\<close>

theorem ephemeral_breaks_persist_nothing:
  assumes "alone E" and "is_ephemeral_target target"
    and "run_state (cmd_breaks_add E name breaks target) w = (a, w1)"
    and "run_state (cmd_breaks_remove E name breaks target) w = (b, w2)"
    and "run_state (cmd_breaks_clear E name target) w = (c, w3)"
  shows "kern w1 = kern w \<and> kern w2 = kern w \<and> kern w3 = kern w"
  using inertD [OF _ assms(3)] inertD [OF _ assms(4)] inertD [OF _ assms(5)]
  by (auto simp: cmd_breaks_add_def cmd_breaks_remove_def cmd_breaks_clear_def
      intro!: inert_breaks_command inert_reads inert_gates assms)

theorem ephemeral_breaks_persist_nothing_witness:
  "kern (snd (run_state (cmd_breaks_add (demo_env ''py'') ''cart'' [''b.py:1''] (Some ''child:7'')) demo_world)) =
     kern demo_world"
proof -
  let ?E = "demo_env ''py''"
  have "alone ?E" by (simp add: alone_def demo_env_def)
  moreover have "is_ephemeral_target (Some ''child:7'')" by (simp add: is_ephemeral_target_def)
  ultimately show ?thesis
    using ephemeral_breaks_persist_nothing [OF _ _ surjective_pairing surjective_pairing surjective_pairing] by blast
qed

end
