(* ===== verification/Attach.thy ===== *)
theory Attach
  imports Breaks
begin

text \<open>
  \<open>src/session/attach.rs\<close>: which attach endpoints collide, whether a session's daemon is alive, the
  two scans for live owners, the diagnosis of a failed attach, and the redaction of the adapter's
  message. A directory scan lists the names in the order the environment gives them.
\<close>

section \<open>Endpoints\<close>

definition attach_exclusive :: "string \<Rightarrow> bool" where
  "attach_exclusive lang = (lang = ''py'' \<or> lang = ''node'' \<or> lang = ''java'')"

definition attach_endpoint :: "spawn_spec \<Rightarrow> ((string \<times> u16) option) result" where
  "attach_endpoint spec =
     (if spec_kind spec \<noteq> ''attach'' \<or> \<not> attach_exclusive (spec_lang spec) then Inr None
      else let h = (case str_field (spec_requested spec) ''host'' of Some h \<Rightarrow> h | None \<Rightarrow> []) in
        if is_unspecified_host h then
          bail (''cannot attach to unspecified address '' @ quoted h @
            '' (use localhost, 127.0.0.1, or an explicit interface address)'')
        else (case u16_field (spec_requested spec) ''port'' of
            Some p \<Rightarrow> if h \<noteq> [] then Inr (Some (h, p)) else Inr None
          | None \<Rightarrow> Inr None))"

definition listener_present :: "env \<Rightarrow> string \<Rightarrow> u16 \<Rightarrow> (bool option) io" where
  "listener_present E host port =
     (if normalize_attach_host host \<noteq> ''loopback'' then State_Monad.return None
      else do {
        readable \<leftarrow> listener_source_readable E;
        if \<not> readable then State_Monad.return None
        else do {
          p \<leftarrow> port_lookup E port;
          State_Monad.return (Some (p \<noteq> None))
        }
      })"

definition intent_endpoint :: "json \<Rightarrow> (string \<times> u16) option" where
  "intent_endpoint stops =
     (case json_get stops ''requestedTarget'' of None \<Rightarrow> None
      | Some v \<Rightarrow> (case str_field v ''host'' of None \<Rightarrow> None
        | Some host \<Rightarrow> (case u16_field v ''port'' of None \<Rightarrow> None
          | Some port \<Rightarrow> Some (host, port))))"

section \<open>Liveness\<close>

text \<open>\<open>UNIX_EPOCH.checked_add\<close> fails when the seconds do not fit an \<open>i64\<close>; a time in the future
  has no age.\<close>

definition published_recently :: "env \<Rightarrow> json \<Rightarrow> nat \<Rightarrow> bool io" where
  "published_recently E session bound =
     (case u64_field session ''updatedAt'' of
        None \<Rightarrow> State_Monad.return False
      | Some s \<Rightarrow>
          if 2 ^ 63 \<le> unat s then State_Monad.return False
          else do {
            t \<leftarrow> now E;
            State_Monad.return (secs s \<le> t \<and> t - secs s < bound)
          })"

definition RECENT_PUBLISH :: nat where
  "RECENT_PUBLISH = secs 120"

text \<open>Two attempts; the port of a missing, unreadable or malformed \<open>session.json\<close> is 0.\<close>

definition daemon_alive_in :: "env \<Rightarrow> string \<Rightarrow> bool io" where
  "daemon_alive_in E dir = do {
     parsed \<leftarrow> read_json_opt E (path_join dir ''session.json'');
     (let port = (case Option.bind parsed (\<lambda>v. u16_field v ''port'') of Some p \<Rightarrow> p | None \<Rightarrow> 0) in
      if port = 0 then State_Monad.return False
      else do {
        c1 \<leftarrow> connect_port E port;
        (case c1 of Inr _ \<Rightarrow> State_Monad.return True
         | Inl _ \<Rightarrow> do {
             c2 \<leftarrow> connect_port E port;
             (case c2 of Inr _ \<Rightarrow> State_Monad.return True
              | Inl _ \<Rightarrow> published_recently E (case parsed of Some v \<Rightarrow> v | None \<Rightarrow> jobj []) RECENT_PUBLISH)
           })
      })
   }"

definition legacy_proven_dead :: "env \<Rightarrow> string \<Rightarrow> bool io" where
  "legacy_proven_dead E dir = do {
     parsed \<leftarrow> read_json_opt E (path_join dir ''session.json'');
     (case Option.bind parsed (\<lambda>v. u16_field v ''port'') of
        None \<Rightarrow> State_Monad.return False
      | Some p \<Rightarrow>
          if p = 0 then State_Monad.return False
          else do { alive \<leftarrow> daemon_alive_in E dir; State_Monad.return (\<not> alive) })
   }"

section \<open>The bridge probe\<close>

datatype probe = Ours | NotOurs string | Unclear

definition valid_breaks_envelope :: "json \<Rightarrow> bool" where
  "valid_breaks_envelope v =
     (case bool_field v ''ok'' of
        Some True \<Rightarrow> array_field v ''stops'' \<noteq> None
      | Some False \<Rightarrow> str_field v ''error'' \<noteq> None
      | None \<Rightarrow> False)"

definition PROBE_CAP :: nat where
  "PROBE_CAP = 1024 * 1024"

text \<open>The read loop over the script of the connection: \<open>None\<close> when the script ended while the
  probe was still waiting for a read. No clock: each read has its own timeout.\<close>

fun probe_loop :: "serde \<Rightarrow> string \<Rightarrow> read_step list \<Rightarrow> probe option" where
  "probe_loop sj buf rs =
     (if PROBE_CAP < length buf then Some (NotOurs ''oversize frame'')
      else case validate_frame_size buf PROBE_CAP of
        Inl _ \<Rightarrow> Some (NotOurs ''invalid protocol'')
      | Inr _ \<Rightarrow> (case try_decode_message sj buf of
          Inl _ \<Rightarrow> Some (NotOurs ''invalid protocol'')
        | Inr (Some (v, _)) \<Rightarrow>
            Some (if valid_breaks_envelope v then Ours else NotOurs ''unexpected protocol'')
        | Inr None \<Rightarrow> (case rs of
            [] \<Rightarrow> None
          | r # rs' \<Rightarrow> (case received r of
              Inr [] \<Rightarrow> Some (NotOurs ''closed connection'')
            | Inr (b # bs) \<Rightarrow> probe_loop sj (buf @ b # bs) rs'
            | Inl e \<Rightarrow>
                if io_kind e = WouldBlock \<or> io_kind e = TimedOut then Some Unclear
                else Some (NotOurs ''connection lost'')))))"

declare probe_loop.simps [simp del]

definition probe_body :: json where
  "probe_body = jobj [(''cmd'', VString ''breaks'')]"

definition probe_connection :: "serde \<Rightarrow> exchange \<Rightarrow> probe option" where
  "probe_connection sj x =
     (case connected x of
        Some e \<Rightarrow> Some (if io_kind e = ConnectionRefused then NotOurs ''connection refused''
          else if io_kind e = ConnectionReset then NotOurs ''connection reset''
          else Unclear)
      | None \<Rightarrow>
          if set_read_timeout x \<noteq> None \<or> set_write_timeout x \<noteq> None then Some Unclear
          else if sent x \<noteq> None then Some (NotOurs ''connection lost'')
          else probe_loop sj [] (steps x))"

text \<open>Against the environment's bridge; a script that ends is a peer that hangs up.\<close>

definition probe_session_bridge :: "env \<Rightarrow> u16 \<Rightarrow> nat \<Rightarrow> probe io" where
  "probe_session_bridge E port timeout = State (\<lambda>w.
     (case probe_connection (codec E) (answered (peer E (calls w) port probe_body timeout)) of
        Some p \<Rightarrow> p | None \<Rightarrow> Unclear,
      (moved E w)\<lparr>requests := requests w @ [(port, probe_body, timeout)]\<rparr>))"

section \<open>The scans\<close>

text \<open>Whether one entry of the sessions directory is a live owner of the endpoint; the checks in
  the order of the loop body, each a \<open>continue\<close>.\<close>

definition owns_endpoint :: "env \<Rightarrow> string \<Rightarrow> string \<Rightarrow> string \<Rightarrow> u16 \<Rightarrow> string \<Rightarrow> bool io" where
  "owns_endpoint E root exclude norm port name =
     (if name = exclude \<or> check_name name \<noteq> Inr () then State_Monad.return False
      else let dir = path_join root name in do {
        m \<leftarrow> symlink_metadata E dir;
        if m \<noteq> Inr TDir then State_Monad.return False
        else do {
          stops \<leftarrow> read_json_opt E (path_join dir ''stops.json'');
          (case Option.bind stops intent_endpoint of
             None \<Rightarrow> State_Monad.return False
           | Some (eh, ep) \<Rightarrow>
               if ep \<noteq> port \<or> normalize_attach_host eh \<noteq> norm then State_Monad.return False
               else do {
                 lang \<leftarrow> session_lang_opt E dir;
                 if \<not> attach_exclusive (case lang of Some l \<Rightarrow> l | None \<Rightarrow> []) then State_Monad.return False
                 else do {
                   sess \<leftarrow> read_json_opt E (path_join dir ''session.json'');
                   (case Option.bind sess (\<lambda>v. str_field v ''kind'') of
                      None \<Rightarrow> State_Monad.return False
                    | Some k \<Rightarrow>
                        if k = ''attach'' \<or> k = ''launch'' then daemon_alive_in E dir
                        else State_Monad.return False)
                 }
               })
        }
      })"

fun first_that :: "(string \<Rightarrow> bool io) \<Rightarrow> string list \<Rightarrow> (string option) io" where
  "first_that p [] = State_Monad.return None"
| "first_that p (x # xs) = do { b \<leftarrow> p x; if b then State_Monad.return (Some x) else first_that p xs }"

definition find_live_endpoint_owner_in ::
    "env \<Rightarrow> string \<Rightarrow> string \<Rightarrow> string \<Rightarrow> u16 \<Rightarrow> (string option) io" where
  "find_live_endpoint_owner_in E sessions_root exclude host port = do {
     entries \<leftarrow> read_dir E sessions_root;
     (case entries of
        Inl _ \<Rightarrow> State_Monad.return None
      | Inr names \<Rightarrow>
          first_that (owns_endpoint E sessions_root exclude (normalize_attach_host host) port)
            (map from_utf8_lossy names))
   }"

definition live_legacy :: "env \<Rightarrow> string \<Rightarrow> string \<Rightarrow> string \<Rightarrow> bool io" where
  "live_legacy E root exclude name =
     (if name = exclude \<or> check_name name \<noteq> Inr () then State_Monad.return False
      else let dir = path_join root name in do {
        m \<leftarrow> symlink_metadata E dir;
        if m \<noteq> Inr TDir then State_Monad.return False
        else do {
          v2 \<leftarrow> cli_markers_v2 E dir;
          if v2 then State_Monad.return False
          else do {
            lang \<leftarrow> session_lang_opt E dir;
            if lang = Some ''browser'' then State_Monad.return False
            else do {
              sess \<leftarrow> read_json_opt E (path_join dir ''session.json'');
              (case Option.bind sess (\<lambda>v. str_field v ''kind'') of
                 None \<Rightarrow> State_Monad.return False
               | Some k \<Rightarrow>
                   if k = ''attach'' \<or> k = ''launch'' then daemon_alive_in E dir
                   else State_Monad.return False)
            }
          }
        }
      })"

fun all_that :: "(string \<Rightarrow> bool io) \<Rightarrow> string list \<Rightarrow> (string list) io" where
  "all_that p [] = State_Monad.return []"
| "all_that p (x # xs) = do { b \<leftarrow> p x; ys \<leftarrow> all_that p xs; State_Monad.return (if b then x # ys else ys) }"

definition find_live_legacy_sessions_in :: "env \<Rightarrow> string \<Rightarrow> string \<Rightarrow> (string list) io" where
  "find_live_legacy_sessions_in E sessions_root exclude = do {
     entries \<leftarrow> read_dir E sessions_root;
     (case entries of
        Inl _ \<Rightarrow> State_Monad.return []
      | Inr names \<Rightarrow> do {
          out \<leftarrow> all_that (live_legacy E sessions_root exclude) (map from_utf8_lossy names);
          State_Monad.return (sort out)
        })
   }"

section \<open>Diagnosis\<close>

definition opt_bool :: "bool option \<Rightarrow> json" where
  "opt_bool b = (case b of Some v \<Rightarrow> VBool v | None \<Rightarrow> VNull)"

definition classify_attach :: "bool option \<Rightarrow> bool option \<Rightarrow> string \<times> string \<times> string" where
  "classify_attach pre post =
     (case (pre, post) of
        (Some True, Some False) \<Rightarrow> (''endpoint-closed-during-attach'', ''medium'',
          ''the debug server was listening before attach but is gone now; the target may have exited '' @
          [CHR 0xE2, CHR 0x80, CHR 0x94] @ '' restart it and retry'')
      | (Some True, Some True) \<Rightarrow> (''endpoint-rejected'', ''medium'',
          ''the listener is up but refused the handshake; it may already have another debugger client '' @
          [CHR 0xE2, CHR 0x80, CHR 0x94] @ '' use that session, or restart the target without the existing client and retry'')
      | (Some False, Some True) \<Rightarrow> (''endpoint-rejected'', ''medium'',
          ''the listener is up but refused the handshake; it may already have another debugger client '' @
          [CHR 0xE2, CHR 0x80, CHR 0x94] @ '' use that session, or restart the target without the existing client and retry'')
      | (Some False, Some False) \<Rightarrow> (''endpoint-not-listening'', ''high'',
          ''nothing listens on this endpoint; verify the target was started with the debug server on this host/port and retry'')
      | _ \<Rightarrow> (''endpoint-unreachable'', ''low'',
          ''the host cannot be inspected locally; verify the host/port are reachable and the debug server is up, then retry''))"

definition attach_diagnosis :: "bool option \<Rightarrow> bool option \<Rightarrow> string \<Rightarrow> json" where
  "attach_diagnosis pre post endpoint =
     (case classify_attach pre post of (c, confidence, recommendation) \<Rightarrow>
        jobj [(''code'', VString c), (''confidence'', VString confidence),
          (''evidence'', jobj [(''endpoint'', VString endpoint), (''listenerBefore'', opt_bool pre),
             (''listenerAfter'', opt_bool post)]),
          (''recommendation'', VString recommendation)])"

definition HOST_CAP :: nat where
  "HOST_CAP = 128"

definition display_endpoint :: "string \<Rightarrow> u16 \<Rightarrow> string" where
  "display_endpoint host port =
     (let h = (if HOST_CAP < chars_count host then trunc_chars host HOST_CAP else host) in
      if CHR '':'' \<in> set h \<and> \<not> (starts_with h ''['' \<and> ends_with h '']'')
      then ''['' @ h @ '']:'' @ show_nat (unat port)
      else h @ '':'' @ show_nat (unat port))"

definition diagnosed_attach_error :: "string \<Rightarrow> string \<Rightarrow> string" where
  "diagnosed_attach_error c endpoint =
     (if c = ''endpoint-not-listening'' then
        ''attach failed: no debug listener found at '' @ endpoint
      else if c = ''endpoint-closed-during-attach'' then
        ''attach failed: debug endpoint closed while attaching ('' @ endpoint @ '')''
      else if c = ''endpoint-rejected'' then
        ''attach failed: debug endpoint rejected the connection at '' @ endpoint @
        ''; it may already have another debugger client''
      else if c = ''endpoint-unreachable'' then
        ''attach failed: could not reach debug endpoint at '' @ endpoint @
        '' (unverified; check host/port)''
      else ''attach failed: could not attach to '' @ endpoint)"

definition is_config_phase :: "string option \<Rightarrow> bool" where
  "is_config_phase phase = (phase = Some ''config'')"

definition is_runtime_phase :: "string option \<Rightarrow> bool" where
  "is_runtime_phase phase = (phase = Some ''runtime'')"

section \<open>The cause\<close>

definition CAUSE_CAP :: nat where
  "CAUSE_CAP = 2048"

text \<open>The name in front of a separator, read backwards from the end of what has been written.\<close>

definition trailing_name :: "string \<Rightarrow> string" where
  "trailing_name out =
     rev (takeWhile is_name_byte
       (dropWhile (\<lambda>c. c \<in> {CHR 0x22, CHR 0x27, CHR '' '', CHR 0x09})
         (dropWhile (\<lambda>c. c \<in> set ''?&;#'') (rev out))))"

definition quote_char :: "string \<Rightarrow> bool" where
  "quote_char g = (g = [CHR 0x22] \<or> g = [CHR 0x27])"

definition value_char :: "string \<Rightarrow> bool" where
  "value_char g =
     (\<not> is_whitespace g \<and> g \<notin> {''&'', '';'', '','', [CHR 0x22], [CHR 0x27], '')''})"

text \<open>The characters still to read, and what has been written; \<open>bytes\<close> of the source is the list of
  characters, a character here its bytes.\<close>

function mask_keyed :: "string \<Rightarrow> string list \<Rightarrow> string" where
  "mask_keyed out [] = out"
| "mask_keyed out (c # cs) =
     (if c = ''='' \<or> c = '':'' then
        let head = trailing_name out;
            spaces = takeWhile is_whitespace cs;
            rest = dropWhile is_whitespace cs;
            quote = (case rest of q # _ \<Rightarrow> if quote_char q then [q] else [] | [] \<Rightarrow> []);
            from = drop (length quote) rest;
            val = concat (takeWhile value_char from) in
        if eq_ignore_ascii_case val ''bearer'' \<or> eq_ignore_ascii_case val ''basic'' then
          mask_keyed (out @ c) cs
        else if head \<noteq> [] \<and> is_secret_flag head \<and> val \<noteq> [] \<and> \<not> starts_with val ''//'' then
          mask_keyed (out @ c @ (if spaces \<noteq> [] then '' '' else []) @ concat quote @ redacted)
            (dropWhile value_char from)
        else mask_keyed (out @ c) cs
      else mask_keyed (out @ c) cs)"
  by pat_completeness auto
termination
proof (relation "measure (\<lambda>(out, cs). length cs)", goal_cases)
  case (3 out c cs x xa xb xc xd xe)
  then show ?case
    using length_dropWhile_le [of value_char "drop (length xc) (dropWhile is_whitespace cs)"]
      length_dropWhile_le [of is_whitespace cs] by simp
qed simp_all

definition mask_keyed_values :: "string \<Rightarrow> string" where
  "mask_keyed_values s = mask_keyed [] (utf8_chars s)"

text \<open>\<open>find\<close> of a text: the index of its first occurrence.\<close>

fun str_find :: "string \<Rightarrow> string \<Rightarrow> nat option" where
  "str_find [] p = (if p = [] then Some 0 else None)"
| "str_find (c # s) p = (if starts_with (c # s) p then Some 0 else map_option Suc (str_find s p))"

lemma starts_with_length: "starts_with s p \<Longrightarrow> length p \<le> length s"
  unfolding starts_with_def by (metis length_take min.cobounded1)

lemma str_find_bound: "str_find s p = Some i \<Longrightarrow> i + length p \<le> length s"
proof (induction s arbitrary: i)
  case (Cons c s)
  then show ?case
    using starts_with_length [of "c # s" p] by (fastforce split: if_splits)
qed (simp split: if_splits)

text \<open>The two schemes of the pass, in lower case with the space that follows.\<close>

datatype scheme = Bearer | Basic

fun scheme_text :: "scheme \<Rightarrow> string" where
  "scheme_text Bearer = ''bearer ''"
| "scheme_text Basic = ''basic ''"

definition token_byte :: "char \<Rightarrow> bool" where
  "token_byte b = (\<not> is_ascii_whitespace b \<and> b \<notin> {CHR 0x22, CHR 0x27, CHR '','', CHR '';'', CHR '')''})"

lemma scheme_text_not_Nil [simp]: "scheme_text sc \<noteq> []"
  by (cases sc) simp_all

function mask_scheme_token :: "string \<Rightarrow> scheme \<Rightarrow> string" where
  "mask_scheme_token rest sc =
     (case str_find (to_ascii_lowercase rest) (scheme_text sc) of
        None \<Rightarrow> rest
      | Some pos \<Rightarrow>
          let token_start = pos + length (scheme_text sc);
              token = takeWhile token_byte (drop token_start rest) in
          if token \<noteq> [] then
            take token_start rest @ redacted @ mask_scheme_token (dropWhile token_byte (drop token_start rest)) sc
          else take token_start rest @ mask_scheme_token (drop token_start rest) sc)"
  by pat_completeness auto
termination
proof (relation "measure (\<lambda>(rest, sc). length rest)", goal_cases)
  case (2 rest sc pos ts tok)
  have "pos + length (scheme_text sc) \<le> length rest"
    using str_find_bound [OF 2(1)] by simp
  then show ?case
    using 2(2) length_dropWhile_le [of token_byte "drop ts rest"] by (cases sc) simp_all
next
  case (3 rest sc pos ts tok)
  have "pos + length (scheme_text sc) \<le> length rest"
    using str_find_bound [OF 3(1)] by simp
  then show ?case
    using 3(2) by (cases sc) simp_all
qed simp

declare mask_scheme_token.simps [simp del]

definition mask_bearer :: "string \<Rightarrow> string" where
  "mask_bearer s = mask_scheme_token (mask_scheme_token s Bearer) Basic"

text \<open>Alternating spans of words (\<open>True\<close>) and ASCII white space.\<close>

fun spans :: "string \<Rightarrow> (bool \<times> string) list" where
  "spans [] = []"
| "spans (c # s) =
     (let word = (\<not> is_ascii_whitespace c); same = (\<lambda>b. (\<not> is_ascii_whitespace b) = word) in
      (word, c # takeWhile same s) # spans (dropWhile same s))"

definition bare_secret :: "string \<Rightarrow> bool" where
  "bare_secret span = (is_secret_flag span \<and> CHR ''='' \<notin> set span \<and> CHR '':'' \<notin> set span)"

fun mask_spans :: "bool \<Rightarrow> (bool \<times> string) list \<Rightarrow> string" where
  "mask_spans pending [] = []"
| "mask_spans pending ((is_word, span) # rest) =
     (if \<not> is_word then span @ mask_spans pending rest
      else if pending then
        (if starts_with span ''-'' \<and> 1 < length span then span @ mask_spans (bare_secret span) rest
         else redacted @ mask_spans False rest)
      else span @ mask_spans (bare_secret span) rest)"

definition mask_bare_flag_values :: "string \<Rightarrow> string" where
  "mask_bare_flag_values s = mask_spans False (spans s)"

definition redact_cause_secrets :: "string \<Rightarrow> string" where
  "redact_cause_secrets raw = mask_bare_flag_values (mask_bearer (mask_keyed_values raw))"

definition sanitize_cause :: "string \<Rightarrow> string" where
  "sanitize_cause raw =
     (let r = redact_cause_secrets raw in
      if chars_count r \<le> CAUSE_CAP then r else trunc_chars r CAUSE_CAP)"

section \<open>Properties of the probe\<close>

lemma probe_loop_verdict:
  assumes "frameable sj v" "length (encode_message sj v @ rest) \<le> PROBE_CAP"
    and "\<forall>r\<in>set rs. \<exists>b bs. received r = Inr (b # bs)"
    and "buf @ concat (map chunk_of rs) = encode_message sj v @ rest"
  shows "probe_loop sj buf (rs @ more_steps) =
    Some (if valid_breaks_envelope v then Ours else NotOurs ''unexpected protocol'')"
  using assms(3,4)
proof (induction rs arbitrary: buf)
  case Nil
  then have "buf @ [] = encode_message sj v @ rest" by simp
  from dap.check_partial [OF assms(1) this assms(2)] dap.decode_partial [OF assms(1) this] Nil assms(2)
  show ?case by (subst probe_loop.simps) simp
next
  case (Cons r rs)
  have buf: "buf @ concat (map chunk_of (r # rs)) = encode_message sj v @ rest"
    by (rule Cons.prems(2))
  obtain b bs where r: "received r = Inr (b # bs)" using Cons.prems(1) by auto
  have cap: "\<not> PROBE_CAP < length buf"
    using buf assms(2) by (metis length_append le_add1 le_trans not_le)
  have rest': "(buf @ chunk_of r) @ concat (map chunk_of rs) = encode_message sj v @ rest"
    using buf by simp
  show ?case
    using dap.check_partial [OF assms(1) buf assms(2)] dap.decode_partial [OF assms(1) buf] cap
      Cons.IH [OF _ rest'] Cons.prems(1) r
    by (subst probe_loop.simps) (simp add: chunk_of_def)
qed

text \<open>Whatever chunks the peer's answer arrives in, and however long it takes, the probe's verdict is that of
  the decoded value: our bridge exactly when it is a debugger envelope, a stranger otherwise.\<close>

theorem probe_verdict:
  assumes "connected x = None" "set_read_timeout x = None" "set_write_timeout x = None" "sent x = None"
    and "frameable sj v" "length (encode_message sj v @ rest) \<le> PROBE_CAP"
    and "steps x = rs @ more_steps" "\<forall>r\<in>set rs. \<exists>b bs. received r = Inr (b # bs)"
    and "concat (map chunk_of rs) = encode_message sj v @ rest"
  shows "probe_connection sj x =
    Some (if valid_breaks_envelope v then Ours else NotOurs ''unexpected protocol'')"
  using assms probe_loop_verdict [OF assms(5,6,8), of "[]"] by (simp add: probe_connection_def)

theorem probe_verdict_witness:
  "probe_connection (demo_codec ''py'') (demo_exchange_of (demo_codec ''py'') demo_reply) = Some Ours"
proof -
  let ?sj = "demo_codec ''py''"
  have len: "length (encode_message ?sj demo_reply @ []) \<le> PROBE_CAP"
    using length_frame_header_bound [of "Suc (Suc (Suc 0))"]
    by (simp add: encode_message_eq PROBE_CAP_def)
  have "valid_breaks_envelope demo_reply"
    by (simp add: valid_breaks_envelope_def demo_reply_def json_access)
  then show ?thesis
    using probe_verdict [OF _ _ _ _ demo_frameable len, of "demo_exchange_of ?sj demo_reply"
        "steps (demo_exchange_of ?sj demo_reply)" "[]"]
    by (simp add: demo_exchange_of_def chunk_of_def encode_message_eq frame_header_def)
qed

lemma probe_loop_reads:
  "PROBE_CAP < length buf + length rs \<Longrightarrow> probe_loop sj buf rs \<noteq> None"
proof (induction rs arbitrary: buf)
  case Nil
  then show ?case by (subst probe_loop.simps) simp
next
  case (Cons r rs)
  then show ?case
    by (subst probe_loop.simps) (auto split: sum.split option.split list.split)
qed

text \<open>The probe ends: a peer that feeds bytes for ever without completing a frame gets its
  verdict after at most a megabyte of reads. (The bound is on the reads, each of which has the
  whole timeout to itself, not on the elapsed time.)\<close>

theorem probe_ends:
  assumes "PROBE_CAP < length (steps x)"
  shows "probe_connection sj x \<noteq> None"
  using probe_loop_reads [of "[]" "steps x" sj] assms by (auto simp: probe_connection_def split: option.split)

theorem probe_ends_witness:
  "probe_connection brace_serde (demo_exchange\<lparr>steps := replicate 1048577 hang_up\<rparr>) \<noteq> None"
  by (rule probe_ends) (simp add: PROBE_CAP_def)

section \<open>Properties of the scans\<close>

text \<open>An environment in which nothing else happens: no fault, no other process, a clock that stands
  at \<open>t\<close>, the ports \<open>up\<close> accept and the others refuse.\<close>

definition settled :: "env \<Rightarrow> nat \<Rightarrow> u16 set \<Rightarrow> bool" where
  "settled E t up =
     (alone E \<and> (\<forall>n. fault E n = None \<and> clock E n = t \<and> (\<forall>p. tcp_connect E n p = (if p \<in> up then None else Some (os ConnectionRefused)))))"

lemma settled_simps:
  assumes "settled E t up"
  shows "fault E n = None" "tcp_connect E n p = (if p \<in> up then None else Some (os ConnectionRefused))" "clock E n = t" "seen E w = kern w"
    "interfere E n k = k"
  using assms unfolding settled_def alone_def seen_def by blast+

text \<open>A program that answers \<open>a\<close> in a state \<open>k\<close> of the kernel and leaves it as it is.\<close>

definition answers :: "kern \<Rightarrow> 'a io \<Rightarrow> 'a \<Rightarrow> bool" where
  "answers k m a = (\<forall>w :: world. kern w = k \<longrightarrow> fst (run_state m w) = a \<and> kern (snd (run_state m w)) = k)"

lemma answersD: "answers k m a \<Longrightarrow> kern (w :: world) = k \<Longrightarrow> run_state m w = (r, w') \<Longrightarrow> r = a \<and> kern w' = k"
  by (metis answers_def fst_conv snd_conv)

lemma answers_return: "a = b \<Longrightarrow> answers k (State_Monad.return a) b"
  by (simp add: answers_def)

lemma answers_bind:
  assumes "answers k m a" and "answers k (f a) b"
  shows "answers k (State_Monad.bind m f) b"
  unfolding answers_def
proof (intro allI impI)
  fix w :: world assume k: "kern w = k"
  obtain r w1 where run: "run_state m w = (r, w1)" by fastforce
  from answersD [OF assms(1) k run] assms(2)
  show "fst (run_state (State_Monad.bind m f) w) = b \<and> kern (snd (run_state (State_Monad.bind m f) w)) = k"
    by (simp add: State_Monad.bind_def run answers_def)
qed

lemma answers_reads:
  assumes "settled E t up"
  shows "answers k (read_json_opt E path) (json_at E k path)"
    and "answers k (session_lang_opt E dir)
      (Option.bind (json_at E k (path_join dir ''lang.json'')) (\<lambda>v. str_field v ''lang''))"
    and "answers k (symlink_metadata E path) (k_lstat path k)"
    and "answers k (now E) t"
  using settled_simps [OF assms]
  by (simp_all add: answers_def session_lang_opt_def State_Monad.bind_def symlink_metadata_def)

lemma answers_connect:
  assumes "settled E t up" and "answers k m b"
  shows "answers k (do { c1 \<leftarrow> connect_port E port;
      (case c1 of Inr _ \<Rightarrow> State_Monad.return True | Inl _ \<Rightarrow> do { c2 \<leftarrow> connect_port E port;
        (case c2 of Inr _ \<Rightarrow> State_Monad.return True | Inl _ \<Rightarrow> m) }) })
    (port \<in> up \<or> b)"
proof -
  have c: "answers k (connect_port E port) (if port \<in> up then Inr () else Inl (os ConnectionRefused))"
    using settled_simps [OF assms(1)] by (simp add: answers_def)
  show ?thesis
    by (rule answers_bind [OF c], cases "port \<in> up")
      (auto intro!: answers_return answers_bind [OF c] assms(2))
qed

text \<open>A daemon is alive in a state: its recorded port accepts, or it published within two minutes.\<close>

definition recent_at :: "nat \<Rightarrow> json \<Rightarrow> bool" where
  "recent_at t v =
     (\<exists>s. u64_field v ''updatedAt'' = Some s \<and> unat s < 2 ^ 63 \<and> secs s \<le> t \<and> t < secs s + secs 120)"

definition alive_at :: "env \<Rightarrow> nat \<Rightarrow> u16 set \<Rightarrow> kern \<Rightarrow> string \<Rightarrow> bool" where
  "alive_at E t up k dir =
     (\<exists>v p. json_at E k (path_join dir ''session.json'') = Some v \<and> u16_field v ''port'' = Some p \<and> p \<noteq> 0 \<and>
        (p \<in> up \<or> recent_at t v))"

definition owner_at ::
    "env \<Rightarrow> nat \<Rightarrow> u16 set \<Rightarrow> kern \<Rightarrow> string \<Rightarrow> string \<Rightarrow> string \<Rightarrow> u16 \<Rightarrow> string \<Rightarrow> bool" where
  "owner_at E t up k root exclude host port name =
     (let dir = path_join root name in
      name \<noteq> exclude \<and> plain_segment name \<and> is_dir (files k dir) \<and>
      (\<exists>v eh. json_at E k (path_join dir ''stops.json'') = Some v \<and> intent_endpoint v = Some (eh, port) \<and>
         normalize_attach_host eh = normalize_attach_host host) \<and>
      (\<exists>v l. json_at E k (path_join dir ''lang.json'') = Some v \<and> str_field v ''lang'' = Some l \<and> attach_exclusive l) \<and>
      (\<exists>v c. json_at E k (path_join dir ''session.json'') = Some v \<and> str_field v ''kind'' = Some c \<and>
         c \<in> {''attach'', ''launch''}) \<and>
      alive_at E t up k dir)"

lemma answers_recent:
  assumes "settled E t up"
  shows "answers k (published_recently E v RECENT_PUBLISH) (recent_at t v)"
proof (cases "u64_field v ''updatedAt''")
  case None
  then show ?thesis by (simp add: published_recently_def recent_at_def answers_return)
next
  case (Some s)
  have "answers k (do { t \<leftarrow> now E; State_Monad.return (secs s \<le> t \<and> t - secs s < RECENT_PUBLISH) })
      (secs s \<le> t \<and> t < secs s + secs 120)"
    by (rule answers_bind [OF answers_reads(4) [OF assms]], rule answers_return) (auto simp: RECENT_PUBLISH_def)
  then show ?thesis
    by (simp add: published_recently_def recent_at_def Some answers_return not_le)
qed

lemma answers_alive:
  assumes "settled E t up"
  shows "answers k (daemon_alive_in E dir) (alive_at E t up k dir)"
  unfolding daemon_alive_in_def
proof (rule answers_bind [OF answers_reads(1) [OF assms]], unfold Let_def, goal_cases)
  case 1
  let ?v = "json_at E k (path_join dir ''session.json'')"
  show ?case
  proof (cases "Option.bind ?v (\<lambda>v. u16_field v ''port'')")
    case None
    then show ?thesis by (auto simp: alive_at_def intro!: answers_return)
  next
    case (Some p)
    then obtain v where v: "?v = Some v" "u16_field v ''port'' = Some p" by (auto simp: bind_eq_Some_conv)
    show ?thesis
      using answers_connect [OF assms answers_recent [OF assms, of k v], of p] v
      by (auto simp: alive_at_def Some intro: answers_return)
  qed
qed

lemma k_lstat_dir: "k_lstat p k = Inr TDir \<longleftrightarrow> is_dir (files k p)"
proof (cases "files k p")
  case (Some n)
  then show ?thesis by (cases n) (simp_all add: k_lstat_def)
qed (simp add: k_lstat_def)

lemma answers_unless: "answers k m q \<Longrightarrow> answers k (if b then State_Monad.return False else m) (\<not> b \<and> q)"
  by (auto intro: answers_return)

text \<open>Both scans end alike: an attach or a launch whose daemon is alive.\<close>

lemma answers_kind:
  assumes "settled E t up"
  shows "answers k (do { sess \<leftarrow> read_json_opt E (path_join dir ''session.json'');
      (case Option.bind sess (\<lambda>v. str_field v ''kind'') of
         None \<Rightarrow> State_Monad.return False
       | Some c \<Rightarrow> if c = ''attach'' \<or> c = ''launch'' then daemon_alive_in E dir else State_Monad.return False) })
    (Option.bind (json_at E k (path_join dir ''session.json'')) (\<lambda>v. str_field v ''kind'') \<in> {Some ''attach'', Some ''launch''} \<and>
     alive_at E t up k dir)"
  by (rule answers_bind [OF answers_reads(1) [OF assms]])
    (auto split: option.split intro: answers_alive [OF assms] intro!: answers_return)

lemma answers_owner:
  assumes "settled E t up"
  shows "answers k (owns_endpoint E root exclude (normalize_attach_host host) port name)
    (owner_at E t up k root exclude host port name)"
proof -
  let ?dir = "path_join root name"
  let ?intent = "Option.bind (json_at E k (path_join ?dir ''stops.json'')) intent_endpoint"
  let ?lang = "Option.bind (json_at E k (path_join ?dir ''lang.json'')) (\<lambda>v. str_field v ''lang'')"
  let ?ends = "Option.bind (json_at E k (path_join ?dir ''session.json'')) (\<lambda>v. str_field v ''kind'') \<in> {Some ''attach'', Some ''launch''} \<and>
     alive_at E t up k ?dir"
  note reads = answers_reads [OF assms]
  have lang: "answers k (do { lang \<leftarrow> session_lang_opt E ?dir;
      if \<not> attach_exclusive (case lang of Some l \<Rightarrow> l | None \<Rightarrow> []) then State_Monad.return False
      else do { sess \<leftarrow> read_json_opt E (path_join ?dir ''session.json'');
        (case Option.bind sess (\<lambda>v. str_field v ''kind'') of
           None \<Rightarrow> State_Monad.return False
         | Some c \<Rightarrow> if c = ''attach'' \<or> c = ''launch'' then daemon_alive_in E ?dir else State_Monad.return False) } })
      (\<not> \<not> attach_exclusive (case ?lang of Some l \<Rightarrow> l | None \<Rightarrow> []) \<and> ?ends)"
    by (rule answers_bind [OF reads(2)], rule answers_unless, rule answers_kind [OF assms])
  have none: "\<not> attach_exclusive []" by (simp add: attach_exclusive_def)
  have stops: "answers k (do { stops \<leftarrow> read_json_opt E (path_join ?dir ''stops.json'');
      (case Option.bind stops intent_endpoint of
         None \<Rightarrow> State_Monad.return False
       | Some (eh, ep) \<Rightarrow>
           if ep \<noteq> port \<or> normalize_attach_host eh \<noteq> normalize_attach_host host then State_Monad.return False
           else do { lang \<leftarrow> session_lang_opt E ?dir;
             if \<not> attach_exclusive (case lang of Some l \<Rightarrow> l | None \<Rightarrow> []) then State_Monad.return False
             else do { sess \<leftarrow> read_json_opt E (path_join ?dir ''session.json'');
               (case Option.bind sess (\<lambda>v. str_field v ''kind'') of
                  None \<Rightarrow> State_Monad.return False
                | Some c \<Rightarrow> if c = ''attach'' \<or> c = ''launch'' then daemon_alive_in E ?dir else State_Monad.return False) } }) })
      ((\<exists>eh. ?intent = Some (eh, port) \<and> normalize_attach_host eh = normalize_attach_host host) \<and>
       (\<exists>l. ?lang = Some l \<and> attach_exclusive l) \<and> ?ends)"
    by (rule answers_bind [OF reads(1)], cases ?intent; cases ?lang)
      (use lang none in \<open>auto intro!: answers_return\<close>)
  have dir: "answers k (do { m \<leftarrow> symlink_metadata E ?dir; if m \<noteq> Inr TDir then State_Monad.return False else rest })
      (is_dir (files k ?dir) \<and> b)" if "answers k rest b" for rest b
    unfolding k_lstat_dir [symmetric] by (rule answers_bind [OF reads(3)]) (use that in \<open>auto intro!: answers_return\<close>)
  have "owner_at E t up k root exclude host port name = (name \<noteq> exclude \<and> plain_segment name \<and> is_dir (files k ?dir) \<and>
      (\<exists>eh. ?intent = Some (eh, port) \<and> normalize_attach_host eh = normalize_attach_host host) \<and>
      (\<exists>l. ?lang = Some l \<and> attach_exclusive l) \<and> ?ends)"
    by (auto simp: owner_at_def Let_def bind_eq_Some_conv)
  then show ?thesis
    using dir [OF stops]
    by (cases "name = exclude"; cases "plain_segment name")
      (simp_all add: owns_endpoint_def Let_def check_name_plain answers_return)
qed

lemma answers_first_that:
  assumes "\<And>x. answers k (p x) (q x)"
  shows "answers k (first_that p xs) (find q xs)"
proof (induction xs)
  case (Cons x xs)
  show ?case
    unfolding first_that.simps
    by (rule answers_bind [OF assms]) (auto simp: Cons.IH intro!: answers_return)
qed (simp add: answers_return)

text \<open>The collision scan misses no live owner, whatever noise surrounds it: it answers the first
  listed entry that is a real directory with a valid name, not the session being started, whose
  intent names the same normalized endpoint, whose language is exclusive, whose kind is attach or
  launch and whose daemon is alive, and it answers none exactly when no entry is one. Nothing in
  the file system is touched.\<close>

theorem live_owner_found:
  assumes "settled E t up"
    and "run_state (find_live_endpoint_owner_in E root exclude host port) w = (r, w')"
  shows "r = (case k_read_dir (dir_names E (calls w) root) (path_join root) root (kern w) of
      Inl _ \<Rightarrow> None
    | Inr names \<Rightarrow> find (owner_at E t up (kern w) root exclude host port) (map from_utf8_lossy names)) \<and>
    kern w' = kern w"
proof -
  note scan = answers_first_that [OF answers_owner [OF assms(1)], where k = "kern w"]
  show ?thesis
  proof (cases "k_read_dir (dir_names E (calls w) root) (path_join root) root (kern w)")
    case (Inl e)
    then show ?thesis
      using assms(2) settled_simps [OF assms(1)]
      by (auto simp: find_live_endpoint_owner_in_def State_Monad.bind_def)
  next
    case (Inr names)
    with assms(2) settled_simps [OF assms(1)]
    have "run_state (first_that (owns_endpoint E root exclude (normalize_attach_host host) port)
        (map from_utf8_lossy names)) (moved E w) = (r, w')"
      by (simp add: find_live_endpoint_owner_in_def State_Monad.bind_def)
    from answersD [OF scan _ this] settled_simps [OF assms(1)] Inr show ?thesis
      by simp
  qed
qed

definition owner_intent :: json where
  "owner_intent = jobj [(''requestedTarget'', jobj [(''host'', VString ''db''), (''port'', num 5678)])]"

definition owner_session :: json where
  "owner_session = jobj [(''kind'', VString ''attach''), (''port'', num 4000)]"

definition owner_env :: env where
  "owner_env = (still_env (table_serde [(''{S}'', owner_intent), (''{L}'', demo_lang ''py''), (''{P}'', owner_session)]))
     \<lparr>clock := \<lambda>_. 0, dir_names := \<lambda>_ _. [''old'', ''cart''],
      tcp_connect := \<lambda>_ p. if p \<in> {4000} then None else Some (os ConnectionRefused)\<rparr>"

definition owner_world :: world where
  "owner_world = world_of [
     (''/s'', Dir 0), (''/s/old'', Link ''/s/cart''), (''/s/cart'', Dir 0),
     (''/s/cart/lang.json'', File 1 ''{L}'' 0), (''/s/cart/stops.json'', File 2 ''{S}'' 0),
     (''/s/cart/session.json'', File 3 ''{P}'' 0)]"

theorem live_owner_found_witness:
  "fst (run_state (find_live_endpoint_owner_in owner_env ''/s'' ''new'' ''db'' 5678) owner_world) = Some ''cart''"
proof -
  let ?k = "kern owner_world"
  have settled: "settled owner_env 0 {4000}"
    by (auto simp: settled_def owner_env_def alone_def)
  have joins: "path_join ''/s'' ''old'' = ''/s/old''" "path_join ''/s'' ''cart'' = ''/s/cart''"
    "path_join ''/s/cart'' f = (if starts_with f ''/'' then f else ''/s/cart/'' @ f)" for f
    by (simp_all add: path_join_def starts_with_def)
  have reads: "json_at owner_env ?k ''/s/cart/lang.json'' = Some (demo_lang ''py'')"
    "json_at owner_env ?k ''/s/cart/stops.json'' = Some owner_intent"
    "json_at owner_env ?k ''/s/cart/session.json'' = Some owner_session"
    by (simp_all add: json_at_def k_read_to_string_def k_read_def k_stat_def follow_def numeral_eq_Suc
        owner_world_def owner_env_def table_serde_def code_def)
  have "\<not> owner_at owner_env 0 {4000} ?k ''/s'' ''new'' ''db'' 5678 ''old''"
    by (simp add: owner_at_def joins owner_world_def)
  moreover have "owner_at owner_env 0 {4000} ?k ''/s'' ''new'' ''db'' 5678 ''cart''"
    by (simp add: owner_at_def alive_at_def joins reads starts_with_def plain_segment_def)
      (simp add: owner_world_def owner_intent_def owner_session_def demo_lang_def intent_endpoint_def json_access
        num_def u16_try_from_def attach_exclusive_def)
  moreover have "k_read_dir (dir_names owner_env (calls owner_world) ''/s'') (path_join ''/s'') ''/s'' ?k =
      Inr [''old'', ''cart'']"
    by (simp add: k_read_dir_def k_stat_def follow_def numeral_eq_Suc owner_world_def owner_env_def joins)
  moreover have "from_utf8_lossy ''old'' = ''old''" "from_utf8_lossy ''cart'' = ''cart''"
    by (simp_all add: utf8_step_def code_def)
  ultimately show ?thesis
    using live_owner_found [OF settled surjective_pairing, of "''/s''" "''new''" "''db''" 5678 owner_world] by simp
qed

section \<open>Properties of the redaction\<close>

lemma str_find_first:
  "str_find s p = Some i \<Longrightarrow> starts_with (drop i s) p \<and> (\<forall>j<i. \<not> starts_with (drop j s) p)"
proof (induction s arbitrary: i)
  case (Cons c s)
  then show ?case
    by (auto split: if_splits simp: less_Suc_eq_0_disj)
qed (simp add: starts_with_def split: if_splits)

lemma str_find_none: "str_find s p = None \<Longrightarrow> p \<noteq> [] \<Longrightarrow> \<not> starts_with (drop j s) p"
proof (induction s arbitrary: j)
  case (Cons c s)
  then show ?case by (cases j) (auto split: if_splits)
qed (simp add: starts_with_def)

lemma lower_drop: "to_ascii_lowercase (drop n s) = drop n (to_ascii_lowercase s)"
  and lower_take: "to_ascii_lowercase (take n s) = take n (to_ascii_lowercase s)"
  by (simp_all add: to_ascii_lowercase_def drop_map take_map)

text \<open>The first letter of a scheme occurs nowhere else in it, nor in the mark; so no occurrence
  overlaps another one or a mark.\<close>

lemma starts_with_nth:
  "starts_with s p \<Longrightarrow> j < length p \<Longrightarrow> j < length s \<and> s ! j = p ! j"
  using starts_with_length [of s p] unfolding starts_with_def by (metis nth_take order_less_le_trans)

lemma scheme_letter:
  "j < length (scheme_text sc) \<Longrightarrow> scheme_text sc ! j = CHR ''b'' \<longleftrightarrow> j = 0"
proof -
  have "\<forall>j<length (scheme_text sc). scheme_text sc ! j = CHR ''b'' \<longleftrightarrow> j = 0"
    by (cases sc) (simp_all add: All_less_Suc numeral_nat)
  then show "j < length (scheme_text sc) \<Longrightarrow> ?thesis" by blast
qed

lemma occurrence_split:
  assumes pos: "starts_with (drop pos a) (scheme_text sc)" "length a = pos + length (scheme_text sc)"
    and first: "\<forall>j<pos. \<not> starts_with (drop j a) (scheme_text sc)"
    and occ: "starts_with (drop i (a @ x)) (scheme_text sc)"
  shows "i = pos \<or> length a \<le> i \<and> starts_with (drop (i - length a) x) (scheme_text sc)"
proof -
  let ?S = "scheme_text sc"
  have S: "0 < length ?S" by simp
  consider "i < pos" | "i = pos" | "pos < i" "i < length a" | "length a \<le> i" by linarith
  then show ?thesis
  proof cases
    case 1
    then have "take (length ?S) (drop i (a @ x)) = take (length ?S) (drop i a)"
      using pos(2) by simp
    with occ have "starts_with (drop i a) ?S" by (simp add: starts_with_def)
    with first 1 show ?thesis by blast
  next
    case 3
    have "drop i (a @ x) ! 0 = ?S ! 0"
      using starts_with_nth [OF occ S] by simp
    then have "(a @ x) ! i = ?S ! 0"
      using 3 by (simp only: nth_drop length_append add_0_right)
    moreover have "a ! i = ?S ! (i - pos)"
      using starts_with_nth [OF pos(1), of "i - pos"] 3 pos(2) by simp
    ultimately have "?S ! (i - pos) = CHR ''b''"
      using 3 scheme_letter [of 0 sc] by (simp add: nth_append)
    moreover have "i - pos < length ?S" "i - pos \<noteq> 0" using 3 pos(2) by linarith+
    ultimately show ?thesis by (simp add: scheme_letter)
  next
    case 4
    with occ show ?thesis by simp
  qed simp
qed

lemma redacted_split:
  assumes "starts_with (drop i (redacted @ x)) (scheme_text sc)"
  shows "length redacted \<le> i \<and> starts_with (drop (i - length redacted) x) (scheme_text sc)"
proof (cases "i < length redacted")
  case True
  have "drop i (redacted @ x) ! 0 = scheme_text sc ! 0"
    using starts_with_nth [OF assms, of 0] by simp
  then have "(redacted @ x) ! i = scheme_text sc ! 0"
    using True by (simp only: nth_drop length_append add_0_right)
  then have "redacted ! i = CHR ''b''"
    using True scheme_letter [of 0 sc] by (simp add: nth_append)
  then have "CHR ''b'' \<in> set redacted"
    using True by (metis nth_mem)
  then show ?thesis by (simp add: redacted_def)
next
  case False
  with assms show ?thesis by simp
qed

definition masked :: "scheme \<Rightarrow> string \<Rightarrow> bool" where
  "masked sc s =
     (\<forall>i. starts_with (drop i (to_ascii_lowercase s)) (scheme_text sc) \<longrightarrow>
        starts_with (drop (i + length (scheme_text sc)) s) redacted \<or>
        takeWhile token_byte (drop (i + length (scheme_text sc)) s) = [])"

lemma lower_redacted: "to_ascii_lowercase redacted = redacted"
  by (simp add: redacted_def to_ascii_lowercase_def lower_byte_other code_def)

lemma mask_scheme_token_hd:
  assumes "takeWhile token_byte s = []"
  shows "takeWhile token_byte (mask_scheme_token s sc) = []"
proof (cases s)
  case Nil
  then show ?thesis by (subst mask_scheme_token.simps) (simp add: to_ascii_lowercase_def)
next
  case (Cons c r)
  have "0 < pos + length (scheme_text sc)" for pos by simp
  then have "\<exists>t. mask_scheme_token s sc = c # t"
    by (subst mask_scheme_token.simps) (auto simp: Cons Let_def take_Cons' split: option.split)
  with assms Cons show ?thesis by (auto split: if_splits)
qed

text \<open>What is masked stays so behind the mark, and behind a text that ends in the first occurrence of the scheme, when it
  starts with the mark or with no token.\<close>

lemma masked_mark: "masked sc s \<Longrightarrow> masked sc (redacted @ s)"
  unfolding masked_def
proof (intro allI impI)
  fix i
  assume IH: "\<forall>i. starts_with (drop i (to_ascii_lowercase s)) (scheme_text sc) \<longrightarrow>
      starts_with (drop (i + length (scheme_text sc)) s) redacted \<or> takeWhile token_byte (drop (i + length (scheme_text sc)) s) = []"
    and at: "starts_with (drop i (to_ascii_lowercase (redacted @ s))) (scheme_text sc)"
  from redacted_split [of i "to_ascii_lowercase s" sc] at
  have "length redacted \<le> i" "starts_with (drop (i - length redacted) (to_ascii_lowercase s)) (scheme_text sc)"
    by (simp_all add: to_ascii_lowercase_append lower_redacted)
  with IH [rule_format, OF this(2)]
  show "starts_with (drop (i + length (scheme_text sc)) (redacted @ s)) redacted \<or>
      takeWhile token_byte (drop (i + length (scheme_text sc)) (redacted @ s)) = []" by simp
qed

lemma masked_behind:
  assumes found: "str_find (to_ascii_lowercase rest) (scheme_text sc) = Some pos"
    and s: "starts_with s redacted \<or> takeWhile token_byte s = []" "masked sc s"
  shows "masked sc (take (pos + length (scheme_text sc)) rest @ s)"
  unfolding masked_def
proof (intro allI impI)
  let ?S = "scheme_text sc" and ?low = "to_ascii_lowercase rest"
  let ?ts = "pos + length ?S"
  let ?a = "take ?ts ?low"
  have len: "?ts \<le> length rest" using str_find_bound [OF found] by simp
  have at: "starts_with (drop pos ?a) ?S"
    using str_find_first [OF found] by (simp add: starts_with_def drop_take)
  have first: "\<forall>j<pos. \<not> starts_with (drop j ?a) ?S"
  proof (intro allI impI)
    fix j assume "j < pos"
    then have "take (length ?S) (drop j ?a) = take (length ?S) (drop j ?low)" by (simp add: drop_take min_def)
    with str_find_first [OF found] \<open>j < pos\<close> show "\<not> starts_with (drop j ?a) ?S" by (simp add: starts_with_def)
  qed
  fix i assume "starts_with (drop i (to_ascii_lowercase (take ?ts rest @ s))) ?S"
  then have "starts_with (drop i (?a @ to_ascii_lowercase s)) ?S"
    by (simp add: to_ascii_lowercase_append lower_take)
  from occurrence_split [OF at _ first this] len
  consider "i = pos" | "?ts \<le> i" "starts_with (drop (i - ?ts) (to_ascii_lowercase s)) ?S" by auto
  then show "starts_with (drop (i + length ?S) (take ?ts rest @ s)) redacted \<or>
      takeWhile token_byte (drop (i + length ?S) (take ?ts rest @ s)) = []"
  proof cases
    case 1
    then show ?thesis using len s(1) by simp
  next
    case 2
    with s(2) [unfolded masked_def, rule_format, OF 2(2)] len show ?thesis by simp
  qed
qed

lemma masked_scheme_token: "masked sc (mask_scheme_token rest sc)"
proof (induction rest sc rule: mask_scheme_token.induct)
  case (1 rest sc)
  show ?case
  proof (cases "str_find (to_ascii_lowercase rest) (scheme_text sc)")
    case None
    then show ?thesis
      by (subst mask_scheme_token.simps) (simp add: masked_def str_find_none)
  next
    case (Some pos)
    let ?tail = "drop (pos + length (scheme_text sc)) rest"
    show ?thesis
    proof (cases "takeWhile token_byte ?tail = []")
      case True
      then have "mask_scheme_token rest sc = take (pos + length (scheme_text sc)) rest @ mask_scheme_token ?tail sc"
        using Some by (subst mask_scheme_token.simps) (simp add: Let_def)
      with masked_behind [OF Some disjI2 [OF mask_scheme_token_hd [OF True]]] 1(2) [OF Some refl refl] True show ?thesis by simp
    next
      case False
      then have "mask_scheme_token rest sc =
          take (pos + length (scheme_text sc)) rest @ redacted @ mask_scheme_token (dropWhile token_byte ?tail) sc"
        using Some by (subst mask_scheme_token.simps) (simp add: Let_def)
      with masked_behind [OF Some _ masked_mark] 1(1) [OF Some refl refl] False show ?thesis by simp
    qed
  qed
qed

text \<open>No bearer or basic credential survives its pass: wherever the scheme (in any case) and a space
  occur in the result, what follows is the mark or no token at all.\<close>

theorem scheme_tokens_masked: "masked sc (mask_scheme_token s sc)"
  by (rule masked_scheme_token)

text \<open>The pass wants exactly one space: with two between the scheme and the credential, all three passes let
  the credential through.\<close>

theorem bearer_two_spaces_leak:
  "redact_cause_secrets ''Authorization: Bearer  x9'' = ''Authorization: Bearer  x9''"
proof -
  have chars: "utf8_chars ''Authorization: Bearer  x9'' = map (\<lambda>c. [c]) ''Authorization: Bearer  x9''"
    by (rule utf8_chars_ascii) (auto simp: code_def)
  have keyed: "mask_keyed_values ''Authorization: Bearer  x9'' = ''Authorization: Bearer  x9''"
    unfolding mask_keyed_values_def chars
    by (simp add: Let_def trailing_name_def is_whitespace_single quote_char_def value_char_def
        eq_ignore_ascii_case_def to_ascii_lowercase_def str_simps lower_byte_other code_def is_name_byte_def
        is_ascii_alphanumeric_def is_ascii_digit_def is_ascii_alphabetic_def)
  have bearer: "mask_bearer ''Authorization: Bearer  x9'' = ''Authorization: Bearer  x9''"
    by (simp add: mask_bearer_def mask_scheme_token.simps to_ascii_lowercase_def str_simps lower_byte_other
        code_def starts_with_def token_byte_def is_ascii_whitespace_def)
  have "spans ''Authorization: Bearer  x9'' =
      [(True, ''Authorization:''), (False, '' ''), (True, ''Bearer''), (False, ''  ''), (True, ''x9'')]"
    by (simp add: is_ascii_whitespace_def Let_def code_def)
  moreover have "\<not> bare_secret ''Authorization:''"
    by (simp add: bare_secret_def)
  moreover have "\<not> bare_secret ''Bearer''"
    by (simp add: bare_secret_def is_secret_flag_def Let_def to_ascii_lowercase_def str_simps lower_byte_other
        code_def secret_substrings_def secret_tokens_def ends_with_def starts_with_def)
  ultimately have "mask_bare_flag_values ''Authorization: Bearer  x9'' = ''Authorization: Bearer  x9''"
    by (simp add: mask_bare_flag_values_def)
  then show ?thesis
    by (simp only: redact_cause_secrets_def keyed bearer)
qed

end
