(* ===== verification/Frame.thy ===== *)
theory Frame
  imports Attach
begin

text \<open>
  What a program leaves alone, once for all programs that only read: the locale needs of a preorder \<open>R\<close> on
  worlds (\<open>keeping\<close>) that it holds across one call that reads, and gives the rule for every reading
  function of the library.
\<close>

locale reading = keeping R for R :: "world \<Rightarrow> world \<Rightarrow> bool" +
  fixes E :: env
  assumes moved: "R w (moved E w)" and asked: "R w ((moved E w)\<lparr>requests := q\<rparr>)"
begin

lemma calls_rule: "within R (look E f)" "within R (now E)" "within R (sleep E)" "within R (read_dir E p)"
  "within R (connect_port E port)" "within R (ask_bridge E port b t)" "within R (try_wait E pid)"
  "within R (probe_session_bridge E port t)"
  by (simp_all add: within_def moved asked read_dir_def probe_session_bridge_def)

lemma file_reads: "within R (read_to_string E p)" "within R (read_bytes E p)" "within R (read_link E p)"
  "within R (exists E p)" "within R (symlink_metadata E p)" "within R (modified E p)" "within R (read_json_opt E p)"
  "within R (session_lang_opt E dir)" "within R (sidecar_is_v2 E dir f)"
  by (auto simp: read_to_string_def read_bytes_def read_link_def exists_def symlink_metadata_def modified_def
      read_json_opt_def session_lang_opt_def sidecar_is_v2_def intro!: composed calls_rule)

lemma gates: "within R (cli_markers_v2 E dir)" "within R (require_schema_v2 E dir n)" "within R (check_dir_real E dir)"
  "within R (checked_session_dir E n)" "within R (session_gate E n)" "within R (session_port E n)"
  "within R (published_recently E v b)"
  by (auto simp: cli_markers_v2_def require_schema_v2_def check_dir_real_def checked_session_dir_def
      session_gate_def session_port_def read_session_def published_recently_def
      intro!: composed calls_rule file_reads split: sum.split option.split)

lemma forward_rule: "within R (forward E n body t)"
  by (auto simp: forward_def forward_target_def intro!: composed calls_rule file_reads gates)

lemma identities: "within R (layered_identity_or_null E v)" "within R (cached_target_identity E dir)"
  "within R (unavailable_identity E reason)"
proof -
  show null: "within R (layered_identity_or_null E v)" for v
    by (auto simp: layered_identity_or_null_def sanitize_layered_identity_def identity_now_def
        intro!: composed calls_rule split: option.split)
  show "within R (cached_target_identity E dir)" "within R (unavailable_identity E reason)"
    by (auto simp: cached_target_identity_def unavailable_identity_def identity_now_def
        intro!: composed calls_rule file_reads null)
qed

lemma lookup: "within R (port_lookup E port)"
proof -
  have tcp: "within R (tcp_listen_inode_files E port fs)" for fs
    by (induction fs) (auto intro!: composed file_reads split: sum.split option.split)
  have link: "within R (holds_link E want d fds)" for want d fds
    by (induction fds) (auto intro!: composed file_reads split: sum.split)
  have holder: "within R (first_holder E want ps)" for want ps
    by (induction ps) (auto intro!: composed calls_rule link split: sum.split)
  show ?thesis
    by (auto simp: port_lookup_def tcp_listen_inode_def tcp_listen_inode_in_def pid_holding_socket_def
        read_proc_info_def Let_def intro!: composed calls_rule file_reads tcp holder split: sum.split option.split)
qed

lemma listener: "within R (listener_present E host port)"
  by (auto simp: listener_present_def listener_source_readable_def
      intro!: composed file_reads lookup split: sum.split)

lemma liveness: "within R (daemon_alive_in E dir)" "within R (legacy_proven_dead E dir)"
proof -
  show "within R (daemon_alive_in E dir)"
    by (auto simp: daemon_alive_in_def Let_def intro!: composed calls_rule file_reads gates split: sum.split)
  then show "within R (legacy_proven_dead E dir)"
    by (auto simp: legacy_proven_dead_def intro!: composed file_reads split: option.split)
qed

lemmas reads = calls_rule file_reads gates forward_rule identities lookup listener liveness

end

section \<open>What is left alone\<close>

text \<open>A program that only reads changes no file of an environment nobody else writes to.\<close>

interpretation kept: reading "\<lambda>w w'. alone E \<longrightarrow> kern w' = kern w" E for E
  by unfold_locales (auto simp: alone_def seen_def)

lemma inert_within: "alone E \<Longrightarrow> within (\<lambda>w w'. alone E \<longrightarrow> kern w' = kern w) m \<Longrightarrow> inert E m"
  by (simp add: inert_def within_def)

text \<open>It runs no program.\<close>

interpretation idle: reading "\<lambda>w w'. commands w' = commands w" E for E
  by unfold_locales auto

end
