(* ===== verification/Starters.thy ===== *)
theory Starters
  imports Locks Frame
begin

text \<open>
  The startup locks of \<open>src/session/locks.rs\<close> as a protocol: any number of starters of one session name,
  each call of each of them one atomic step, interleaved in any order and failing anywhere, as long as no
  record grows old enough to be taken over. \<open>acquire_startup_lock\<close> and \<open>release_startup_lock\<close> run by these
  steps, and no reachable state has two starters in possession.
\<close>

section \<open>The steps\<close>

text \<open>A starter is outside, has created the record, has failed to write it, owns the name with what it wrote,
  or has read that back and is about to unlink the record. What counts as its own differs: a startup
  record is compared as a whole, an endpoint record by the nonce in it.\<close>

datatype starter = Out | Opened nat string | Failed | Owner string | Leaving string

inductive claimant_step :: "(string \<Rightarrow> string \<Rightarrow> bool) \<Rightarrow> string \<Rightarrow> kern \<times> ('p \<Rightarrow> starter) \<Rightarrow> kern \<times> ('p \<Rightarrow> starter) \<Rightarrow> bool"
    for mine path where
  claim: "s i = Out \<Longrightarrow> k_create_new path t k = (Inr ino, k') \<Longrightarrow>
    claimant_step mine path (k, s) (k', s(i := Opened ino n))"
| record_nonce: "s i = Opened ino n \<Longrightarrow> claimant_step mine path (k, s) (append_ino ino n t k, s(i := Owner n))"
| write_fails: "s i = Opened ino n \<Longrightarrow>
    claimant_step mine path (k, s) (append_ino ino (take m n) t k, s(i := Failed))"
| verify: "s i = Owner n \<Longrightarrow> k_read_to_string path k = Inr c \<Longrightarrow> mine c n \<Longrightarrow>
    claimant_step mine path (k, s) (k, s(i := Leaving n))"
| walk_away: "s i \<in> {Failed, Owner n, Leaving n} \<Longrightarrow> claimant_step mine path (k, s) (k, s(i := Out))"
| unlink: "s i \<in> {Failed, Leaving n} \<Longrightarrow> claimant_step mine path (k, s) (snd (k_remove_file path k), s(i := Out))"
| elsewhere: "files k' path = files k path \<Longrightarrow> claimant_step mine path (k, s) (k', s)"

abbreviation claimant_steps ::
    "(string \<Rightarrow> string \<Rightarrow> bool) \<Rightarrow> string \<Rightarrow> kern \<times> ('p \<Rightarrow> starter) \<Rightarrow> kern \<times> ('p \<Rightarrow> starter) \<Rightarrow> bool" where
  "claimant_steps mine path \<equiv> (claimant_step mine path)\<^sup>*\<^sup>*"

abbreviation starter_steps :: "string \<Rightarrow> kern \<times> ('p \<Rightarrow> starter) \<Rightarrow> kern \<times> ('p \<Rightarrow> starter) \<Rightarrow> bool" where
  "starter_steps \<equiv> claimant_steps (=)"

section \<open>One owner\<close>

fun record_of :: "starter \<Rightarrow> node option \<Rightarrow> bool" where
  "record_of Out nd = True"
| "record_of (Opened ino n) nd = (\<exists>t. nd = Some (File ino [] t))"
| "record_of Failed nd = is_file nd"
| "record_of (Owner n) nd = (\<exists>ino t. nd = Some (File ino n t))"
| "record_of (Leaving n) nd = (\<exists>ino t. nd = Some (File ino n t))"

definition one_owner :: "string \<Rightarrow> kern \<times> ('p \<Rightarrow> starter) \<Rightarrow> bool" where
  "one_owner path = (\<lambda>(k, s). (\<forall>i j. s i \<noteq> Out \<longrightarrow> s j \<noteq> Out \<longrightarrow> i = j) \<and> (\<forall>i. record_of (s i) (files k path)))"

lemma record_present: "record_of st nd \<Longrightarrow> st \<noteq> Out \<Longrightarrow> is_file nd"
  by (cases st) auto

lemma one_owner_step:
  assumes "claimant_step mine path a b" and "one_owner path a"
  shows "one_owner path b"
  using assms
proof cases
  case (claim s i t k ino k' n)
  then have none: "files k path = None" and k': "files k' path = Some (File ino [] t)"
    by (auto simp: k_create_new_def k_create_def put_node_def split: if_splits)
  have "s j = Out" for j
    using assms(2) none record_present [of "s j" "files k path"] by (auto simp: claim(1) one_owner_def)
  with claim k' show ?thesis by (simp add: one_owner_def)
next
  case (record_nonce s i ino n k t)
  from assms(2) have only: "s j = Out" if "j \<noteq> i" for j
    using that record_nonce(3) by (auto simp: record_nonce(1) one_owner_def)
  from assms(2) have "record_of (s i) (files k path)" by (simp add: record_nonce(1) one_owner_def)
  then obtain t' where "files k path = Some (File ino [] t')" by (auto simp: record_nonce(3))
  with only record_nonce show ?thesis by (auto simp: one_owner_def append_ino_def)
next
  case (write_fails s i ino n k m t)
  from assms(2) have only: "s j = Out" if "j \<noteq> i" for j
    using that write_fails(3) by (auto simp: write_fails(1) one_owner_def)
  from assms(2) have "record_of (s i) (files k path)" by (simp add: write_fails(1) one_owner_def)
  then obtain t' where "files k path = Some (File ino [] t')" by (auto simp: write_fails(3))
  with only write_fails show ?thesis by (auto simp: one_owner_def append_ino_def)
next
  case (unlink s i n k)
  then have "s i \<noteq> Out" by auto
  with assms(2) have "s j = Out" if "j \<noteq> i" for j
    using that by (auto simp: unlink(1) one_owner_def)
  with unlink show ?thesis by (simp add: one_owner_def)
next
  case (walk_away s i n k)
  then show ?thesis using assms(2) by (auto simp: one_owner_def)
next
  case (verify s i n k c)
  from assms(2) have "record_of (s i) (files k path)" by (simp add: verify(1) one_owner_def)
  with verify show ?thesis using assms(2) by (auto simp: one_owner_def)
next
  case (elsewhere k' k s)
  then show ?thesis using assms(2) by (simp add: one_owner_def)
qed

text \<open>Whatever the interleaving and whatever fails, at most one starter of a name is in possession of its
  startup lock, and while it owns the name the record holds its nonce.\<close>

lemma one_starter:
  assumes "claimant_steps mine path (k, \<lambda>_. Out) (k', s)"
  shows "(\<forall>i j. s i \<noteq> Out \<longrightarrow> s j \<noteq> Out \<longrightarrow> i = j) \<and>
    (\<forall>i n. s i = Owner n \<longrightarrow> (\<exists>ino t. files k' path = Some (File ino n t)))"
proof -
  from assms have "one_owner path (k', s)"
    by (induction "(k', s)" arbitrary: k' s rule: rtranclp_induct)
      (simp add: one_owner_def, metis one_owner_step surj_pair)
  then have only: "\<And>i j. s i \<noteq> Out \<Longrightarrow> s j \<noteq> Out \<Longrightarrow> i = j" and held: "\<And>i. record_of (s i) (files k' path)"
    by (auto simp: one_owner_def)
  have "\<exists>ino t. files k' path = Some (File ino n t)" if "s i = Owner n" for i n
    using held [of i] that by simp
  with only show ?thesis by blast
qed

section \<open>Locks that follow the protocol\<close>

text \<open>What the clients of a lock rely on: from a world it is ready for, an attempt to acquire it takes a claimant that
  is outside by the protocol's steps to the state its result stands for.\<close>

locale claim_lock =
  fixes mine :: "string \<Rightarrow> string \<Rightarrow> bool" and path :: string and acquire :: "'r io"
    and ready :: "world \<Rightarrow> bool" and outcome :: "'r \<Rightarrow> starter \<Rightarrow> bool"
  assumes by_steps: "ready w \<Longrightarrow> (s :: 'p \<Rightarrow> starter) i = Out \<Longrightarrow> run_state acquire w = (r, w') \<Longrightarrow>
    \<exists>st. outcome r st \<and> claimant_steps mine path (kern w, s) (kern w', s(i := st))"
begin

lemma exclusive:
  assumes "claimant_steps mine path (k, \<lambda>_. Out) (kern w, s :: 'p \<Rightarrow> starter)" and "s i = Out" and "ready w"
    and "run_state acquire w = (r, w')" and "\<And>st. outcome r st \<Longrightarrow> \<exists>c. st = Owner c"
  shows "(\<forall>j. j \<noteq> i \<longrightarrow> s j = Out) \<and> (\<exists>c. outcome r (Owner c) \<and>
    claimant_steps mine path (k, \<lambda>_. Out) (kern w', s(i := Owner c)) \<and>
    (\<exists>ino t. files (kern w') path = Some (File ino c t)))"
proof -
  from by_steps [of w s i, OF assms(3,2,4)] assms(5) obtain c
    where won: "outcome r (Owner c)" "claimant_steps mine path (kern w, s) (kern w', s(i := Owner c))" by blast
  from assms(1) won(2) have reached: "claimant_steps mine path (k, \<lambda>_. Out) (kern w', s(i := Owner c))"
    by (rule rtranclp_trans)
  note one = one_starter [OF this]
  have "s j = Out" if "j \<noteq> i" for j
    using conjunct1 [OF one, rule_format, of j i] that by (cases "s j = Out") simp_all
  moreover have "\<exists>ino t. files (kern w') path = Some (File ino c t)"
    by (rule conjunct2 [OF one, rule_format, OF fun_upd_same])
  ultimately show ?thesis using won reached by blast
qed

end

section \<open>The code takes these steps\<close>

lemma elsewhere_steps: "files k' path = files k path \<Longrightarrow> claimant_steps mine path (k, s) (k', s)"
  by (blast intro: elsewhere)

lemma alone_sees: "alone E \<Longrightarrow> seen E w = kern w"
  by (simp add: alone_def seen_def)

text \<open>The record written through the created file, or the failure and its clean-up.\<close>

lemma write_steps:
  assumes "alone E" and "s i = Opened ino n" and "run_state (write_lock_record E ino path n) w = (r, w')"
  shows "claimant_steps mine path (kern w, s) (kern w', s(i := if r = Inr () then Owner n else Out))"
proof (cases "fault E (calls w)")
  case None
  with assms show ?thesis
    using record_nonce [of s i ino n mine path "kern w" "clock E (calls w)"]
    by (auto simp: write_lock_record_def State_Monad.bind_def alone_sees)
next
  case (Some e)
  let ?k = "append_ino ino (take (written_before_fault E (calls w)) n) (clock E (calls w)) (kern w)"
  let ?w = "changed E ?k w"
  have fails: "claimant_step mine path (kern w, s) (?k, s(i := Failed))" by (rule write_fails [of s i, OF assms(2)])
  obtain r1 where rm: "run_state (remove_file E path) ?w = (r1, w')" and r: "r = Inl e"
    using Some assms(1,3) by (auto simp: write_lock_record_def State_Monad.bind_def alone_sees split: prod.splits)
  have "claimant_step mine path (?k, s(i := Failed)) (kern w', (s(i := Failed))(i := Out))"
  proof (cases "fault E (Suc (calls w))")
    case None
    with rm have "kern w' = snd (k_remove_file path ?k)"
      by (auto simp: remove_file_def alone_sees [OF assms(1)])
    then show ?thesis using unlink [of "s(i := Failed)" i n mine path ?k] by simp
  next
    case (Some e')
    with rm have "kern w' = ?k" by (auto simp: remove_file_def alone_sees [OF assms(1)])
    then show ?thesis using walk_away [of "s(i := Failed)" i n mine path ?k] by simp
  qed
  with fails r show ?thesis by (auto intro: rtranclp.rtrancl_into_rtrancl)
qed

text \<open>Creating the record and writing it.\<close>

lemma opened_steps:
  assumes "alone E" and "s i = Out" and "run_state (create_new E path) w = (Inr f, w1)"
    and "run_state (write_lock_record E f path n) w1 = (x, w2)"
  shows "claimant_steps mine path (kern w, s) (kern w2, s(i := if x = Inr () then Owner n else Out))"
proof -
  from assms(3) have "k_create_new path (clock E (calls w)) (kern w) = (Inr f, kern w1)"
    by (auto simp: create_new_def alone_sees [OF assms(1)] prod_eq_iff split: option.splits)
  then have claimed: "claimant_step mine path (kern w, s) (kern w1, s(i := Opened f n))"
    by (rule claim [of s i, OF assms(2)])
  from write_steps [OF assms(1) _ assms(4), of "s(i := Opened f n)" i]
  have "claimant_steps mine path (kern w1, s(i := Opened f n)) (kern w2, s(i := if x = Inr () then Owner n else Out))"
    by simp
  with claimed show ?thesis by (rule converse_rtranclp_into_rtranclp)
qed

lemma create_refused: "alone E \<Longrightarrow> run_state (create_new E path) w = (Inl e, w') \<Longrightarrow> kern w' = kern w"
  by (auto simp: create_new_def alone_sees k_create_new_def k_create_def split: option.splits if_splits)

lemma create_steps:
  assumes "alone E" and "s i = Out"
    and "run_state (try_io (map_err h (create_new E path)) (\<lambda>f.
      try_io (map_err h' (write_lock_record E f path n)) (\<lambda>_. ok g))) w = (r, w')"
  shows "claimant_steps mine path (kern w, s) (kern w', s(i := case r of Inr _ \<Rightarrow> Owner n | Inl _ \<Rightarrow> Out)) \<and>
    (\<forall>a. r = Inr a \<longrightarrow> a = g)"
proof -
  obtain c w1 where c: "run_state (create_new E path) w = (c, w1)" by fastforce
  show ?thesis
  proof (cases c)
    case (Inl e)
    with c create_refused [OF assms(1)] have "kern w1 = kern w" by blast
    moreover from assms(3) c Inl have "w' = w1" "isl r" by auto
    ultimately show ?thesis using assms(2) by (cases r) (auto simp: fun_upd_idem)
  next
    case (Inr f)
    obtain x w2 where x: "run_state (write_lock_record E f path n) w1 = (x, w2)" by fastforce
    from opened_steps [of E s i, OF assms(1,2) c [unfolded Inr] x] assms(3) c Inr x show ?thesis
      by (cases x) auto
  qed
qed

lemma nonce_step: "alone E \<Longrightarrow> run_state (startup_nonce E) w = (n, w') \<Longrightarrow> kern w' = kern w"
  by (auto simp: startup_nonce_def next_nonce_def State_Monad.bind_def alone_sees)

text \<open>Reading a record that is not there never yields one.\<close>

lemma no_record_read:
  assumes "alone E" and "files (kern w) path = None" and "run_state (read_lock_bytes E path) w = (r, w')"
  shows "kern w' = kern w \<and> r \<notin> range (\<lambda>x. Inr (Some x))"
proof -
  have "kern w' = kern w \<and> r \<notin> range (\<lambda>x. Inr (Some x))"
    if "files (kern w) path = None" "run_state (attempts E n (read_to_string E path) l) w = (r, w')" for n l w
    using that
  proof (induction n arbitrary: l w)
    case (Suc n)
    have none: "k_read_to_string path (kern w) = Inl (os NotFound)"
      using Suc.prems(1) by (simp add: k_read_to_string_def k_read_def k_stat_def follow_def eval_nat_numeral)
    from Suc.prems Suc.IH [of "moved E (moved E w)"] none show ?case
      by (auto simp: State_Monad.bind_def read_to_string_def alone_sees [OF assms(1)] split: option.splits if_splits)
  qed auto
  from this [OF assms(2) assms(3) [unfolded read_lock_bytes_def]] show ?thesis .
qed

lemma claim_stale_steps:
  assumes "alone E" and "s i = Out" and "run_state (claim_stale_startup_lock E path) w = (r, w')"
  shows "starter_steps path (kern w, s) (kern w', s(i := case r of Inr g \<Rightarrow> Owner (guard_nonce g) | Inl _ \<Rightarrow> Out))"
proof -
  obtain n w1 where n: "run_state (startup_nonce E) w = (n, w1)" by fastforce
  from create_steps [of E s i _ path _ n "\<lparr>guard_path = path, guard_nonce = n\<rparr>" w1 r w' "(=)", OF assms(1,2)] assms(3) n show ?thesis
    unfolding claim_stale_startup_lock_def nonce_step [OF assms(1) n, symmetric]
    by (cases r) (fastforce simp: State_Monad.bind_def simp del: run_try_io)+
qed

text \<open>A record that was there is gone again: the name is claimed anew, or the attempt fails.\<close>

lemma vanished_steps:
  assumes "alone E" and "files (kern w) path = None" and "s i = Out"
    and "run_state (do { raw \<leftarrow> read_lock_bytes E path;
      (case raw of
         Inl _ \<Rightarrow> lift_result (starting path)
       | Inr None \<Rightarrow> claim_stale_startup_lock E path
       | Inr (Some r) \<Rightarrow> reclaim_and_claim E path r) }) w = (r, w')"
  shows "starter_steps path (kern w, s) (kern w', s(i := case r of Inr g \<Rightarrow> Owner (guard_nonce g) | Inl _ \<Rightarrow> Out))"
proof -
  obtain raw w1 where raw: "run_state (read_lock_bytes E path) w = (raw, w1)" by fastforce
  from no_record_read [OF assms(1,2) raw]
  have same: "kern w1 = kern w" and "raw = Inr None \<or> isl raw" by (cases raw; cases "projr raw"; auto)+
  then consider "raw = Inr None" | e where "raw = Inl e" by (cases raw) auto
  then show ?thesis
  proof cases
    case 1
    with assms(4) raw have "run_state (claim_stale_startup_lock E path) w1 = (r, w')" by (simp add: State_Monad.bind_def)
    from claim_stale_steps [of E s i, OF assms(1,3) this] show ?thesis by (simp add: same)
  next
    case 2
    with assms(3,4) raw same show ?thesis by (auto simp: State_Monad.bind_def fun_upd_idem starting_def bail_def)
  qed
qed

lemma acquire_free_steps:
  assumes "alone E" and "files (kern w) path = None" and "s i = Out"
    and "run_state (acquire_startup_lock E path) w = (r, w')"
  shows "starter_steps path (kern w, s) (kern w', s(i := case r of Inr g \<Rightarrow> Owner (guard_nonce g) | Inl _ \<Rightarrow> Out))"
proof -
  obtain n1 w1 where n1: "run_state (startup_nonce E) w = (n1, w1)" by fastforce
  have k1: "kern w1 = kern w" by (rule nonce_step [OF assms(1) n1])
  obtain c w2 where c: "run_state (create_new E path) w1 = (c, w2)" by fastforce
  show ?thesis
  proof (cases c)
    case (Inr f)
    obtain x w3 where x: "run_state (write_lock_record E f path n1) w2 = (x, w3)" by fastforce
    from opened_steps [of E s i, OF assms(1,3) c [unfolded Inr] x] assms(4) n1 c Inr x k1 show ?thesis
      by (cases x) (auto simp: acquire_startup_lock_def State_Monad.bind_def)
  next
    case (Inl e)
    have k2: "kern w2 = kern w" using create_refused [OF assms(1) c [unfolded Inl]] k1 by simp
    show ?thesis
    proof (cases "io_kind e = AlreadyExists")
      case False
      with assms(3,4) n1 c Inl k2 show ?thesis
        by (auto simp: acquire_startup_lock_def State_Monad.bind_def fun_upd_idem)
    next
      case True
      with assms(4) n1 c Inl have "run_state (do { raw \<leftarrow> read_lock_bytes E path;
          (case raw of
             Inl _ \<Rightarrow> lift_result (starting path)
           | Inr None \<Rightarrow> claim_stale_startup_lock E path
           | Inr (Some r) \<Rightarrow> reclaim_and_claim E path r) }) w2 = (r, w')"
        by (simp add: acquire_startup_lock_def State_Monad.bind_def)
      from vanished_steps [of E w2 path s i, OF assms(1) _ assms(3) this] assms(2) show ?thesis by (simp add: k2)
    qed
  qed
qed

lemma acquire_steps:
  assumes "alone E" and "\<forall>n. clock E n < m + secs 300"
    and "files (kern w) path = None \<or> (\<exists>j c. files (kern w) path = Some (File j c m))" and "s i = Out"
    and "run_state (acquire_startup_lock E path) w = (r, w')"
  shows "starter_steps path (kern w, s) (kern w', s(i := case r of Inr g \<Rightarrow> Owner (guard_nonce g) | Inl _ \<Rightarrow> Out))"
proof (cases "files (kern w) path")
  case None
  from acquire_free_steps [of E w path s i, OF assms(1) None assms(4,5)] show ?thesis .
next
  case (Some nd)
  with assms(3) obtain j c where nd: "files (kern w) path = Some (File j c m)" by auto
  have "calm E {path}" using assms(1) by (simp add: calm_in_def alone_def)
  from stays_acquire [OF this, of m j c] assms(2)
  have "passes (\<lambda>k. files k path = Some (File j c m)) (\<lambda>w. files (kern w) path = Some (File j c m))
      (acquire_startup_lock E path) (\<lambda>r w. files (kern w) path = Some (File j c m) \<and> isl r)"
    by (simp add: STARTUP_LOCK_STALE_def holds_def)
  from passesD [OF this nd assms(5)] have "files (kern w') path = files (kern w) path" "isl r"
    using nd by auto
  then show ?thesis
    using elsewhere [of "kern w'" path "kern w" "(=)" s] assms(4) by (cases r) (auto simp: fun_upd_idem)
qed

text \<open>There is no record, or one younger than five minutes.\<close>

definition startup_ready :: "env \<Rightarrow> string \<Rightarrow> world \<Rightarrow> bool" where
  "startup_ready E path w = (alone E \<and> (\<exists>m. (\<forall>n. clock E n < m + secs 300) \<and>
     (files (kern w) path = None \<or> (\<exists>j c. files (kern w) path = Some (File j c m)))))"

definition startup_outcome :: "lock_guard result \<Rightarrow> starter \<Rightarrow> bool" where
  "startup_outcome r st = (st = (case r of Inr g \<Rightarrow> Owner (guard_nonce g) | Inl _ \<Rightarrow> Out))"

interpretation startup: claim_lock "(=)" path "acquire_startup_lock E path" "startup_ready E path" startup_outcome for E path
  by unfold_locales (auto simp: startup_ready_def startup_outcome_def intro: acquire_steps)

lemma release_by_steps:
  assumes "alone E" and "s i = Out"
    and check: "\<And>b v1. run_state chk v = (b, v1) \<Longrightarrow> kern v1 = kern v \<and>
      (b \<longrightarrow> (\<exists>c'. k_read_to_string path (kern v) = Inr c' \<and> mine c' c))"
    and run: "run_state (do { b \<leftarrow> chk; if b then do { _ \<leftarrow> remove_file E path; State_Monad.return () }
      else State_Monad.return () }) v = (u, v')"
  shows "claimant_steps mine path (kern v, s(i := Owner c)) (kern v', s)"
proof -
  have home_again: "(s(i := x))(i := Out) = s" for x using assms(2) by auto
  obtain b v1 where b: "run_state chk v = (b, v1)" by fastforce
  note checked = check [OF b]
  show ?thesis
  proof (cases b)
    case False
    with run b checked have "kern v' = kern v" by (auto simp: State_Monad.bind_def)
    then show ?thesis using walk_away [of "s(i := Owner c)" i c mine path "kern v"] home_again by auto
  next
    case True
    with run b have rm: "run_state (do { _ \<leftarrow> remove_file E path; State_Monad.return () }) v1 = (u, v')"
      by (simp add: State_Monad.bind_def)
    from True checked obtain c' where c': "k_read_to_string path (kern v) = Inr c'" "mine c' c" by blast
    have mine_read: "claimant_step mine path (kern v, s(i := Owner c)) (kern v, (s(i := Owner c))(i := Leaving c))"
      by (rule verify [of "s(i := Owner c)" i c path "kern v" c' mine, OF _ c']) simp
    have "claimant_step mine path (kern v, s(i := Leaving c)) (kern v', s)"
    proof (cases "fault E (calls v1)")
      case None
      with rm checked have "kern v' = snd (k_remove_file path (kern v))"
        by (auto simp: remove_file_def State_Monad.bind_def alone_sees [OF assms(1)])
      then show ?thesis using unlink [of "s(i := Leaving c)" i c mine path "kern v"] home_again by auto
    next
      case (Some e)
      with rm checked have "kern v' = kern v"
        by (auto simp: remove_file_def State_Monad.bind_def alone_sees [OF assms(1)])
      then show ?thesis using walk_away [of "s(i := Leaving c)" i c mine path "kern v"] home_again by auto
    qed
    with mine_read show ?thesis by (simp add: converse_rtranclp_into_rtranclp)
  qed
qed

lemma release_steps:
  assumes "alone E" and "s i = Out" and "run_state (release_startup_lock E path n) v = (u, v')"
  shows "starter_steps path (kern v, s(i := Owner n)) (kern v', s)"
  by (rule release_by_steps [of E s i "startup_lock_is_mine E path n" v path "(=)" n, OF assms(1,2) _ assms(3) [unfolded release_startup_lock_def]])
    (auto simp: startup_lock_is_mine_def read_to_string_def State_Monad.bind_def alone_sees [OF assms(1)]
      split: option.splits)

text \<open>The code is an implementation of the protocol: from outside, with no record there or one younger than five
  minutes, \<open>acquire_startup_lock\<close> leads by the protocol's steps to ownership, with the nonce of the guard it
  answers, or back outside when it fails; and \<open>release_startup_lock\<close> leads an owner back outside. Any
  call may fail on the way.\<close>

theorem locks_follow_protocol:
  assumes "alone E" and "\<forall>n. clock E n < m + secs 300"
    and "files (kern w) path = None \<or> (\<exists>j c. files (kern w) path = Some (File j c m))" and "s i = Out"
    and "run_state (acquire_startup_lock E path) w = (r, w')"
    and "run_state (release_startup_lock E path n) v = (u, v')"
  shows "starter_steps path (kern w, s) (kern w', s(i := case r of Inr g \<Rightarrow> Owner (guard_nonce g) | Inl _ \<Rightarrow> Out)) \<and>
    starter_steps path (kern v, s(i := Owner n)) (kern v', s)"
  using acquire_steps [of E m w path s i, OF assms(1-5)] release_steps [of E s i, OF assms(1,4,6)] by simp

theorem locks_follow_protocol_witness:
  "starter_steps ''/s/x.lock'' (kern (world_of [(''/s'', Dir 0)]), \<lambda>_ :: nat. Out)
     (kern (snd (run_state (acquire_startup_lock ((still_env brace_serde)\<lparr>clock := \<lambda>_. 6\<rparr>) ''/s/x.lock'') (world_of [(''/s'', Dir 0)]))),
      (\<lambda>_. Out)(0 := case fst (run_state (acquire_startup_lock ((still_env brace_serde)\<lparr>clock := \<lambda>_. 6\<rparr>) ''/s/x.lock'') (world_of [(''/s'', Dir 0)]))
         of Inr g \<Rightarrow> Owner (guard_nonce g) | Inl _ \<Rightarrow> Out))"
proof -
  let ?E = "(still_env brace_serde)\<lparr>clock := \<lambda>_. 6\<rparr>" and ?w = "world_of [(''/s'', Dir 0)]"
  have "alone ?E" by (simp add: alone_def)
  moreover have "files (kern ?w) ''/s/x.lock'' = None" by simp
  ultimately show ?thesis
    using locks_follow_protocol [of ?E 0 ?w "''/s/x.lock''" "\<lambda>_ :: nat. Out" 0, OF _ _ _ _ surjective_pairing surjective_pairing]
    by (simp add: secs_def)
qed

text \<open>A startup lock is exclusive: in whatever state any number of starters have brought each other by their
  calls, interleaved and failing in any way, a call of \<open>acquire_startup_lock\<close> that succeeds was made
  while no other starter was in possession, and leaves its caller the only owner.\<close>

theorem startup_lock_exclusive:
  assumes "starter_steps path (k, \<lambda>_. Out) (kern w, s)" and "s i = Out" and "alone E"
    and "\<forall>n. clock E n < m + secs 300"
    and "files (kern w) path = None \<or> (\<exists>j c. files (kern w) path = Some (File j c m))"
    and "run_state (acquire_startup_lock E path) w = (Inr g, w')"
  shows "(\<forall>j. j \<noteq> i \<longrightarrow> s j = Out) \<and>
    starter_steps path (k, \<lambda>_. Out) (kern w', s(i := Owner (guard_nonce g))) \<and>
    (\<exists>ino t. files (kern w') path = Some (File ino (guard_nonce g) t))"
proof -
  have "startup_ready E path w" using assms(3-5) by (auto simp: startup_ready_def)
  from startup.exclusive [of path k w s i, OF assms(1,2) this assms(6)] show ?thesis by (simp add: startup_outcome_def)
qed

theorem startup_lock_exclusive_witness:
  "\<exists>g w'. run_state (acquire_startup_lock ((still_env brace_serde)\<lparr>clock := \<lambda>_. 6\<rparr>) ''/s/x.lock'') (world_of [(''/s'', Dir 0)]) = (Inr g, w') \<and>
     starter_steps ''/s/x.lock'' (kern (world_of [(''/s'', Dir 0)]), \<lambda>_. Out)
       (kern w', (\<lambda>_ :: nat. Out)(0 := Owner (guard_nonce g)))"
proof -
  let ?E = "(still_env brace_serde)\<lparr>clock := \<lambda>_. 6\<rparr>" and ?w = "world_of [(''/s'', Dir 0)]"
  have "parent_ok (kern ?w) ''/s/x.lock''"
    by (simp add: parent_ok_def parent_of_def follow_def numeral_eq_Suc)
  then obtain g w' where run: "run_state (acquire_startup_lock ?E ''/s/x.lock'') ?w = (Inr g, w')"
    by (simp add: acquire_startup_lock_def startup_nonce_def State_Monad.bind_def create_new_def k_create_new_def
        k_create_def write_lock_record_def parent_ok_def follow_def seen_def)
  have "alone ?E" "\<forall>n. clock ?E n < 0 + secs 300" by (simp_all add: alone_def secs_def)
  from startup_lock_exclusive [where s = "\<lambda>_ :: nat. Out" and i = 0, OF rtranclp.rtrancl_refl _ this _ run] run
  show ?thesis by auto
qed

end
