(* ===== verification/Quiet.thy ===== *)
theory Quiet
  imports Attach Locks
begin

text \<open>
  Rules for reads and checks in an environment nobody else touches and where no call fails: what an
  operation answers there is a function of the file system it finds (\<open>answers\<close>).
\<close>

section \<open>An undisturbed environment\<close>

definition quiet :: "env \<Rightarrow> bool" where
  "quiet E = (alone E \<and> (\<forall>n. fault E n = None))"

lemma quiet_simps: "quiet E \<Longrightarrow> fault E n = None" "quiet E \<Longrightarrow> seen E w = kern w"
  by (simp_all add: quiet_def alone_def seen_def)

lemma answers_look: "quiet E \<Longrightarrow> answers k (look E f) (f k)"
  by (simp add: answers_def quiet_simps)

lemma answers_sleep: "quiet E \<Longrightarrow> answers k (sleep E) ()"
  by (simp add: answers_def quiet_simps)

lemma answers_try:
  assumes "answers k m a" and "case a of Inl e \<Rightarrow> b = Inl e | Inr x \<Rightarrow> answers k (f x) b"
  shows "answers k (try_io m f) b"
  unfolding try_io_def
  by (rule answers_bind [OF assms(1)]) (use assms(2) in \<open>auto split: sum.splits intro: answers_return\<close>)

lemma answers_map_err: "answers k m a \<Longrightarrow> answers k (map_err h m) (case a of Inl e \<Rightarrow> Inl (h e) | Inr x \<Rightarrow> Inr x)"
  unfolding map_err_def by (erule answers_bind) (rule answers_return, simp)

lemma answers_lift: "answers k (lift_result r) r" "answers k (ok a) (Inr a)" "answers k (err e) (Inl e)"
  by (simp_all add: answers_def)

lemma answers_exists: "quiet E \<Longrightarrow> answers k (exists E p) (case k_stat p k of Inl _ \<Rightarrow> False | Inr _ \<Rightarrow> True)"
  unfolding exists_def by (rule answers_bind [OF answers_look]) (auto intro: answers_return)

lemma answers_attempts:
  assumes "quiet E" and "answers k op r" and "0 < n"
  shows "answers k (attempts E n op l)
    (case r of Inr a \<Rightarrow> Inr (Some a) | Inl e \<Rightarrow> if io_kind e = NotFound then Inr None else Inl e)"
  using assms(3)
proof (induction n arbitrary: l)
  case (Suc n)
  show ?case
  proof (cases "n = 0")
    case True
    show ?thesis
      unfolding attempts.simps True
      by (rule answers_bind [OF assms(2)])
        (auto split: sum.split intro!: answers_lift answers_bind [OF answers_sleep [OF assms(1)]])
  next
    case False
    with Suc.IH show ?thesis
      unfolding attempts.simps
      by (intro answers_bind [OF assms(2)])
        (auto split: sum.splits intro!: answers_lift answers_bind [OF answers_sleep [OF assms(1)]])
  qed
qed simp

lemma answers_check_dir: "quiet E \<Longrightarrow> is_dir (files k dir) \<Longrightarrow> answers k (check_dir_real E dir) (Inr ())"
  unfolding check_dir_real_def symlink_metadata_def
  by (rule answers_bind [OF answers_look], assumption)
    (cases "files k dir"; auto simp: k_lstat_def intro!: answers_return elim!: is_dirE)

end
