(* ===== verification/Progress.thy ===== *)
theory Progress
  imports Starters Quiet
begin

text \<open>
  Locks are never lost: the startup lock of a name whose starter has died, at whatever point, can be taken over five
  minutes later. The rules are for total correctness: in an environment that leaves the program alone and
  where no call fails, an operation that changes the file system leads from the state it finds to a result and a
  new state (\<open>leads\<close>, and \<open>lands\<close> for one that can fail and does not).
\<close>

text \<open>\<open>leads k m Q\<close>: started on the file system \<open>k\<close>, at whatever time, \<open>m\<close> ends with a result and a file
  system that \<open>Q\<close> accepts.\<close>

definition leads :: "kern \<Rightarrow> 'a io \<Rightarrow> ('a \<Rightarrow> kern \<Rightarrow> bool) \<Rightarrow> bool" where
  "leads k m Q = (\<forall>w. kern w = k \<longrightarrow> Q (fst (run_state m w)) (kern (snd (run_state m w))))"

lemma leadsD: "leads (kern w) m Q \<Longrightarrow> run_state m w = (r, w') \<Longrightarrow> Q r (kern w')"
  by (auto simp: leads_def dest: spec [of _ w])

lemma leads_bind:
  assumes "leads k m R" and "\<And>a k'. R a k' \<Longrightarrow> leads k' (f a) Q"
  shows "leads k (State_Monad.bind m f) Q"
  using assms by (fastforce simp: leads_def State_Monad.bind_def split: prod.split)

lemma leads_answers:
  "answers k m a \<Longrightarrow> Q a k \<Longrightarrow> leads k m Q"
  by (auto simp: leads_def answers_def)

lemma leads_after: "answers k m a \<Longrightarrow> leads k (f a) Q \<Longrightarrow> leads k (State_Monad.bind m f) Q"
  by (rule leads_bind [OF leads_answers, of _ _ _ "\<lambda>b l. b = a \<and> l = k"]) auto

text \<open>The same for a program that can fail and does not.\<close>

definition lands :: "kern \<Rightarrow> ('e + 'a) io \<Rightarrow> ('a \<Rightarrow> kern \<Rightarrow> bool) \<Rightarrow> bool" where
  "lands k m Q = leads k m (\<lambda>r l. \<exists>a. r = Inr a \<and> Q a l)"

lemma landsD: "lands (kern w) m Q \<Longrightarrow> run_state m w = (r, w') \<Longrightarrow> \<exists>a. r = Inr a \<and> Q a (kern w')"
  unfolding lands_def by (rule leadsD)

lemma lands_conseq: "lands k m R \<Longrightarrow> (\<And>a l. R a l \<Longrightarrow> Q a l) \<Longrightarrow> lands k m Q"
  unfolding lands_def leads_def by blast

lemma lands_leads: "lands k m R \<Longrightarrow> (\<And>a l. R a l \<Longrightarrow> Q (Inr a) l) \<Longrightarrow> leads k m Q"
  unfolding lands_def leads_def by metis

lemma lands_try:
  assumes "lands k m R" and "\<And>a l. R a l \<Longrightarrow> lands l (f a) Q"
  shows "lands k (try_io m f) Q"
  unfolding lands_def try_io_def
  by (rule leads_bind [OF assms(1) [unfolded lands_def]]) (use assms(2) in \<open>auto simp: lands_def\<close>)

lemma lands_map_err: "lands k m Q \<Longrightarrow> lands k (map_err h m) Q"
  unfolding lands_def map_err_def by (rule leads_bind) (auto simp: leads_def)

lemma lands_ok: "Q a k \<Longrightarrow> lands k (ok a) Q"
  by (simp add: lands_def leads_def)

lemma leads_syscall:
  assumes "quiet E" and "\<And>t. Q (fst (f t k)) (snd (f t k))"
  shows "leads k (syscall E f) Q"
  using assms by (auto simp: leads_def quiet_simps)

lemma leads_return: "Q a k \<Longrightarrow> leads k (State_Monad.return a) Q"
  by (simp add: leads_def)

lemma leads_nonce:
  assumes "quiet E" and "\<And>p t n. leads k (f (nonce_text p t n)) Q"
  shows "leads k (State_Monad.bind (startup_nonce E) f) Q"
  using assms by (auto simp: leads_def startup_nonce_def State_Monad.bind_def quiet_simps)

lemma leads_now:
  assumes "quiet E" and "\<And>n. leads k (f (clock E n)) Q"
  shows "leads k (State_Monad.bind (now E) f) Q"
  using assms by (auto simp: leads_def State_Monad.bind_def quiet_simps)

lemma lands_write_record: "quiet E \<Longrightarrow> lands k (write_lock_record E i p s) (\<lambda>_ l. \<exists>t. l = append_ino i s t k)"
  by (auto simp: lands_def leads_def write_lock_record_def State_Monad.bind_def quiet_simps)

lemma lands_create_new:
  assumes "quiet E" and "files k p = None" and "parent_ok k p"
  shows "lands k (create_new E p) (\<lambda>i l. \<exists>t. files l p = Some (File i [] t))"
  unfolding create_new_def lands_def using assms
  by (intro leads_syscall) (auto simp: k_create_new_def k_create_def put_node_def)

lemma lands_claim:
  assumes "quiet E" and "files k p = None" and "parent_ok k p"
  shows "lands k (try_io (map_err h (create_new E p)) (\<lambda>f.
     try_io (map_err h' (write_lock_record E f p s)) (\<lambda>_. ok g)))
     (\<lambda>a l. a = g \<and> (\<exists>i t. files l p = Some (File i s t)))"
  by (rule lands_try [OF lands_map_err [OF lands_create_new [OF assms]]],
      rule lands_try [OF lands_map_err [OF lands_write_record [OF assms(1)]]], rule lands_ok)
    (auto simp: append_ino_self)

definition sibling :: "string \<Rightarrow> string \<Rightarrow> string \<Rightarrow> bool" where
  "sibling path d b = (path = d @ ''/'' @ b \<and> CHR ''/'' \<notin> set b \<and> d \<noteq> [] \<and> last d \<noteq> CHR ''/'')"

lemma quarantine_path:
  assumes "sibling path d b"
  shows "sibling (with_file_name path (quarantine_name p (nonce_text q t n))) d (quarantine_name p (nonce_text q t n))"
proof -
  have "CHR ''/'' \<notin> set (quarantine_name p (nonce_text q t n))"
    using show_nat_digits [of "CHR ''/''"]
    by (auto simp: quarantine_name_def nonce_text_def is_ascii_digit_def code_def)
  moreover have "with_file_name path (quarantine_name p (nonce_text q t n)) = d @ ''/'' @ quarantine_name p (nonce_text q t n)"
    using assms by (simp add: sibling_def with_file_name_def parent_of_child [simplified] path_join_def starts_with_def quarantine_name_def)
  ultimately show ?thesis using assms by (simp add: sibling_def)
qed

lemma sibling_parent: "sibling path d b \<Longrightarrow> files k d = Some (Dir t) \<Longrightarrow> parent_ok k path \<and> path \<noteq> d"
  using parent_ok_dir [OF parent_of_child [of b d]] by (auto simp: sibling_def)

lemma answers_looked: "quiet E \<Longrightarrow> f k = r \<Longrightarrow> answers k (look E f) r"
  using answers_look [of E k f] by simp

lemma reads_record:
  "quiet E \<Longrightarrow> files k path = Some (File i raw m) \<Longrightarrow> valid_utf8 raw \<Longrightarrow> answers k (read_to_string E path) (Inr raw)"
  unfolding read_to_string_def
  by (rule answers_looked) (simp_all add: k_read_to_string_def k_read_def k_stat_def follow_file del: valid_utf8.simps)

lemma record_bytes:
  "quiet E \<Longrightarrow> files k path = Some (File i raw m) \<Longrightarrow> valid_utf8 raw \<Longrightarrow> answers k (read_lock_bytes E path) (Inr (Some raw))"
  unfolding read_lock_bytes_def
  using answers_attempts [where n = 3, OF _ reads_record] by (simp del: attempts.simps)

lemma record_date:
  assumes "quiet E" and "files k path = Some (File i raw m)"
  shows "answers k (lock_mtime E path) (Inr (Some m))"
proof -
  have "answers k (modified E path) (Inr m)"
    unfolding modified_def using assms by (intro answers_looked) (simp_all add: k_stat_def follow_file)
  from answers_attempts [OF assms(1) this, of 3] show ?thesis by (simp add: lock_mtime_def)
qed

text \<open>The stale record is moved aside and dropped.\<close>

lemma leads_quarantine:
  assumes E: "quiet E" and path: "sibling path d b" and dir: "files k d = Some (Dir t)"
    and there: "files k path = Some (File i raw m)" and utf8: "valid_utf8 raw"
    and free: "\<And>n. \<not> is_dir (files k (with_file_name path (quarantine_name (process_id E) n)))"
  shows "leads k (quarantine_verified E path raw) (\<lambda>r l. r \<and> files l path = None \<and> files l d = Some (Dir t))"
proof -
  have drop: "leads l (reconcile_quarantine E path q raw) (\<lambda>r l. r \<and> files l path = None \<and> files l d = Some (Dir t))"
    if l: "l = k\<lparr>files := (files k)(path := None, q := Some (File i raw m))\<rparr>" and q: "sibling q d b'" for q l b'
  proof -
    have read: "answers l (read_to_string E q) (Inr raw)"
      by (rule reads_record [OF E _ utf8]) (simp add: l)
    have gone: "leads l (remove_file E q) (\<lambda>_ l. files l path = None \<and> files l d = Some (Dir t))"
      unfolding remove_file_def using sibling_parent [OF path dir] sibling_parent [OF q dir] dir
      by (intro leads_syscall [OF E]) (auto simp: k_remove_file_def put_node_def l)
    show ?thesis
      unfolding reconcile_quarantine_def
      by (rule leads_after [OF read]) (simp, rule leads_bind [OF gone], rule leads_return, simp)
  qed
  have "leads k (detach_to_quarantine E path) (\<lambda>r l. \<exists>q b'. r = Inr q \<and> sibling q d b' \<and>
      l = k\<lparr>files := (files k)(path := None, q := Some (File i raw m))\<rparr>)"
    unfolding detach_to_quarantine_def
  proof (rule leads_nonce [OF E], unfold Let_def)
    fix p t' n
    let ?q = "with_file_name path (quarantine_name (process_id E) (nonce_text p t' n))"
    note q = quarantine_path [OF path, of "process_id E" p t' n]
    have "lands k (rename E path ?q) (\<lambda>_ l. l = k\<lparr>files := (files k)(path := None, ?q := Some (File i raw m))\<rparr>)"
      unfolding rename_def lands_def using sibling_parent [OF q dir] there free
      by (intro leads_syscall [OF E]) (auto simp: k_rename_def)
    then have "lands k (try_io (rename E path ?q) (\<lambda>_. ok ?q)) (\<lambda>q l. q = ?q \<and>
        l = k\<lparr>files := (files k)(path := None, q := Some (File i raw m))\<rparr>)"
      by (rule lands_try) (auto intro: lands_ok)
    then show "leads k (try_io (rename E path ?q) (\<lambda>_. ok ?q)) (\<lambda>r l. \<exists>q b'. r = Inr q \<and> sibling q d b' \<and>
        l = k\<lparr>files := (files k)(path := None, q := Some (File i raw m))\<rparr>)"
      by (rule lands_leads) (use q in blast)
  qed
  then have "leads k (detach_attempts E 3 path raw) (\<lambda>r l. r \<and> files l path = None \<and> files l d = Some (Dir t))"
    unfolding eval_nat_numeral detach_attempts.simps by (rule leads_bind) (auto intro: drop)
  then show ?thesis
    unfolding quarantine_verified_def by (intro leads_after [OF record_bytes [OF E there utf8]]) simp
qed

definition recorded_guard :: "string \<Rightarrow> lock_guard \<Rightarrow> kern \<Rightarrow> bool" where
  "recorded_guard path g k = (guard_path g = path \<and> (\<exists>i t. files k path = Some (File i (guard_nonce g) t)))"

text \<open>A name with no record, or with one five minutes old, can be started.\<close>

lemma lands_acquire:
  assumes E: "quiet E" and path: "sibling path d b" and dir: "files k d = Some (Dir t)"
    and there: "files k path = None \<or> (\<exists>i raw m. files k path = Some (File i raw m) \<and> valid_utf8 raw \<and>
      (\<forall>n. m + secs 300 \<le> clock E n))"
    and free: "\<And>n. \<not> is_dir (files k (with_file_name path (quarantine_name (process_id E) n)))"
  shows "lands k (acquire_startup_lock E path) (recorded_guard path)"
proof (cases "files k path")
  case None
  have "lands l (try_io (map_err h (write_lock_record E i path n)) (\<lambda>_. ok \<lparr>guard_path = path, guard_nonce = n\<rparr>)) (recorded_guard path)"
    if "files l path = Some (File i [] t)" for h l i n t
    by (rule lands_try [OF lands_map_err [OF lands_write_record [OF E]]], rule lands_ok)
      (use that in \<open>auto simp: append_ino_self recorded_guard_def\<close>)
  then show ?thesis
    unfolding acquire_startup_lock_def lands_def
    by (intro leads_nonce [OF E] leads_bind [OF lands_create_new [OF E None, unfolded lands_def]])
      (use sibling_parent [OF path dir] in auto)
next
  case (Some nd)
  with there obtain i raw m where rec: "files k path = Some (File i raw m)" "valid_utf8 raw"
    and old: "\<And>n. m + secs 300 \<le> clock E n" by auto
  have claim: "lands l (claim_stale_startup_lock E path) (recorded_guard path)"
    if "files l path = None" "files l d = Some (Dir t)" for l
    unfolding claim_stale_startup_lock_def lands_def
    by (rule leads_nonce [OF E], rule lands_leads [OF lands_claim [OF E that(1)]])
      (use sibling_parent [OF path that(2)] in \<open>auto simp: recorded_guard_def\<close>)
  have refused: "answers k (create_new E path) (Inl (os AlreadyExists))"
    using E rec by (simp add: answers_def create_new_def quiet_simps k_create_new_def)
  have stale: "answers k (stale_startup_mtime E m) True"
    using E old le_trans [OF _ old]
    by (auto simp: answers_def stale_startup_mtime_def State_Monad.bind_def quiet_simps STARTUP_LOCK_STALE_def le_diff_conv2)
  have "lands k (reclaim_and_claim E path raw) (recorded_guard path)"
    unfolding reclaim_and_claim_def lands_def
    by (rule leads_after [OF record_date [OF E rec(1)]], simp, rule leads_after [OF stale], simp,
      rule leads_bind [OF leads_quarantine [OF E path dir rec free]]) (use claim in \<open>auto simp: lands_def\<close>)
  then show ?thesis
    unfolding acquire_startup_lock_def lands_def
    by (intro leads_nonce [OF E] leads_after [OF refused], simp, intro leads_after [OF record_bytes [OF E rec]]) simp
qed

text \<open>C18: A name is never lost: with no record of it, or one five minutes old by every clock reading, whole or cut
  short as a starter that died left it, \<open>acquire_startup_lock\<close> succeeds when nobody interferes, and its
  record holds the nonce of the guard it answers.\<close>

theorem startup_lock_recovers:
  assumes "quiet E" and "sibling path d b" and "files (kern w) d = Some (Dir t)"
    and "files (kern w) path = None \<or> (\<exists>i raw m. files (kern w) path = Some (File i raw m) \<and> valid_utf8 raw \<and>
      (\<forall>n. m + secs 300 \<le> clock E n))"
    and "\<forall>n. \<not> is_dir (files (kern w) (with_file_name path (quarantine_name (process_id E) n)))"
  shows "\<exists>g w'. run_state (acquire_startup_lock E path) w = (Inr g, w') \<and> guard_path g = path \<and>
    (\<exists>i t. files (kern w') path = Some (File i (guard_nonce g) t))"
proof -
  obtain r w' where run: "run_state (acquire_startup_lock E path) w = (r, w')" by fastforce
  from landsD [OF lands_acquire [OF assms(1-4)] run] assms(5) run show ?thesis
    by (auto simp: recorded_guard_def)
qed

theorem startup_lock_recovers_witness:
  "\<exists>g w'. run_state (acquire_startup_lock ((still_env brace_serde)\<lparr>clock := \<lambda>_. secs 300 + 5\<rparr>) ''/s/x.lock'')
     (world_of [(''/s'', Dir 0), (''/s/x.lock'', File 2 ''7-1'' 5)]) = (Inr g, w') \<and>
     (\<exists>i t. files (kern w') ''/s/x.lock'' = Some (File i (guard_nonce g) t))"
proof -
  let ?E = "(still_env brace_serde)\<lparr>clock := \<lambda>_. secs 300 + 5\<rparr>"
    and ?w = "world_of [(''/s'', Dir 0), (''/s/x.lock'', File 2 ''7-1'' 5)]"
  have "quiet ?E" by (simp add: quiet_def alone_def)
  moreover have sib: "sibling ''/s/x.lock'' ''/s'' ''x.lock''" by (simp add: sibling_def)
  moreover have "valid_utf8 ''7-1''" by (rule valid_utf8_ascii) (auto simp: code_def)
  moreover have "\<not> is_dir (files (kern ?w) (with_file_name ''/s/x.lock'' (quarantine_name p n)))" for p n
    by (simp add: with_file_name_def parent_of_def path_join_def starts_with_def quarantine_name_def)
  ultimately show ?thesis
    using startup_lock_recovers [of ?E "''/s/x.lock''" "''/s''" "''x.lock''" ?w 0] by (auto simp del: valid_utf8.simps)
qed

end
