(* ===== verification/Endpoint.thy ===== *)
theory Endpoint
  imports Progress Demo
begin

text \<open>
  The endpoint lock of \<open>src/session/locks.rs\<close> among any number of attachers: a record whose holder is alive is never
  taken, \<open>acquire_endpoint_lock\<close> and \<open>release_endpoint_lock\<close> run by the steps of the protocol of \<open>Starters\<close>, with
  the nonce inside the record as the mark of its owner, and a record whose holder is gone is taken over.
\<close>

section \<open>A live holder keeps its lock\<close>

text \<open>The record is in place, and the process it names, if it names one, is there.\<close>

definition endpoint_held :: "env \<Rightarrow> string \<Rightarrow> nat \<Rightarrow> string \<Rightarrow> nat \<Rightarrow> kern \<Rightarrow> bool" where
  "endpoint_held E path i raw m k =
     (files k path = Some (File i raw m) \<and>
      (\<forall>pid. record_pid E raw = Some pid \<longrightarrow> is_dir (files k (''/proc/'' @ show_nat (unat pid)))))"

lemma holds_alive:
  assumes "sheltered E K" and "honest E" and "\<And>k. K k \<Longrightarrow> is_dir (files k (''/proc/'' @ show_nat (unat pid)))"
  shows "holds K (holder_alive E pid) (\<lambda>l. l \<noteq> Dead)"
proof -
  have "passes K (\<lambda>w. K (kern w)) (symlink_metadata E (''/proc/'' @ show_nat (unat pid)))
      (\<lambda>m w. K (kern w) \<and> (case m of Inl e \<Rightarrow> io_kind e \<noteq> NotFound | Inr _ \<Rightarrow> True))"
    unfolding symlink_metadata_def
    by (rule passes_look)
      (use assms in \<open>auto simp: sheltered_seen honest_def k_lstat_def split: option.split elim!: is_dirE dest!: assms(3) [OF sheltered_seen [OF assms(1)]]\<close>)
  then show ?thesis
    unfolding holder_alive_def
    by (intro holds_bind [where R = "\<lambda>m. case m of Inl e \<Rightarrow> io_kind e \<noteq> NotFound | Inr _ \<Rightarrow> True"] holds_return)
      (auto simp: holds_def split: sum.splits file_type.splits)
qed

lemma holds_not_stale:
  assumes "sheltered E K" and "honest E" and "\<And>k. K k \<Longrightarrow> endpoint_held E path i raw m k"
    and "\<And>n. clock E n < m + ENDPOINT_LOCK_STALE"
  shows "holds K (lock_snapshot_is_stale E raw m) (\<lambda>stale. \<not> stale)"
proof -
  have probe: "holds K (holder_alive E pid \<bind> (\<lambda>l. State_Monad.return (l = Dead))) (\<lambda>stale. \<not> stale)"
    if "record_pid E raw = Some pid" for pid
    by (rule holds_bind [OF holds_alive [OF assms(1,2)]], use assms(3) that in \<open>auto simp: endpoint_held_def intro: holds_return\<close>)
  show ?thesis
    unfolding lock_snapshot_is_stale_by_def
    by (rule holds_bind [where R = "\<lambda>t. t < m + ENDPOINT_LOCK_STALE"], rule holds_now [OF assms(1)], rule assms(4))
      (auto intro: holds_return probe split: option.split)
qed

lemma holds_reclaim:
  assumes guard: "sheltered E K" and "honest E" and held: "\<And>k. K k \<Longrightarrow> endpoint_held E path i raw m k"
    and "\<And>n. clock E n < m + ENDPOINT_LOCK_STALE"
  shows "holds K (reclaim_stale_lock E path) (\<lambda>_. True)"
proof -
  have there: "files k path = Some (File i raw m)" if "K k" for k
    using held [OF that] by (simp add: endpoint_held_def)
  have fresh: "holds K (lock_snapshot_is_stale E raw m \<bind>
      (\<lambda>stale. if \<not> stale then State_Monad.return False else f)) (\<lambda>_. True)" for f
    by (rule holds_bind [OF holds_not_stale [OF assms]]) (auto intro: holds_return)
  have dated: "holds K (lock_mtime E path \<bind> (\<lambda>m. case m of
      Inl _ \<Rightarrow> State_Monad.return False | Inr None \<Rightarrow> State_Monad.return True
    | Inr (Some mtime) \<Rightarrow> lock_snapshot_is_stale E raw mtime \<bind>
        (\<lambda>stale. if \<not> stale then State_Monad.return False else quarantine_verified E path raw))) (\<lambda>_. True)"
  proof (rule holds_bind [OF holds_record(2) [OF guard there]], goal_cases)
    case (2 r)
    then show ?case by (cases r) (auto split: option.split intro: holds_return fresh)
  qed
  show ?thesis
    unfolding reclaim_stale_lock_def
  proof (rule holds_bind [OF holds_record(1) [OF guard there]], goal_cases)
    case (2 r)
    then show ?case by (cases r) (auto split: option.split intro: holds_return dated)
  qed
qed

lemma holds_claim_endpoint:
  assumes "sheltered E K" and "\<And>k. K k \<Longrightarrow> files k path \<noteq> None"
  shows "holds K (claim_endpoint E path name) isl"
  unfolding claim_endpoint_def
  by (rule holds_bind [OF holds_nonce [OF assms(1)]], rule holds_bind [OF holds_now [OF assms(1)]], rule TrueI)
    (rule holds_try [where R = isl], rule holds_map_err, rule holds_weaken [OF holds_create_new [OF assms]],
     auto split: sum.split)

lemma holds_json: "sheltered E K \<Longrightarrow> holds K (read_json_opt E p) (\<lambda>_. True)"
  and holds_exists: "sheltered E K \<Longrightarrow> holds K (exists E p) (\<lambda>_. True)"
  unfolding read_json_opt_def exists_def read_to_string_def
  by (rule holds_bind [OF holds_look], auto intro: holds_return)+

definition is_held :: "endpoint_claim result \<Rightarrow> bool" where
  "is_held r = (case r of Inr (Held _) \<Rightarrow> True | _ \<Rightarrow> False)"

lemma is_held_simps [simp]: "\<not> is_held (Inl e)" "is_held (Inr (Held g))" "\<not> is_held (Inr (Busy b))"
  by (simp_all add: is_held_def)

abbreviation not_held :: "endpoint_claim result \<Rightarrow> bool" where
  "not_held r \<equiv> \<not> is_held r"

lemma holds_busy:
  assumes "sheltered E K"
  shows "holds K (endpoint_busy_report E path root) not_held"
  unfolding endpoint_busy_report_def endpoint_lock_session_name_def Let_def
  by (rule holds_bind, rule holds_bind [OF holds_json [OF assms]], rule holds_return, rule TrueI,
      rule holds_bind [OF holds_exists [OF assms]], simp add: ok_def, rule holds_return, simp)

lemma holds_acquire_endpoint:
  assumes guard: "sheltered E K" and "honest E"
    and held: "\<And>k. K k \<Longrightarrow> endpoint_held E (endpoint_lock_path locks lang host port) i raw m k"
    and "\<And>n. clock E n < m + ENDPOINT_LOCK_STALE"
    and dirs: "\<And>k t. K k \<Longrightarrow> K (snd (k_mkdirs (path_prefixes locks) t k))"
  shows "holds K (acquire_endpoint_lock E locks root name lang host port) not_held"
proof -
  let ?p = "endpoint_lock_path locks lang host port"
  have there: "files k ?p \<noteq> None" if "K k" for k
    using held [OF that] by (simp add: endpoint_held_def)
  have mkdirs: "holds K (create_dir_all E locks) (\<lambda>_. True)"
    unfolding create_dir_all_def holds_def
    by (rule passes_syscall) (auto simp: sheltered_seen [OF guard] dirs)
  note claim = holds_claim_endpoint [OF guard there] and busy = holds_busy [OF guard]
  have again: "holds K (claim_endpoint E ?p name \<bind> (\<lambda>c2. case c2 of Inr g \<Rightarrow> ok (Held g)
      | Inl e2 \<Rightarrow> if downcast_io e2 \<noteq> Some AlreadyExists then err e2 else endpoint_busy_report E ?p root)) not_held"
    by (rule holds_bind [OF claim]) (auto simp: err_def busy intro: holds_return split: sum.splits)
  have taken: "holds K (reclaim_stale_lock E ?p \<bind> (\<lambda>gone. if gone then f else endpoint_busy_report E ?p root)) not_held"
    if "holds K f not_held" for f
    by (rule holds_bind [OF holds_reclaim [OF guard assms(2) held assms(4)]]) (auto simp: busy that)
  show ?thesis
    unfolding acquire_endpoint_lock_def Let_def
    by (rule holds_try [where R = "\<lambda>_. True"], rule holds_map_err, rule holds_weaken [OF mkdirs], simp split: sum.split,
        rule holds_bind [OF claim])
      (auto simp: err_def taken again intro: holds_return split: sum.splits)
qed

lemma endpoint_held_mkdirs: "endpoint_held E path i raw m k \<Longrightarrow> endpoint_held E path i raw m (snd (k_mkdirs ps t k))"
  by (auto simp: endpoint_held_def k_mkdirs_keeps elim!: is_dirE)

lemma holds_held:
  assumes "sheltered E (endpoint_held E path i raw m)" and "honest E" and "\<forall>n. clock E n < m + secs 7200"
    and "path = endpoint_lock_path locks lang host port"
  shows "holds (endpoint_held E path i raw m) (acquire_endpoint_lock E locks root name lang host port) not_held"
  using assms holds_acquire_endpoint [of E "endpoint_held E path i raw m" locks lang host port i raw m root name]
  by (simp add: endpoint_held_mkdirs ENDPOINT_LOCK_STALE_def)

text \<open>C17: The lock of a live attacher is never taken: as long as its record is there, less than two hours old, and the
  process it names is there, an attempt to acquire the same endpoint does not get it, whatever else happens
  and whatever errors occur, short of one that denies that a file exists; and the record is unchanged in every
  state in between.\<close>

theorem endpoint_lock_respected:
  assumes "sheltered E (endpoint_held E path i raw m)" and "honest E" and "\<forall>n. clock E n < m + secs 7200"
    and "path = endpoint_lock_path locks lang host port" and "endpoint_held E path i raw m (kern w)"
    and "run_state (acquire_endpoint_lock E locks root name lang host port) w = (r, w')"
  shows "\<not> is_held r \<and>
    (\<exists>new. history w' = history w @ new \<and> (\<forall>k\<in>set new. files k path = Some (File i raw m)))"
proof -
  note held = holds_held [OF assms(1-4), unfolded holds_def]
  from passesD [OF held assms(5,6)] passes_history [OF held assms(5,6)] show ?thesis
    by (auto simp: endpoint_held_def)
qed

section \<open>The steps of an attacher\<close>

text \<open>The nonce in a record, and what makes a record one's own.\<close>

definition nonce_in :: "env \<Rightarrow> string \<Rightarrow> string option" where
  "nonce_in E raw = Option.bind (to_option (from_str (codec E) raw)) (\<lambda>v. str_field v ''nonce'')"

definition same_nonce :: "env \<Rightarrow> string \<Rightarrow> string \<Rightarrow> bool" where
  "same_nonce E c c' = (nonce_in E c \<noteq> None \<and> nonce_in E c = nonce_in E c')"

lemma release_endpoint_steps:
  assumes "alone E" and "s i = Out" and "nonce_in E c = Some n"
    and "run_state (release_endpoint_lock E path n) v = (u, v')"
  shows "claimant_steps (same_nonce E) path (kern v, s(i := Owner c)) (kern v', s)"
proof -
  let ?chk = "do { v \<leftarrow> read_json_opt E path; State_Monad.return (Option.bind v (\<lambda>v. str_field v ''nonce'') = Some n) }"
  have split: "release_endpoint_lock E path n = do { b \<leftarrow> ?chk;
      if b then do { _ \<leftarrow> remove_file E path; State_Monad.return () } else State_Monad.return () }"
    by (rule state_ext) (simp add: release_endpoint_lock_def State_Monad.bind_def split: prod.split)
  show ?thesis
  proof (rule release_by_steps [of E s i ?chk v path "same_nonce E" c, OF assms(1,2) _ assms(4) [unfolded split]])
    fix b v1
    assume "run_state ?chk v = (b, v1)"
    then have b: "b = (Option.bind (to_option (case fault E (calls v) of Some e \<Rightarrow> Inl e | None \<Rightarrow> k_read_to_string path (kern v)))
        (nonce_in E) = Some n)" and "kern v1 = kern v"
      by (auto simp: read_json_opt_def read_to_string_def State_Monad.bind_def alone_sees [OF assms(1)]
          nonce_in_def [abs_def] split: option.splits)
    then show "kern v1 = kern v \<and> (b \<longrightarrow> (\<exists>c'. k_read_to_string path (kern v) = Inr c' \<and> same_nonce E c' c))"
      using assms(3) by (auto simp: same_nonce_def to_option_def split: option.splits sum.splits)
  qed
qed

lemma claim_endpoint_steps:
  assumes "alone E" and "s i = Out" and "run_state (claim_endpoint E path name) w = (r, w')"
  shows "\<exists>t. claimant_steps mine path (kern w, s) (kern w', s(i := case r of
    Inr g \<Rightarrow> Owner (to_text (codec E) (endpoint_record E (guard_nonce g) name t)) | Inl _ \<Rightarrow> Out))"
proof -
  obtain n w1 where n: "run_state (startup_nonce E) w = (n, w1)" by fastforce
  let ?t = "clock E (calls w1)" let ?c = "to_text (codec E) (endpoint_record E n name ?t)"
  have "kern (moved E w1) = kern w" using nonce_step [OF assms(1) n] by (simp add: alone_sees [OF assms(1)])
  with create_steps [of E s i _ path _ ?c "\<lparr>guard_path = path, guard_nonce = n\<rparr>" "moved E w1" r w' mine, OF assms(1,2)] assms(3) n
  have "claimant_steps mine path (kern w, s) (kern w', s(i := case r of Inr g \<Rightarrow>
      Owner (to_text (codec E) (endpoint_record E (guard_nonce g) name ?t)) | Inl _ \<Rightarrow> Out))"
    unfolding claim_endpoint_def by (cases r) (fastforce simp: State_Monad.bind_def simp del: run_try_io)+
  then show ?thesis ..
qed

lemma lock_not_prefix:
  assumes "\<not> starts_with lang ''/''"
  shows "endpoint_lock_path locks lang host port \<notin> set (path_prefixes locks)"
proof -
  have "length p \<le> length locks" if "p \<in> set (path_prefixes locks)" for p
    using that by (auto simp: path_prefixes_def)
  moreover have "length locks < length (endpoint_lock_path locks lang host port)"
    using assms by (cases lang) (auto simp: endpoint_lock_path_def endpoint_lock_name_def path_join_def starts_with_def)
  ultimately show ?thesis by (auto simp: not_less [symmetric])
qed

text \<open>The endpoint record a successful claim leaves.\<close>

definition claim_of :: "env \<Rightarrow> string \<Rightarrow> endpoint_claim result \<Rightarrow> nat \<Rightarrow> starter" where
  "claim_of E name r t = (case r of
     Inr (Held g) \<Rightarrow> Owner (to_text (codec E) (endpoint_record E (guard_nonce g) name t)) | _ \<Rightarrow> Out)"

lemma claim_refused:
  assumes "alone E" and "run_state (claim_endpoint E path name) w = (Inl e, w')" and "downcast_io e = Some AlreadyExists"
  shows "kern w' = kern w"
proof -
  obtain n w1 where n: "run_state (startup_nonce E) w = (n, w1)" by fastforce
  obtain f w2 where f: "run_state (create_new E path) (moved E w1) = (f, w2)" by fastforce
  have "kern (moved E w1) = kern w" using nonce_step [OF assms(1) n] by (simp add: alone_sees [OF assms(1)])
  then show ?thesis
    using assms(2,3) n f create_refused [OF assms(1)]
    by (cases f) (auto simp: claim_endpoint_def State_Monad.bind_def cannot_write_lock_def split: prod.splits sum.splits)
qed

lemma try_claim_steps:
  assumes "alone E" and "s i = Out"
    and "run_state (claim_endpoint E path name \<bind> (\<lambda>c. case c of
      Inr g \<Rightarrow> ok (Held g) | Inl e \<Rightarrow> if downcast_io e \<noteq> Some AlreadyExists then err e else f)) w = (r, w')"
    and "\<And>v r v'. kern v = kern w \<Longrightarrow> run_state f v = (r, v') \<Longrightarrow>
      \<exists>t. claimant_steps mine path (kern v, s) (kern v', s(i := claim_of E name r t))"
  shows "\<exists>t. claimant_steps mine path (kern w, s) (kern w', s(i := claim_of E name r t))"
proof -
  obtain c w1 where c: "run_state (claim_endpoint E path name) w = (c, w1)" by fastforce
  from claim_endpoint_steps [of E s i, OF assms(1,2) c] obtain t
    where steps: "claimant_steps mine path (kern w, s) (kern w1, s(i := case c of
      Inr g \<Rightarrow> Owner (to_text (codec E) (endpoint_record E (guard_nonce g) name t)) | Inl _ \<Rightarrow> Out))" by blast
  show ?thesis
  proof (cases c)
    case (Inr g)
    with steps c assms(3) show ?thesis by (auto simp: State_Monad.bind_def claim_of_def)
  next
    case (Inl e)
    show ?thesis
    proof (cases "downcast_io e = Some AlreadyExists")
      case False
      with Inl steps c assms(3) show ?thesis by (auto simp: State_Monad.bind_def claim_of_def)
    next
      case True
      from claim_refused [OF assms(1) c [unfolded Inl] True] have "kern w1 = kern w" .
      with assms(4) [of w1] Inl True c assms(3) show ?thesis by (simp add: State_Monad.bind_def)
    qed
  qed
qed

lemma busy_steps:
  assumes "alone E" and "s i = Out" and "run_state (endpoint_busy_report E path root) w = (r, w')"
  shows "\<exists>t. claimant_steps mine path (kern w, s) (kern w', s(i := claim_of E name r t))"
proof -
  from holds_same [OF holds_busy [OF sheltered_alone [OF assms(1)]] refl assms(3)]
  have "kern w' = kern w" "claim_of E name r 0 = Out"
    by (auto simp: is_held_def claim_of_def split: sum.splits endpoint_claim.splits)
  with assms(2) show ?thesis by (metis fun_upd_idem rtranclp.rtrancl_refl)
qed

lemma reclaim_absent:
  assumes "alone E" and "files (kern w) path = None" and "run_state (reclaim_stale_lock E path) w = (b, w')"
  shows "kern w' = kern w"
proof -
  obtain raw w1 where raw: "run_state (read_lock_bytes E path) w = (raw, w1)" by fastforce
  from no_record_read [OF assms(1,2) raw] have "kern w1 = kern w" "raw = Inr None \<or> isl raw"
    by (cases raw; cases "projr raw"; auto)+
  with assms(3) raw show ?thesis by (auto simp: reclaim_stale_lock_def State_Monad.bind_def split: sum.splits)
qed

text \<open>The second attempt, on a free path.\<close>

lemma second_try_steps:
  assumes "alone E" and out: "s i = Out" and "files (kern v) path = None"
    and run: "run_state (do {
      gone \<leftarrow> reclaim_stale_lock E path;
      if gone then do {
        c2 \<leftarrow> claim_endpoint E path name;
        (case c2 of
           Inr g \<Rightarrow> ok (Held g)
         | Inl e2 \<Rightarrow> if downcast_io e2 \<noteq> Some AlreadyExists then err e2 else endpoint_busy_report E path root)
      }
      else endpoint_busy_report E path root }) v = (r, v')"
  shows "\<exists>t. claimant_steps mine path (kern v, s) (kern v', s(i := claim_of E name r t))"
proof -
  obtain b v1 where b: "run_state (reclaim_stale_lock E path) v = (b, v1)" by fastforce
  have same: "kern v1 = kern v" by (rule reclaim_absent [OF assms(1,3) b])
  show ?thesis
  proof (cases b)
    case True
    with run b have "run_state (claim_endpoint E path name \<bind> (\<lambda>c2. case c2 of Inr g \<Rightarrow> ok (Held g)
        | Inl e2 \<Rightarrow> if downcast_io e2 \<noteq> Some AlreadyExists then err e2 else endpoint_busy_report E path root)) v1 = (r, v')"
      by (simp add: State_Monad.bind_def)
    from try_claim_steps [of E s i, OF assms(1) out this busy_steps [of E s i, OF assms(1) out]] show ?thesis
      unfolding same .
  next
    case False
    with run b have "run_state (endpoint_busy_report E path root) v1 = (r, v')" by (simp add: State_Monad.bind_def)
    from busy_steps [of E s i, OF assms(1) out this] show ?thesis unfolding same .
  qed
qed

lemma acquire_endpoint_steps:
  assumes "alone E" and "honest E" and "\<forall>n. clock E n < m + secs 7200"
    and path: "path = endpoint_lock_path locks lang host port" and "\<not> starts_with lang ''/''"
    and there: "files (kern w) path = None \<or> (\<exists>j c. endpoint_held E path j c m (kern w))" and out: "s i = Out"
    and run: "run_state (acquire_endpoint_lock E locks root name lang host port) w = (r, w')"
  shows "\<exists>t. claimant_steps mine path (kern w, s) (kern w', s(i := claim_of E name r t))"
proof (cases "files (kern w) path = None")
  case False
  with there obtain j c where held: "endpoint_held E path j c m (kern w)" by blast
  note kept = holds_held [OF sheltered_alone [OF assms(1)] assms(2,3) path]
  from passesD [OF kept [unfolded holds_def] held run] held
  have "files (kern w') path = files (kern w) path" "claim_of E name r 0 = Out"
    by (auto simp: endpoint_held_def is_held_def claim_of_def split: sum.splits endpoint_claim.splits)
  with out show ?thesis by (metis elsewhere_steps fun_upd_idem)
next
  case True
  obtain d w1 where d: "run_state (create_dir_all E locks) w = (d, w1)" by fastforce
  have none: "files (kern w1) path = None"
    using d True k_mkdirs_elsewhere [OF lock_not_prefix [OF assms(5)]]
    by (auto simp: create_dir_all_def alone_sees [OF assms(1)] path split: option.splits)
  then have before: "claimant_steps mine path (kern w, s) (kern w1, s)"
    by (intro elsewhere_steps) (simp add: True)
  have "\<exists>t. claimant_steps mine path (kern w1, s) (kern w', s(i := claim_of E name r t))"
  proof (cases d)
    case (Inl e)
    with d run out show ?thesis
      by (auto simp: acquire_endpoint_lock_def claim_of_def fun_upd_idem)
  next
    case (Inr u)
    let ?f = "do {
      gone \<leftarrow> reclaim_stale_lock E path;
      if gone then do {
        c2 \<leftarrow> claim_endpoint E path name;
        (case c2 of
           Inr g \<Rightarrow> ok (Held g)
         | Inl e2 \<Rightarrow> if downcast_io e2 \<noteq> Some AlreadyExists then err e2 else endpoint_busy_report E path root)
      }
      else endpoint_busy_report E path root }"
    have again: "\<exists>t. claimant_steps mine path (kern v, s) (kern v', s(i := claim_of E name r t))"
      if "kern v = kern w1" "run_state ?f v = (r, v')" for v r v'
      by (rule second_try_steps [of E s i, OF assms(1) out _ that(2)]) (simp add: that(1) none)
    from d Inr run [unfolded acquire_endpoint_lock_def Let_def, folded path] have "run_state (claim_endpoint E path name \<bind> (\<lambda>c. case c of
      Inr g \<Rightarrow> ok (Held g) | Inl e \<Rightarrow> if downcast_io e \<noteq> Some AlreadyExists then err e else ?f)) w1 = (r, w')"
      by simp
    from try_claim_steps [of E s i, OF assms(1) out this again] show ?thesis .
  qed
  with before show ?thesis by (blast intro: rtranclp_trans)
qed

text \<open>There is no record, or one with a live holder.\<close>

definition endpoint_ready :: "env \<Rightarrow> string \<Rightarrow> world \<Rightarrow> bool" where
  "endpoint_ready E path w = (alone E \<and> honest E \<and> (\<exists>m. (\<forall>n. clock E n < m + secs 7200) \<and>
     (files (kern w) path = None \<or> (\<exists>j c. endpoint_held E path j c m (kern w)))))"

definition endpoint_outcome :: "env \<Rightarrow> string \<Rightarrow> endpoint_claim result \<Rightarrow> starter \<Rightarrow> bool" where
  "endpoint_outcome E name r st = (\<exists>t. st = claim_of E name r t)"

interpretation attaching: claim_lock "same_nonce E" "endpoint_lock_path locks lang host port"
    "acquire_endpoint_lock E locks root name lang host port"
    "\<lambda>w. \<not> starts_with lang ''/'' \<and> endpoint_ready E (endpoint_lock_path locks lang host port) w" "endpoint_outcome E name"
  for E locks root name lang host port
proof unfold_locales
  fix w :: world and s :: "'p \<Rightarrow> starter" and i r w'
  assume ready: "\<not> starts_with lang ''/'' \<and> endpoint_ready E (endpoint_lock_path locks lang host port) w"
    and run: "s i = Out" "run_state (acquire_endpoint_lock E locks root name lang host port) w = (r, w')"
  from ready obtain m where "\<forall>n. clock E n < m + secs 7200"
    "files (kern w) (endpoint_lock_path locks lang host port) = None \<or>
      (\<exists>j c. endpoint_held E (endpoint_lock_path locks lang host port) j c m (kern w))" "alone E" "honest E"
    by (auto simp: endpoint_ready_def)
  from acquire_endpoint_steps [of E m _ locks lang host port w s i, OF this(3,4,1) refl conjunct1 [OF ready] this(2) run]
  show "\<exists>st. endpoint_outcome E name r st \<and>
      claimant_steps (same_nonce E) (endpoint_lock_path locks lang host port) (kern w, s) (kern w', s(i := st))"
    unfolding endpoint_outcome_def by blast
qed

section \<open>A lock whose holder is gone\<close>

lemma k_mkdirs_present: "\<forall>p\<in>set ps. is_dir (files k p) \<Longrightarrow> k_mkdirs ps t k = (Inr (), k)"
  by (induction ps) (auto simp: k_stat_def follow_def eval_nat_numeral elim!: is_dirE)

definition abandoned :: "env \<Rightarrow> string \<Rightarrow> nat \<Rightarrow> kern \<Rightarrow> bool" where
  "abandoned E raw m k =
     ((\<forall>n. m + secs 7200 \<le> clock E n) \<or>
      (\<forall>n. m + secs 10 \<le> clock E n) \<and>
        (\<exists>pid. record_pid E raw = Some pid \<and> files k (''/proc/'' @ show_nat (unat pid)) = None))"

lemma answers_stale:
  assumes "quiet E" and "abandoned E raw m k"
  shows "answers k (lock_snapshot_is_stale E raw m) True"
proof -
  have old: "m + secs 10 \<le> clock E n" for n
    using assms(2) by (auto simp: abandoned_def secs_def dest: spec [of _ n])
  have late: "m \<le> clock E n" "secs 10 \<le> clock E n - m" for n using old [of n] by auto
  have "secs 7200 \<le> clock E n - m" if "m + secs 7200 \<le> clock E n" for n using that by simp
  then show ?thesis
    using assms late
    by (auto simp: answers_def lock_snapshot_is_stale_by_def holder_alive_def symlink_metadata_def State_Monad.bind_def quiet_simps
        k_lstat_def abandoned_def ENDPOINT_LOCK_STALE_def ENDPOINT_LOCK_GRACE_def not_less [symmetric] split: option.splits)
qed

lemma slash_free_lock:
  assumes "CHR ''/'' \<notin> set lang"
  shows "CHR ''/'' \<notin> set (endpoint_lock_name lang host port)"
proof -
  have "hex_char n \<noteq> CHR ''/''" if "n < 16" for n
  proof
    assume "hex_char n = CHR ''/''"
    with code_hex_char [OF that] show False by (simp add: code_def split: if_splits)
  qed
  then have "hex_char (code b div 16) \<noteq> CHR ''/''" "hex_char (code b mod 16) \<noteq> CHR ''/''" for b
    using code_less [of b] by simp_all
  moreover have "\<not> is_ascii_alphanumeric (CHR ''/'')"
    by (simp add: is_ascii_alphanumeric_def is_ascii_digit_def is_ascii_alphabetic_def code_def)
  ultimately have "CHR ''/'' \<notin> set (escape_byte b)" for b
    by (auto simp: escape_byte_def) metis+
  then show ?thesis
    using assms show_nat_digits [of "CHR ''/''"]
    by (auto simp: endpoint_lock_name_def is_ascii_digit_def code_def)
qed

lemma lock_sibling:
  assumes "locks \<noteq> []" and "last locks \<noteq> CHR ''/''" and "CHR ''/'' \<notin> set lang"
  shows "sibling (endpoint_lock_path locks lang host port) locks (endpoint_lock_name lang host port)"
proof -
  have "\<not> starts_with (endpoint_lock_name lang host port) ''/''"
    using slash_free_lock [OF assms(3)] by (cases lang) (auto simp: starts_with_def endpoint_lock_name_def)
  with slash_free_lock [OF assms(3)] assms(1,2) show ?thesis
    by (simp add: sibling_def endpoint_lock_path_def path_join_def)
qed

definition claimed_by :: "env \<Rightarrow> string \<Rightarrow> string \<Rightarrow> lock_guard \<Rightarrow> kern \<Rightarrow> bool" where
  "claimed_by E path name g k = (guard_path g = path \<and>
     (\<exists>i t u. files k path = Some (File i (to_text (codec E) (endpoint_record E (guard_nonce g) name t)) u)))"

lemma lands_claim_endpoint:
  assumes "quiet E" and "files k path = None" and "parent_ok k path"
  shows "lands k (claim_endpoint E path name) (claimed_by E path name)"
  unfolding claim_endpoint_def lands_def
  by (rule leads_nonce [OF assms(1)], rule leads_now [OF assms(1)], rule lands_leads [OF lands_claim [OF assms]])
    (auto simp: claimed_by_def)

lemma lands_acquire_endpoint:
  assumes E: "quiet E" and path: "sibling path locks b" and p: "path = endpoint_lock_path locks lang host port"
    and dirs: "\<forall>p\<in>set (path_prefixes locks). is_dir (files k p)" "files k locks = Some (Dir t)"
    and there: "files k path = None \<or> (\<exists>i raw m. files k path = Some (File i raw m) \<and> valid_utf8 raw \<and> abandoned E raw m k)"
    and free: "\<And>n. \<not> is_dir (files k (with_file_name path (quarantine_name (process_id E) n)))"
  shows "lands k (acquire_endpoint_lock E locks root name lang host port)
    (\<lambda>c l. \<exists>g. c = Held g \<and> claimed_by E path name g l)"
proof -
  have mkdirs: "answers k (create_dir_all E locks) (Inr ())"
    using E k_mkdirs_present [OF dirs(1)] by (simp add: answers_def create_dir_all_def quiet_simps)
  let ?Q = "\<lambda>c l. \<exists>g. c = Held g \<and> claimed_by E path name g l"
  have claim: "lands l (claim_endpoint E path name \<bind> (\<lambda>c. case c of Inr g \<Rightarrow> ok (Held g) | Inl e \<Rightarrow> h e)) ?Q"
    if "files l path = None" "files l locks = Some (Dir t)" for l h
    unfolding lands_def
    by (rule leads_bind [OF lands_claim_endpoint [OF E that(1), unfolded lands_def]])
      (use sibling_parent [OF path that(2)] in \<open>auto simp: leads_def\<close>)
  have "lands k (claim_endpoint E path name \<bind> (\<lambda>c1. case c1 of Inr g \<Rightarrow> ok (Held g)
      | Inl e \<Rightarrow> if downcast_io e \<noteq> Some AlreadyExists then err e
          else reclaim_stale_lock E path \<bind> (\<lambda>gone. if gone then claim_endpoint E path name \<bind> (\<lambda>c2. case c2 of
              Inr g \<Rightarrow> ok (Held g)
            | Inl e2 \<Rightarrow> if downcast_io e2 \<noteq> Some AlreadyExists then err e2 else endpoint_busy_report E path root)
            else endpoint_busy_report E path root))) ?Q"
  proof (cases "files k path")
    case None
    then show ?thesis by (rule claim) (rule dirs(2))
  next
    case (Some nd)
    with there obtain i raw m where rec: "files k path = Some (File i raw m)" "valid_utf8 raw"
      and old: "abandoned E raw m k" by auto
    have "leads k (claim_endpoint E path name) (\<lambda>r l. r = Inl (Io (os AlreadyExists)) \<and> l = k)"
      unfolding claim_endpoint_def
      by (rule leads_nonce [OF E], rule leads_now [OF E])
        (use E rec in \<open>simp add: leads_def create_new_def quiet_simps k_create_new_def\<close>)
    moreover have "leads k (reclaim_stale_lock E path) (\<lambda>r l. r \<and> files l path = None \<and> files l locks = Some (Dir t))"
      unfolding reclaim_stale_lock_def
      by (rule leads_after [OF record_bytes [OF E rec]], simp, rule leads_after [OF record_date [OF E rec(1)]], simp,
          rule leads_after [OF answers_stale [OF E old]], simp, rule leads_quarantine [OF E path dirs(2) rec free])
    ultimately show ?thesis
      unfolding lands_def
      by (elim leads_bind) (auto elim!: leads_bind intro: claim [unfolded lands_def])
  qed
  then show ?thesis
    unfolding acquire_endpoint_lock_def Let_def p [symmetric] lands_def try_io_def map_err_def
    by (intro leads_after [OF answers_bind [OF mkdirs answers_return [OF refl]]]) simp
qed

section \<open>One attacher\<close>

text \<open>An endpoint under \<open>/e\<close> held by process 7, for the witnesses.\<close>

definition endpoint_codec :: serde where
  "endpoint_codec = table_serde [(''{E}'', jobj [(''nonce'', VString ''7-1''), (''pid'', num 7)])]"

definition endpoint_env :: "nat \<Rightarrow> env" where
  "endpoint_env t = (still_env endpoint_codec)\<lparr>clock := \<lambda>_. t\<rparr>"

definition endpoint_world :: "(string \<times> node) list \<Rightarrow> world" where
  "endpoint_world fs = world_of ((endpoint_lock_path ''/e'' ''js'' ''h'' 9229, File 2 ''{E}'' 5) # (''/e'', Dir 0) # fs)"

lemma endpoint_env_simps [simp]:
  "fault (endpoint_env t) n = None" "codec (endpoint_env t) = endpoint_codec" "clock (endpoint_env t) n = t"
  "process_id (endpoint_env t) = 42" "interfere (endpoint_env t) n k = k"
  by (simp_all add: endpoint_env_def)

lemma endpoint_env_quiet: "alone (endpoint_env t)" "honest (endpoint_env t)" "quiet (endpoint_env t)"
  by (simp_all add: alone_def honest_def quiet_def)

lemma endpoint_demo_path:
  "endpoint_lock_path ''/e'' ''js'' ''h'' 9229 = ''/e'' @ ''/'' @ endpoint_lock_name ''js'' ''h'' 9229"
  by (simp add: endpoint_lock_path_def path_join_def endpoint_lock_name_def starts_with_def)

lemma endpoint_demo_record: "record_pid (endpoint_env t) ''{E}'' = Some 7" "nonce_in (endpoint_env t) ''{E}'' = Some ''7-1''"
  by (simp_all add: record_pid_def nonce_in_def endpoint_codec_def table_serde_def jobj_def u64_field_def json_get_def
      num_def as_u64_def u32_try_from_def str_field_def as_str_def)

lemma endpoint_demo_quarantine: "with_file_name (endpoint_lock_path ''/e'' ''js'' ''h'' 9229) (quarantine_name p n) = ''/e'' @ ''/'' @ quarantine_name p n"
  using slash_free_lock [of "''js''" "''h''" 9229]
  unfolding endpoint_demo_path with_file_name_def
  by (subst parent_of_child) (simp_all add: path_join_def starts_with_def quarantine_name_def)

lemma endpoint_demo_held:
  "endpoint_held (endpoint_env t) (endpoint_lock_path ''/e'' ''js'' ''h'' 9229) 2 ''{E}'' 5
    (kern (endpoint_world [(''/proc/7'', Dir 0)]))"
  by (simp add: endpoint_held_def endpoint_world_def endpoint_demo_record show_nat.simps digit_char_values endpoint_demo_path)

theorem endpoint_lock_respected_witness:
  "\<not> is_held (fst (run_state (acquire_endpoint_lock (endpoint_env 60000000005) ''/e'' ''/s'' ''x'' ''js'' ''h'' 9229)
      (endpoint_world [(''/proc/7'', Dir 0)])))"
proof -
  let ?E = "endpoint_env 60000000005"
  have "\<forall>n. clock ?E n < 5 + secs 7200" by (simp add: secs_def)
  from conjunct1 [OF endpoint_lock_respected [OF sheltered_alone [OF endpoint_env_quiet(1)] endpoint_env_quiet(2) this
      refl endpoint_demo_held surjective_pairing], of "''/s''" "''x''"]
  show ?thesis .
qed

text \<open>The endpoint locks are an implementation of the same protocol, with the nonce in a record in the place of the
  whole: with no record there or a live one, \<open>acquire_endpoint_lock\<close> leads by its steps to ownership of the record it
  wrote, or leaves the attacher outside, and \<open>release_endpoint_lock\<close> leads an owner whose record reads back outside.\<close>

theorem endpoint_locks_follow_protocol:
  assumes "alone E" and "honest E" and "\<forall>n. clock E n < m + secs 7200"
    and "path = endpoint_lock_path locks lang host port" and "\<not> starts_with lang ''/''"
    and "files (kern w) path = None \<or> (\<exists>j c. endpoint_held E path j c m (kern w))" and "s i = Out"
    and "run_state (acquire_endpoint_lock E locks root name lang host port) w = (r, w')"
    and "nonce_in E c = Some n" and "run_state (release_endpoint_lock E path n) v = (u, v')"
  shows "(\<exists>t. claimant_steps (same_nonce E) path (kern w, s) (kern w', s(i := claim_of E name r t))) \<and>
    claimant_steps (same_nonce E) path (kern v, s(i := Owner c)) (kern v', s)"
  using acquire_endpoint_steps [of E m path locks lang host port w s i, OF assms(1-8)]
    release_endpoint_steps [of E s i, OF assms(1,7,9,10)] by blast

theorem endpoint_locks_follow_protocol_witness:
  "\<exists>t. claimant_steps (same_nonce (endpoint_env 60000000005)) (endpoint_lock_path ''/e'' ''js'' ''h'' 9229)
     (kern (endpoint_world [(''/proc/7'', Dir 0)]), \<lambda>_ :: nat. Out)
     (kern (snd (run_state (acquire_endpoint_lock (endpoint_env 60000000005) ''/e'' ''/s'' ''x'' ''js'' ''h'' 9229)
        (endpoint_world [(''/proc/7'', Dir 0)]))), (\<lambda>_. Out)(0 := claim_of (endpoint_env 60000000005) ''x''
          (fst (run_state (acquire_endpoint_lock (endpoint_env 60000000005) ''/e'' ''/s'' ''x'' ''js'' ''h'' 9229)
            (endpoint_world [(''/proc/7'', Dir 0)]))) t))"
proof -
  let ?E = "endpoint_env 60000000005"
  have "\<forall>n. clock ?E n < 5 + secs 7200" by (simp add: secs_def)
  from conjunct1 [OF endpoint_locks_follow_protocol [of ?E 5 _ "''/e''" "''js''" "''h''" 9229 "endpoint_world [(''/proc/7'', Dir 0)]"
      "\<lambda>_ :: nat. Out" 0 "''/s''" "''x''", OF endpoint_env_quiet(1,2) this refl _ _ refl surjective_pairing
      endpoint_demo_record(2) surjective_pairing]]
  show ?thesis using endpoint_demo_held [of 60000000005] by (auto simp: starts_with_def)
qed

text \<open>An endpoint lock is exclusive: in whatever state any number of attachers have brought each other, interleaved and
  failing in any way, a call of \<open>acquire_endpoint_lock\<close> that gets the lock was made while no other attacher was in
  possession, and leaves its caller the only owner, with its nonce in the record.\<close>

theorem endpoint_lock_exclusive:
  assumes "claimant_steps (same_nonce E) path (k, \<lambda>_. Out) (kern w, s)" and "s i = Out"
    and "alone E" and "honest E" and "\<forall>n. clock E n < m + secs 7200"
    and "path = endpoint_lock_path locks lang host port" and "\<not> starts_with lang ''/''"
    and "files (kern w) path = None \<or> (\<exists>j c. endpoint_held E path j c m (kern w))"
    and "run_state (acquire_endpoint_lock E locks root name lang host port) w = (Inr (Held g), w')"
  shows "(\<forall>j. j \<noteq> i \<longrightarrow> s j = Out) \<and>
    (\<exists>t ino c u. c = to_text (codec E) (endpoint_record E (guard_nonce g) name t) \<and>
      claimant_steps (same_nonce E) path (k, \<lambda>_. Out) (kern w', s(i := Owner c)) \<and>
      files (kern w') path = Some (File ino c u))"
proof -
  have "\<not> starts_with lang ''/'' \<and> endpoint_ready E (endpoint_lock_path locks lang host port) w"
    using assms(3-8) by (auto simp: endpoint_ready_def)
  from attaching.exclusive [of E locks lang host port k w s i, OF assms(1) [unfolded assms(6)] assms(2) this assms(9)] show ?thesis
    by (auto simp: endpoint_outcome_def claim_of_def assms(6))
qed

theorem endpoint_lock_exclusive_witness:
  "\<exists>g w' c. run_state (acquire_endpoint_lock (endpoint_env 60000000005) ''/e'' ''/s'' ''x'' ''js'' ''h'' 9229)
      (world_of [(''/e'', Dir 0)]) = (Inr (Held g), w') \<and>
     claimant_steps (same_nonce (endpoint_env 60000000005)) (endpoint_lock_path ''/e'' ''js'' ''h'' 9229)
      (kern (world_of [(''/e'', Dir 0)]), \<lambda>_. Out) (kern w', (\<lambda>_ :: nat. Out)(0 := Owner c))"
proof -
  let ?E = "endpoint_env 60000000005" and ?p = "endpoint_lock_path ''/e'' ''js'' ''h'' 9229" and ?w = "world_of [(''/e'', Dir 0)]"
  have none: "files (kern ?w) ?p = None" by (simp add: endpoint_demo_path)
  have sib: "sibling ?p ''/e'' (endpoint_lock_name ''js'' ''h'' 9229)" by (rule lock_sibling) auto
  have "\<forall>p\<in>set (path_prefixes ''/e''). is_dir (files (kern ?w) p)"
    by (simp add: path_prefixes_def)
  moreover have "files (kern ?w) ''/e'' = Some (Dir 0)" by simp
  moreover have "\<not> is_dir (files (kern ?w) (with_file_name ?p (quarantine_name (process_id ?E) n)))" for n
    unfolding endpoint_demo_quarantine by (simp add: quarantine_name_def)
  ultimately have "lands (kern ?w) (acquire_endpoint_lock ?E ''/e'' ''/s'' ''x'' ''js'' ''h'' 9229)
      (\<lambda>c l. \<exists>g. c = Held g \<and> claimed_by ?E ?p ''x'' g l)"
    using lands_acquire_endpoint [OF endpoint_env_quiet(3) sib refl, of "kern ?w"] none by blast
  from landsD [OF this surjective_pairing] obtain g w'
    where run: "run_state (acquire_endpoint_lock ?E ''/e'' ''/s'' ''x'' ''js'' ''h'' 9229) ?w = (Inr (Held g), w')"
    by (metis surjective_pairing)
  have "\<forall>n. clock ?E n < 5 + secs 7200" by (simp add: secs_def)
  from endpoint_lock_exclusive [where s = "\<lambda>_ :: nat. Out" and i = 0, OF rtranclp.rtrancl_refl _ endpoint_env_quiet(1,2) this refl _ _ run]
    none run show ?thesis by (auto simp: starts_with_def)
qed

text \<open>C19: An endpoint is never lost: with no record of it, or with one whose process is gone after ten seconds or that is
  two hours old, \<open>acquire_endpoint_lock\<close> gets the lock when nobody interferes, and the record is its own.\<close>

theorem endpoint_lock_recovers:
  assumes "quiet E" and "path = endpoint_lock_path locks lang host port"
    and "locks \<noteq> []" and "last locks \<noteq> CHR ''/''" and "CHR ''/'' \<notin> set lang"
    and "\<forall>p\<in>set (path_prefixes locks). is_dir (files (kern w) p)" and "files (kern w) locks = Some (Dir t)"
    and "files (kern w) path = None \<or> (\<exists>i raw m. files (kern w) path = Some (File i raw m) \<and> valid_utf8 raw \<and>
      abandoned E raw m (kern w))"
    and "\<forall>n. \<not> is_dir (files (kern w) (with_file_name path (quarantine_name (process_id E) n)))"
  shows "\<exists>g w'. run_state (acquire_endpoint_lock E locks root name lang host port) w = (Inr (Held g), w') \<and>
    claimed_by E path name g (kern w')"
proof -
  obtain r w' where run: "run_state (acquire_endpoint_lock E locks root name lang host port) w = (r, w')" by fastforce
  have "sibling path locks (endpoint_lock_name lang host port)"
    unfolding assms(2) by (rule lock_sibling [OF assms(3-5)])
  from landsD [OF lands_acquire_endpoint [OF assms(1) this assms(2,6-8)] run] assms(9) run show ?thesis by auto
qed

theorem endpoint_lock_recovers_witness:
  "\<exists>g w'. run_state (acquire_endpoint_lock (endpoint_env 60000000005) ''/e'' ''/s'' ''x'' ''js'' ''h'' 9229) (endpoint_world []) =
     (Inr (Held g), w') \<and>
     claimed_by (endpoint_env 60000000005) (endpoint_lock_path ''/e'' ''js'' ''h'' 9229) ''x'' g (kern w')"
proof (rule endpoint_lock_recovers)
  let ?E = "endpoint_env 60000000005" and ?p = "endpoint_lock_path ''/e'' ''js'' ''h'' 9229"
  show "quiet ?E" by (rule endpoint_env_quiet)
  have "valid_utf8 ''{E}''" by (rule valid_utf8_ascii) (auto simp: code_def)
  moreover have "abandoned ?E ''{E}'' 5 (kern (endpoint_world []))"
    by (simp add: abandoned_def endpoint_demo_record secs_def endpoint_world_def endpoint_demo_path show_nat.simps digit_char_values)
  ultimately show "files (kern (endpoint_world [])) ?p = None \<or> (\<exists>i raw m. files (kern (endpoint_world [])) ?p = Some (File i raw m) \<and>
      valid_utf8 raw \<and> abandoned ?E raw m (kern (endpoint_world [])))"
    by (simp add: endpoint_world_def del: valid_utf8.simps)
  show "\<forall>n. \<not> is_dir (files (kern (endpoint_world [])) (with_file_name ?p (quarantine_name (process_id ?E) n)))"
    unfolding endpoint_demo_quarantine by (simp add: endpoint_world_def endpoint_demo_path quarantine_name_def endpoint_lock_name_def)
qed (auto simp: endpoint_world_def endpoint_demo_path path_prefixes_def)

end
