(* ===== verification/Process.thy ===== *)
theory Process
  imports Polling
begin

text \<open>
  The subprocesses of \<open>src/bridge.rs\<close>: a program run with a time limit, and the ways a process is ended.
  What a program does is the environment's (\<open>runs\<close>, \<open>reaped\<close>); every command is recorded.
\<close>

section \<open>Ending processes\<close>

definition pid_text :: "u32 \<Rightarrow> string" where
  "pid_text pid = show_nat (unat pid)"

text \<open>\<open>Command::output()\<close> has no time limit; its result is dropped.\<close>

definition terminate_child :: "env \<Rightarrow> u32 \<Rightarrow> unit io" where
  "terminate_child E pid = do {
     _ \<leftarrow> run_program E [''kill'', pid_text pid] None;
     State_Monad.return ()
   }"

definition parse_pid :: "string \<Rightarrow> u32 option" where
  "parse_pid s = map_option of_nat (parse_uint (2 ^ 32) (trim s))"

definition child_pids :: "u32 \<Rightarrow> ran \<Rightarrow> u32 list" where
  "child_pids pid r =
     (case r of
        Finished out \<Rightarrow>
          if exit_ok (out_status out)
          then filter (\<lambda>c. c \<noteq> pid) (List.map_filter parse_pid (str_lines (from_utf8_lossy (out_stdout out))))
          else []
      | _ \<Rightarrow> [])"

fun each_io :: "('a \<Rightarrow> unit io) \<Rightarrow> 'a list \<Rightarrow> unit io" where
  "each_io f [] = State_Monad.return ()"
| "each_io f (x # xs) = do { _ \<leftarrow> f x; each_io f xs }"

text \<open>Descendants first; the fuel is the depth of the process tree still allowed.\<close>

fun kill_tree :: "env \<Rightarrow> nat \<Rightarrow> u32 \<Rightarrow> unit io" where
  "kill_tree E 0 pid = State_Monad.return ()"
| "kill_tree E (Suc depth) pid = do {
     r \<leftarrow> run_program E [''pgrep'', ''-P'', pid_text pid] None;
     _ \<leftarrow> each_io (\<lambda>c. kill_tree E depth c) (child_pids pid r);
     _ \<leftarrow> run_program E [''kill'', ''-KILL'', pid_text pid] None;
     State_Monad.return ()
   }"

text \<open>Linux has no process identifier above this one, so no chain of processes is longer.\<close>

definition KILL_DEPTH :: nat where
  "KILL_DEPTH = 4194304"

text \<open>\<open>reap_child\<close>: two seconds of grace, looked at every 10 ms; \<open>wait\<close> on the killed process returns.\<close>

definition REAP_GRACE :: nat where "REAP_GRACE = secs 2"
definition REAP_POLL :: nat where "REAP_POLL = millis 10"

definition REAP_POLLS :: nat where
  "REAP_POLLS = 201"

fun await_exit :: "env \<Rightarrow> nat \<Rightarrow> u32 \<Rightarrow> nat \<Rightarrow> bool io" where
  "await_exit E 0 pid deadline = State_Monad.return False"
| "await_exit E (Suc polls) pid deadline = do {
     s \<leftarrow> try_wait E pid;
     (case s of
        Inr (Some _) \<Rightarrow> State_Monad.return True
      | Inr None \<Rightarrow> do {
          t \<leftarrow> now E;
          if deadline \<le> t then State_Monad.return False
          else do { _ \<leftarrow> sleep E; await_exit E polls pid deadline }
        }
      | Inl _ \<Rightarrow> State_Monad.return False)
   }"

definition reap_child :: "env \<Rightarrow> u32 option \<Rightarrow> unit io" where
  "reap_child E child =
     (case child of
        None \<Rightarrow> State_Monad.return ()
      | Some c \<Rightarrow> do {
          _ \<leftarrow> terminate_child E c;
          t \<leftarrow> now E;
          gone \<leftarrow> await_exit E REAP_POLLS c (t + REAP_GRACE);
          if gone then State_Monad.return ()
          else do { _ \<leftarrow> kill_tree E KILL_DEPTH c; sleep E }
        })"

section \<open>Running with a time limit\<close>

definition run_with_timeout :: "env \<Rightarrow> string \<Rightarrow> string list \<Rightarrow> nat \<Rightarrow> (run_output result) io" where
  "run_with_timeout E program args timeout = do {
     r \<leftarrow> run_program E (program # args) (Some timeout);
     (case r of
        NotStarted e \<Rightarrow> err (Msg (program @ '' failed to start: '' @ io_text e))
      | Finished out \<Rightarrow> ok out
      | NotWaited e \<Rightarrow> err (Msg (program @ '' failed: '' @ io_text e))
      | Overran pid \<Rightarrow> do {
          _ \<leftarrow> kill_tree E KILL_DEPTH pid;
          err (Msg (program @ '' timed out after '' @ show_nat (timeout div secs 1) @ ''s''))
        })
   }"

definition succeeded :: "run_output result \<Rightarrow> bool" where
  "succeeded r = (case r of Inl _ \<Rightarrow> False | Inr out \<Rightarrow> exit_ok (out_status out))"

text \<open>What a program printed, its first line trimmed.\<close>

definition first_line :: "run_output \<Rightarrow> string" where
  "first_line out =
     (case str_lines (from_utf8_lossy (out_stdout out) @ from_utf8_lossy (out_stderr out)) of
        [] \<Rightarrow> trim [] | l # _ \<Rightarrow> trim l)"

section \<open>The grace\<close>

definition exit_pass :: "env \<Rightarrow> u32 \<Rightarrow> nat \<Rightarrow> bool option io" where
  "exit_pass E pid deadline = do {
     s \<leftarrow> try_wait E pid;
     (case s of
        Inr (Some _) \<Rightarrow> State_Monad.return (Some True)
      | Inr None \<Rightarrow> do {
          t \<leftarrow> now E;
          if deadline \<le> t then State_Monad.return (Some False)
          else do { _ \<leftarrow> sleep E; State_Monad.return None }
        }
      | Inl _ \<Rightarrow> State_Monad.return (Some False))
   }"

interpretation exit_poll: polling E deadline 1 3 "\<lambda>n. await_exit E n pid deadline" "exit_pass E pid deadline"
  for E pid deadline
  by unfold_locales
    (auto simp: exit_pass_def State_Monad.bind_def split: option.splits sum.splits prod.splits if_splits)

section \<open>What is killed\<close>

text \<open>A process tree as \<open>pgrep -P\<close> reports it, and its processes, descendants first.\<close>

datatype proc_tree = Proc u32 "proc_tree list"

fun proc_pid :: "proc_tree \<Rightarrow> u32" where
  "proc_pid (Proc p ts) = p"

fun postorder :: "proc_tree \<Rightarrow> u32 list" where
  "postorder (Proc p ts) = concat (map postorder ts) @ [p]"

fun tree_depth :: "proc_tree \<Rightarrow> nat" where
  "tree_depth (Proc p ts) = Suc (foldr max (map tree_depth ts) 0)"

fun reported :: "env \<Rightarrow> proc_tree \<Rightarrow> bool" where
  "reported E (Proc p ts) =
     ((\<forall>n k. child_pids p (fst (runs E n [''pgrep'', ''-P'', pid_text p] None k)) = map proc_pid ts) \<and>
      (\<forall>t\<in>set ts. reported E t))"

definition kill_command :: "u32 \<Rightarrow> string list" where
  "kill_command p = [''kill'', ''-KILL'', pid_text p]"

definition kills :: "string list list \<Rightarrow> string list list" where
  "kills log = filter (\<lambda>c. take 1 c = [''kill'']) log"

lemma kills_append [simp]: "kills (a @ b) = kills a @ kills b"
  by (simp add: kills_def)

lemma kills_commands [simp]:
  "kills [[''pgrep'', ''-P'', t]] = []" "kills [[''kill'', ''-KILL'', t]] = [[''kill'', ''-KILL'', t]]"
  by (simp_all add: kills_def)

lemma depth_child: "t \<in> set ts \<Longrightarrow> foldr max (map tree_depth ts) 0 \<le> d \<Longrightarrow> tree_depth t \<le> d"
  by (induction ts) auto

lemma each_io_kills:
  assumes "\<And>t w. t \<in> set ts \<Longrightarrow> kills (commands (snd (run_state (f (proc_pid t)) w))) =
    kills (commands w) @ map kill_command (postorder t)"
  shows "kills (commands (snd (run_state (each_io f (map proc_pid ts)) w))) =
    kills (commands w) @ map kill_command (concat (map postorder ts))"
  using assms
proof (induction ts arbitrary: w)
  case (Cons t ts)
  obtain w1 where 1: "run_state (f (proc_pid t)) w = ((), w1)" by (cases "run_state (f (proc_pid t)) w") auto
  then have "kills (commands w1) = kills (commands w) @ map kill_command (postorder t)"
    using Cons.prems [of t w] by simp
  moreover have "kills (commands (snd (run_state (each_io f (map proc_pid ts)) w1))) =
      kills (commands w1) @ map kill_command (concat (map postorder ts))"
    using Cons by simp
  ultimately show ?case by (simp add: State_Monad.bind_def 1)
qed simp

text \<open>C34: Killing a process tree kills all of it, descendants first: with a tree as \<open>pgrep\<close> reports it and
  no deeper than the bound, exactly its processes are killed, each after everything below it.\<close>

theorem kill_tree_postorder:
  assumes "reported E t" and "tree_depth t \<le> depth"
  shows "kills (commands (snd (run_state (kill_tree E depth (proc_pid t)) w))) =
    kills (commands w) @ map kill_command (postorder t)"
  using assms
proof (induction t arbitrary: depth w)
  case (Proc p ts)
  from Proc.prems(2) obtain d where d: "depth = Suc d" "foldr max (map tree_depth ts) 0 \<le> d"
    by (cases depth) auto
  let ?w = "snd (run_state (run_program E [''pgrep'', ''-P'', pid_text p] None) w)"
  have children: "child_pids p (fst (runs E n [''pgrep'', ''-P'', pid_text p] None k)) = map proc_pid ts" for n k
    using Proc.prems(1) by simp
  have each: "kills (commands (snd (run_state (each_io (\<lambda>c. kill_tree E d c) (map proc_pid ts)) v))) =
      kills (commands v) @ map kill_command (concat (map postorder ts))" for v
  proof (rule each_io_kills)
    fix t v assume t: "t \<in> set ts"
    with Proc.prems(1) d(2) show "kills (commands (snd (run_state (kill_tree E d (proc_pid t)) v))) =
        kills (commands v) @ map kill_command (postorder t)"
      by (intro Proc.IH) (auto intro: depth_child)
  qed
  obtain w1 where w1: "run_state (each_io (\<lambda>c. kill_tree E d c) (map proc_pid ts)) ?w = ((), w1)"
    by (cases "run_state (each_io (\<lambda>c. kill_tree E d c) (map proc_pid ts)) ?w") auto
  with each [of ?w] have "kills (commands w1) = kills (commands w) @ map kill_command (concat (map postorder ts))"
    by simp
  with w1 show ?case by (simp add: d(1) State_Monad.bind_def children kill_command_def)
qed

definition two_processes :: env where
  "two_processes = (still_env brace_serde)\<lparr>runs := \<lambda>n argv limit k.
     (Finished \<lparr>out_status = ExitStatus True ''exit status: 0'',
        out_stdout = (if argv = [''pgrep'', ''-P'', ''7''] then ''8'' else []), out_stderr = []\<rparr>, k)\<rparr>"

theorem kill_tree_postorder_witness:
  "kills (commands (snd (run_state (kill_tree two_processes KILL_DEPTH 7) (world_of [])))) =
     [[''kill'', ''-KILL'', ''8''], [''kill'', ''-KILL'', ''7'']]"
proof -
  have pids: "pid_text 7 = ''7''" "pid_text 8 = ''8''"
    by (simp_all add: pid_text_def show_nat.simps digit_char_values)
  have "reported two_processes (Proc 7 [Proc 8 []])"
    by (simp add: two_processes_def child_pids_def pids map_filter_def parse_pid_def trim_def is_whitespace_single
        is_cont_def code_def utf8_step_def parse_uint_def strip_plus_def radix_value_def digit_value_def is_ascii_digit_def)
  from kill_tree_postorder [OF this, of KILL_DEPTH "world_of []"]
  show ?thesis by (simp add: KILL_DEPTH_def kill_command_def pids kills_def)
qed

section \<open>Reaping\<close>

text \<open>Programs only add to the log of commands.\<close>

named_theorems logs_rules "programs that only add commands"

definition logs :: "'a io \<Rightarrow> bool" where
  "logs m = (\<forall>w. \<exists>new. commands (snd (run_state m w)) = commands w @ new)"

lemma logsD: "logs m \<Longrightarrow> run_state m w = (r, w') \<Longrightarrow> \<exists>new. commands w' = commands w @ new"
  by (metis logs_def snd_conv)

interpretation logged: keeping "\<lambda>w w'. \<exists>new. commands w' = commands w @ new"
  by unfold_locales auto

lemma logs_within_iff: "logs m = within (\<lambda>w w'. \<exists>new. commands w' = commands w @ new) m"
  by (simp add: logs_def within_def)

lemma logs_return [logs_rules]: "logs (State_Monad.return a)"
  unfolding logs_within_iff by (rule logged.pure)

lemma logs_bind [logs_rules]: "logs m \<Longrightarrow> (\<And>a. logs (f a)) \<Longrightarrow> logs (State_Monad.bind m f)"
  unfolding logs_within_iff by (rule logged.bind)

lemma logs_calls [logs_rules]:
  "logs (run_program E argv limit)" "logs (launch E argv)" "logs (try_wait E pid)" "logs (now E)" "logs (sleep E)"
  "logs (look E g)" "logs (ask_bridge E port b t)" "logs (connect_port E port)"
  by (simp_all add: logs_def)

lemma logs_each [logs_rules]: "(\<And>x. logs (f x)) \<Longrightarrow> logs (each_io f xs)"
  by (induction xs) (auto intro: logs_rules)

lemma logs_kill_tree [logs_rules]: "logs (kill_tree E d pid)"
  by (induction d arbitrary: pid) (auto intro!: logs_rules)

lemma kill_tree_last:
  "\<exists>new. commands (snd (run_state (kill_tree E (Suc d) pid) w)) = commands w @ new @ [kill_command pid]"
proof -
  let ?m = "do { r \<leftarrow> run_program E [''pgrep'', ''-P'', pid_text pid] None;
     each_io (\<lambda>c. kill_tree E d c) (child_pids pid r) }"
  obtain w1 where m: "run_state ?m w = ((), w1)" by (cases "run_state ?m w") auto
  have "logs ?m" by (intro logs_rules)
  from logsD [OF this m] obtain new where "commands w1 = commands w @ new" by blast
  with m show ?thesis by (auto simp: State_Monad.bind_def kill_command_def split: prod.splits)
qed

lemma await_exit_log:
  assumes "run_state (await_exit E n pid deadline) w = (b, w')"
  shows "commands w' = commands w \<and> (b \<longrightarrow> (\<exists>m s. reaped E m pid = Inr (Some s)))"
  using assms
proof (induction n arbitrary: w)
  case (Suc n)
  from Suc.prems Suc.IH [of "moved E (moved E (moved E w))"] show ?case
    by (auto simp: State_Monad.bind_def split: sum.splits option.splits if_splits)
qed simp

text \<open>No bridge survives a reap: the process gets SIGTERM first; either it is seen to have exited
  within the grace and nothing more is sent, or its whole tree is killed and SIGKILL goes to it last.\<close>

theorem reap_terminates:
  "\<exists>new. commands (snd (run_state (reap_child E (Some pid)) w)) = commands w @ [''kill'', pid_text pid] # new \<and>
     (new = [] \<and> (\<exists>n s. reaped E n pid = Inr (Some s)) \<or> (\<exists>log. new = log @ [kill_command pid]))"
proof -
  obtain w1 where w1: "run_state (terminate_child E pid) w = ((), w1)" "commands w1 = commands w @ [[''kill'', pid_text pid]]"
    by (simp add: terminate_child_def State_Monad.bind_def)
  obtain b w2 where w2: "run_state (await_exit E REAP_POLLS pid (clock E (calls w1) + REAP_GRACE)) (moved E w1) = (b, w2)"
    by fastforce
  from await_exit_log [OF w2] have log: "commands w2 = commands w1"
    and seen: "b \<Longrightarrow> \<exists>m s. reaped E m pid = Inr (Some s)" by auto
  show ?thesis
  proof (cases b)
    case True
    with w1 w2 log seen show ?thesis by (simp add: reap_child_def State_Monad.bind_def)
  next
    case False
    obtain w3 where w3: "run_state (kill_tree E KILL_DEPTH pid) w2 = ((), w3)"
      by (cases "run_state (kill_tree E KILL_DEPTH pid) w2") auto
    have "KILL_DEPTH = Suc 4194303" by (simp add: KILL_DEPTH_def)
    then obtain new where "commands w3 = commands w2 @ new @ [kill_command pid]"
      using kill_tree_last [of E 4194303 pid w2] w3 by auto
    with False w1 w2 w3 log show ?thesis by (simp add: reap_child_def State_Monad.bind_def)
  qed
qed

end
