(* ===== verification/Bridge.thy ===== *)
theory Bridge
  imports Process Quiet
begin

text \<open>
  \<open>src/bridge.rs\<close>: first-use provisioning of the adapters. The embedded bridge sources, the tools that
  are run (\<open>javac\<close>, \<open>python\<close>, \<open>npm\<close>, ...) and what they do are the environment's.
\<close>

section \<open>Paths\<close>

definition JAVA_SOURCES :: "string list" where
  "JAVA_SOURCES = [''JdiBridge.java'', ''BridgeModel.java'', ''BridgeCli.java'', ''BridgeConn.java'',
     ''BridgeSnapshot.java'', ''BridgeSession.java'', ''BridgeProto.java'', ''BridgeEval.java'']"

definition BRIDGE_MAIN_CLASS :: string where
  "BRIDGE_MAIN_CLASS = ''JdiBridge''"

definition JAVA_CLASSES :: "string list" where
  "JAVA_CLASSES = [''JdiBridge'', ''Config'', ''BridgeCli'', ''BridgeConn'', ''BridgeSnapshot'',
     ''BridgeSession'', ''BridgeProto'', ''BridgeEval'', ''StreamGobbler'']"

definition JS_SHARED :: "string list" where
  "JS_SHARED = [''cdp_conn.js'', ''framing.js'']"

definition adapters_dir :: "env \<Rightarrow> string result" where
  "adapters_dir E =
     and_then (agent_home E) (\<lambda>h. Inr (path_join (path_join h ''.agent-debugger'') ''adapters''))"

definition adapter_path :: "env \<Rightarrow> string \<Rightarrow> string result" where
  "adapter_path E adapter = and_then (adapters_dir E) (\<lambda>d. Inr (path_join d adapter))"

definition adapter_dir :: "env \<Rightarrow> string result" where "adapter_dir E = adapter_path E ''java''"
definition python_dir :: "env \<Rightarrow> string result" where "python_dir E = adapter_path E ''python''"
definition node_dir :: "env \<Rightarrow> string result" where "node_dir E = adapter_path E ''node''"
definition browser_dir :: "env \<Rightarrow> string result" where "browser_dir E = adapter_path E ''browser''"

definition venv_python :: "env \<Rightarrow> string result" where
  "venv_python E =
     and_then (python_dir E) (\<lambda>d. Inr (path_join (path_join (path_join d ''venv'') ''bin'') ''python''))"

definition node_modules_dir :: "env \<Rightarrow> string result" where
  "node_modules_dir E = and_then (node_dir E) (\<lambda>d. Inr (path_join d ''node_modules''))"

definition provision_lock_path :: "string \<Rightarrow> string \<Rightarrow> string" where
  "provision_lock_path adapters adapter = path_join adapters (adapter @ ''.lock'')"

section \<open>Guards\<close>

definition file_matches :: "env \<Rightarrow> string \<Rightarrow> string \<Rightarrow> bool io" where
  "file_matches E path source = do {
     r \<leftarrow> read_to_string E path;
     State_Monad.return (r = Inr source)
   }"

text \<open>The body is that of \<open>paths.rs\<close>'s \<open>refuse_symlink\<close>.\<close>

definition refuse_provision_link :: "env \<Rightarrow> string \<Rightarrow> string \<Rightarrow> (unit result) io" where
  "refuse_provision_link E path what = refuse_symlink E path what"

definition check_provision_path :: "env \<Rightarrow> string \<Rightarrow> bool \<Rightarrow> string \<Rightarrow> (unit result) io" where
  "check_provision_path E path want_dir what =
     try_io (refuse_provision_link E path what) (\<lambda>_. do {
       m \<leftarrow> symlink_metadata E path;
       State_Monad.return (case m of
           Inl _ \<Rightarrow> Inr ()
         | Inr t \<Rightarrow>
             if want_dir \<and> t \<noteq> TDir then bail (what @ '' must be a real directory: '' @ path)
             else if \<not> want_dir \<and> t \<noteq> TFile then bail (what @ '' must be a regular file: '' @ path)
             else Inr ())
     })"

text \<open>\<open>Path::parent\<close>, for a path that does not end in a separator.\<close>

definition path_parent :: "string \<Rightarrow> string option" where
  "path_parent p =
     (case rev (components p) of
        [] \<Rightarrow> None
      | RootDir # _ \<Rightarrow> None
      | _ \<Rightarrow> Some (case parent_of p of None \<Rightarrow> [] | Some d \<Rightarrow> if d = [] then ''/'' else d))"

lemma components_Nil [simp]: "components [] = []"
  by (simp add: components_def starts_with_def)

lemma components_slash [simp]: "components ''/'' = [RootDir]"
  by (simp add: components_def starts_with_def is_slash_def)

lemma parent_of_shorter: "parent_of p = Some d \<Longrightarrow> length d < length p"
proof -
  assume "parent_of p = Some d"
  then have slash: "CHR ''/'' \<in> set p" and d: "d = rev (drop 1 (dropWhile (\<lambda>c. c \<noteq> CHR ''/'') (rev p)))"
    by (auto simp: parent_of_def split: if_splits)
  then have "dropWhile (\<lambda>c. c \<noteq> CHR ''/'') (rev p) \<noteq> []" by (auto simp: dropWhile_eq_Nil_conv)
  moreover have "length (dropWhile (\<lambda>c. c \<noteq> CHR ''/'') (rev p)) \<le> length p"
    using length_dropWhile_le [of _ "rev p"] by simp
  ultimately show ?thesis by (cases "dropWhile (\<lambda>c. c \<noteq> CHR ''/'') (rev p)") (auto simp: d)
qed

lemma path_parent_shorter:
  assumes "path_parent p = Some q"
  shows "length q < length p"
proof -
  have "p \<noteq> []" and root: "p \<noteq> ''/''" using assms by (auto simp: path_parent_def)
  from assms have q: "q = (case parent_of p of None \<Rightarrow> [] | Some d \<Rightarrow> if d = [] then ''/'' else d)"
    by (auto simp: path_parent_def split: list.splits component.splits)
  show ?thesis
  proof (cases "parent_of p")
    case None
    with q \<open>p \<noteq> []\<close> show ?thesis by simp
  next
    case (Some d)
    from parent_of_shorter [OF this] have shorter: "length d < length p" .
    show ?thesis
    proof (cases "d = []")
      case True
      have "length p \<noteq> 1"
      proof
        assume "length p = 1"
        then obtain c where "p = [c]" by (cases p) auto
        with Some root show False by (auto simp: parent_of_def split: if_splits)
      qed
      with \<open>p \<noteq> []\<close> have "1 < length p" by (cases p) auto
      with Some True q show ?thesis by simp
    next
      case False
      with Some q shorter show ?thesis by simp
    qed
  qed
qed

text \<open>From \<open>dir\<close> upwards until the anchor (compared as paths are, by components) or the root.\<close>

function dir_chain :: "string \<Rightarrow> string \<Rightarrow> string list" where
  "dir_chain anchor cur =
     cur # (if components cur = components anchor then []
            else (case path_parent cur of
                None \<Rightarrow> []
              | Some p \<Rightarrow> if components p = components cur then [] else dir_chain anchor p))"
  by pat_completeness auto
termination
  by (relation "measure (\<lambda>(_, cur). length cur)") (auto dest: path_parent_shorter)

declare dir_chain.simps [simp del]

fun refuse_links :: "env \<Rightarrow> string list \<Rightarrow> (unit result) io" where
  "refuse_links E [] = ok ()"
| "refuse_links E (p # ps) =
     try_io (refuse_provision_link E p ''provisioning dir'') (\<lambda>_. do {
       m \<leftarrow> symlink_metadata E p;
       (case m of Inl _ \<Rightarrow> ok () | Inr _ \<Rightarrow> refuse_links E ps)
     })"

definition ensure_real_dir_all :: "env \<Rightarrow> string \<Rightarrow> string \<Rightarrow> (unit result) io" where
  "ensure_real_dir_all E anchor dir =
     (let chain = dir_chain anchor dir in
      try_io (if components (last chain) = components anchor then refuse_links E (rev (butlast chain))
              else refuse_provision_link E dir ''provisioning dir'') (\<lambda>_.
      map_err (\<lambda>e. Msg (''cannot create '' @ dir @ '': '' @ io_text e)) (create_dir_all E dir)))"

definition ensure_provision_dir :: "env \<Rightarrow> string \<Rightarrow> (unit result) io" where
  "ensure_provision_dir E dir =
     ensure_real_dir_all E (case agent_home E of Inr h \<Rightarrow> h | Inl _ \<Rightarrow> ''/nonexistent-agent-home'') dir"

section \<open>The provisioning lock\<close>

definition PROVISION_LOCK_WAIT :: nat where "PROVISION_LOCK_WAIT = secs 200"
definition PROVISION_LOCK_POLL :: nat where "PROVISION_LOCK_POLL = millis 20"

definition provision_lock_regular :: "string \<Rightarrow> string" where
  "provision_lock_regular path = ''provisioning lock must be a regular file: '' @ path"

definition open_provision_lock :: "env \<Rightarrow> string \<Rightarrow> (handle result) io" where
  "open_provision_lock E path =
     try_io (refuse_provision_link E path ''provisioning lock'') (\<lambda>_. do {
       m \<leftarrow> symlink_metadata E path;
       if (case m of Inl _ \<Rightarrow> False | Inr t \<Rightarrow> t \<noteq> TFile) then err (Msg (provision_lock_regular path))
       else try_io (map_err (\<lambda>e. Msg (''cannot open provisioning lock '' @ path @ '': '' @ io_text e))
           (open_handle E path)) (\<lambda>h. do {
         regular \<leftarrow> handle_is_file E h;
         if \<not> regular then do { _ \<leftarrow> close_handle E h; err (Msg (provision_lock_regular path)) }
         else ok h
       })
     })"

definition acquire_provision_lock_polls :: "nat \<Rightarrow> env \<Rightarrow> string \<Rightarrow> nat \<Rightarrow> (handle result) io" where
  "acquire_provision_lock_polls polls E path wait =
     try_io (open_provision_lock E path) (\<lambda>h. do {
       t \<leftarrow> now E;
       poll_lock E polls h (t + wait) ''adapter provisioning in progress; retry shortly''
         (\<lambda>e. ''cannot lock '' @ path @ '': '' @ io_text e)
     })"

text \<open>As many polls as fit in the wait, and two.\<close>

definition acquire_provision_lock :: "env \<Rightarrow> string \<Rightarrow> nat \<Rightarrow> nat \<Rightarrow> (handle result) io" where
  "acquire_provision_lock E path wait poll =
     acquire_provision_lock_polls (Suc (Suc (wait div poll))) E path wait"

text \<open>A body that runs under the lock of one adapter.\<close>

definition locked :: "env \<Rightarrow> string \<Rightarrow> string \<Rightarrow> ('a result) io \<Rightarrow> ('a result) io" where
  "locked E adapters adapter body =
     try_io (acquire_provision_lock E (provision_lock_path adapters adapter) PROVISION_LOCK_WAIT PROVISION_LOCK_POLL)
       (\<lambda>h. guarded E h body)"

definition under_lock :: "env \<Rightarrow> string \<Rightarrow> ('a result) io \<Rightarrow> ('a result) io" where
  "under_lock E adapter body =
     try_io (lift_result (adapters_dir E)) (\<lambda>adapters.
     try_io (ensure_provision_dir E adapters) (\<lambda>_.
     locked E adapters adapter body))"

section \<open>Writing a bridge file\<close>

definition with_extension :: "string \<Rightarrow> string \<Rightarrow> string" where
  "with_extension path ext =
     (case file_stem path of None \<Rightarrow> path | Some stem \<Rightarrow> with_file_name path (stem @ ''.'' @ ext))"

definition provision_tmp_path :: "string \<Rightarrow> nat \<Rightarrow> u64 \<Rightarrow> string" where
  "provision_tmp_path dest pid n = with_extension dest (''tmp.'' @ show_nat pid @ ''.'' @ show_nat (unat n))"

definition provision_tmp_name :: "env \<Rightarrow> string \<Rightarrow> string io" where
  "provision_tmp_name E dest = do {
     n \<leftarrow> next_provision;
     State_Monad.return (provision_tmp_path dest (process_id E) n)
   }"

definition cannot_write :: "string \<Rightarrow> io_error \<Rightarrow> anyhow" where
  "cannot_write path e = Msg (''cannot write '' @ path @ '': '' @ io_text e)"

definition write_via :: "env \<Rightarrow> string \<Rightarrow> string \<Rightarrow> string \<Rightarrow> (unit result) io" where
  "write_via E tmp dest source = do {
     written \<leftarrow>
       try_io (map_err (cannot_write tmp) (create_new E tmp)) (\<lambda>f.
       try_io (map_err (cannot_write tmp) (write_all E f source)) (\<lambda>_.
       try_io (map_err (cannot_write tmp) (sync_all E f)) (\<lambda>_.
       map_err (cannot_write dest) (rename E tmp dest))));
     (case written of
        Inl e \<Rightarrow> do { _ \<leftarrow> remove_file E tmp; err e }
      | Inr _ \<Rightarrow> ok ())
   }"

definition atomic_write_provisioned :: "env \<Rightarrow> string \<Rightarrow> string \<Rightarrow> (unit result) io" where
  "atomic_write_provisioned E dest source = do {
     tmp \<leftarrow> provision_tmp_name E dest;
     write_via E tmp dest source
   }"

text \<open>\<open>ensure_js_shared\<close>, with the loop over the shared files.\<close>

fun converge_shared :: "env \<Rightarrow> string \<Rightarrow> string list \<Rightarrow> bool \<Rightarrow> (bool result) io" where
  "converge_shared E dir [] acc = ok acc"
| "converge_shared E dir (name # names) acc =
     (let dest = path_join dir name in
      try_io (check_provision_path E dest False ''bridge file'') (\<lambda>_. do {
        same \<leftarrow> file_matches E dest (embedded E name);
        if same then converge_shared E dir names acc
        else try_io (ensure_provision_dir E dir) (\<lambda>_.
             try_io (atomic_write_provisioned E dest (embedded E name)) (\<lambda>_.
             converge_shared E dir names True))
      }))"

definition ensure_js_shared :: "env \<Rightarrow> string \<Rightarrow> (bool result) io" where
  "ensure_js_shared E dir =
     try_io (check_provision_path E dir True ''bridge dir'') (\<lambda>_. converge_shared E dir JS_SHARED False)"

definition ensure_pybridge_in :: "env \<Rightarrow> string \<Rightarrow> (string result) io" where
  "ensure_pybridge_in E dir =
     try_io (check_provision_path E dir True ''adapter dir'') (\<lambda>_.
     let dest = path_join dir ''pybridge.py'' in
     try_io (check_provision_path E dest False ''bridge file'') (\<lambda>_. do {
       same \<leftarrow> file_matches E dest (embedded E ''pybridge.py'');
       if same then ok dest
       else try_io (ensure_provision_dir E dir) (\<lambda>_.
            try_io (atomic_write_provisioned E dest (embedded E ''pybridge.py'')) (\<lambda>_. ok dest))
     }))"

text \<open>The two bridges on Node: both checks are made before either decides.\<close>

definition ensure_cdp_bridge_in :: "env \<Rightarrow> string \<Rightarrow> string \<Rightarrow> (string result) io" where
  "ensure_cdp_bridge_in E script dir =
     try_io (check_provision_path E dir True ''adapter dir'') (\<lambda>_.
     let dest = path_join dir script in
     try_io (check_provision_path E dest False ''bridge file'') (\<lambda>_. do {
       same \<leftarrow> file_matches E dest (embedded E script);
       try_io (ensure_js_shared E dir) (\<lambda>shared_stale.
       if \<not> same \<or> shared_stale then
         try_io (ensure_provision_dir E dir) (\<lambda>_.
         try_io (atomic_write_provisioned E dest (embedded E script)) (\<lambda>_. ok dest))
       else ok dest)
     }))"

definition ensure_nodebridge_in :: "env \<Rightarrow> string \<Rightarrow> (string result) io" where
  "ensure_nodebridge_in E dir = ensure_cdp_bridge_in E ''nodebridge.js'' dir"

definition ensure_browserbridge_in :: "env \<Rightarrow> string \<Rightarrow> (string result) io" where
  "ensure_browserbridge_in E dir = ensure_cdp_bridge_in E ''browserbridge.js'' dir"

definition ensure_pybridge :: "env \<Rightarrow> (string result) io" where
  "ensure_pybridge E =
     under_lock E ''python'' (try_io (lift_result (python_dir E)) (ensure_pybridge_in E))"

definition ensure_nodebridge :: "env \<Rightarrow> (string result) io" where
  "ensure_nodebridge E =
     under_lock E ''node'' (try_io (lift_result (node_dir E)) (ensure_nodebridge_in E))"

section \<open>Java\<close>

fun any_missing :: "env \<Rightarrow> string \<Rightarrow> string list \<Rightarrow> bool io" where
  "any_missing E classes [] = State_Monad.return False"
| "any_missing E classes (c # cs) = do {
     there \<leftarrow> exists E (path_join classes (c @ ''.class''));
     if there then any_missing E classes cs else State_Monad.return True
   }"

fun stale_sources :: "env \<Rightarrow> string \<Rightarrow> string list \<Rightarrow> bool \<Rightarrow> (bool result) io" where
  "stale_sources E dir [] stale = ok stale"
| "stale_sources E dir (name # names) stale =
     (let dest = path_join dir name in
      try_io (check_provision_path E dest False ''bridge file'') (\<lambda>_. do {
        same \<leftarrow> file_matches E dest (embedded E name);
        stale_sources E dir names (stale \<or> \<not> same)
      }))"

fun write_sources :: "env \<Rightarrow> string \<Rightarrow> string list \<Rightarrow> (unit result) io" where
  "write_sources E dir [] = ok ()"
| "write_sources E dir (name # names) =
     try_io (atomic_write_provisioned E (path_join dir name) (embedded E name)) (\<lambda>_.
     write_sources E dir names)"

definition compile_java :: "env \<Rightarrow> string \<Rightarrow> string \<Rightarrow> (unit result) io" where
  "compile_java E dir classes =
     try_io (map_err (\<lambda>e. Msg (''javac not found or failed to start: '' @ display e @
          '' (JDK required for the Java adapter)''))
       (run_with_timeout E ''javac'' (''-d'' # classes # map (path_join dir) JAVA_SOURCES) (secs 300))) (\<lambda>out.
     if exit_ok (out_status out) then ok ()
     else err (Msg (''javac failed:'' @ [CHR 0x0A] @ from_utf8_lossy (out_stderr out))))"

definition ensure_compiled_locked :: "env \<Rightarrow> (string result) io" where
  "ensure_compiled_locked E =
     try_io (lift_result (adapter_dir E)) (\<lambda>dir.
     try_io (check_provision_path E dir True ''adapter dir'') (\<lambda>_.
     let classes = path_join dir ''classes'' in do {
       marker \<leftarrow> exists E (path_join classes ''JdiBridge.class'');
       missing \<leftarrow> (if \<not> marker then State_Monad.return True else any_missing E classes JAVA_CLASSES);
       try_io (stale_sources E dir JAVA_SOURCES missing) (\<lambda>stale.
       if \<not> stale then ok classes
       else try_io (ensure_provision_dir E classes) (\<lambda>_.
            try_io (write_sources E dir JAVA_SOURCES) (\<lambda>_.
            try_io (compile_java E dir classes) (\<lambda>_. ok classes))))
     }))"

definition ensure_compiled :: "env \<Rightarrow> (string result) io" where
  "ensure_compiled E = under_lock E ''java'' (ensure_compiled_locked E)"

section \<open>Python\<close>

definition python_launchers :: "string list" where
  "python_launchers = [''python3'', ''python'']"

definition path_is_file :: "env \<Rightarrow> string \<Rightarrow> bool io" where
  "path_is_file E p = do {
     r \<leftarrow> look E (k_stat p);
     State_Monad.return (case r of Inr n \<Rightarrow> node_type n = TFile | Inl _ \<Rightarrow> False)
   }"

definition is_colon :: "char \<Rightarrow> bool" where
  "is_colon c = (c = CHR '':'')"

definition split_paths :: "string \<Rightarrow> string list" where
  "split_paths v = split_by is_colon v"

fun launcher_on :: "env \<Rightarrow> (string \<times> string) list \<Rightarrow> (string option) io" where
  "launcher_on E [] = State_Monad.return None"
| "launcher_on E ((prog, dir) # rest) = do {
     there \<leftarrow> path_is_file E (path_join dir prog);
     if there then State_Monad.return (Some prog) else launcher_on E rest
   }"

definition find_python_launcher_in :: "env \<Rightarrow> string option \<Rightarrow> (string option) io" where
  "find_python_launcher_in E path =
     (case path of
        None \<Rightarrow> State_Monad.return None
      | Some v \<Rightarrow> launcher_on E (concat (map (\<lambda>prog. map (Pair prog) (split_paths v)) python_launchers)))"

definition find_python_launcher :: "env \<Rightarrow> (string option) io" where
  "find_python_launcher E = find_python_launcher_in E (path_var E)"

definition debugpy_install_command :: "env \<Rightarrow> (string \<times> string list) result" where
  "debugpy_install_command E =
     and_then (venv_python E) (\<lambda>venv. Inr (venv, [''-m'', ''pip'', ''install'', ''debugpy==1.8.21'']))"

definition has_debugpy_timeout :: "env \<Rightarrow> string \<Rightarrow> nat \<Rightarrow> bool io" where
  "has_debugpy_timeout E interp timeout = do {
     r \<leftarrow> run_with_timeout E interp [''-c'', ''import debugpy''] timeout;
     State_Monad.return (succeeded r)
   }"

definition has_debugpy :: "env \<Rightarrow> string \<Rightarrow> bool io" where
  "has_debugpy E interp = has_debugpy_timeout E interp (secs 15)"

fun first_with_debugpy :: "env \<Rightarrow> string list \<Rightarrow> (string option) io" where
  "first_with_debugpy E [] = State_Monad.return None"
| "first_with_debugpy E (p # ps) = do {
     found \<leftarrow> has_debugpy E p;
     if found then State_Monad.return (Some p) else first_with_debugpy E ps
   }"

definition ensure_py_fast :: "env \<Rightarrow> (string option result) io" where
  "ensure_py_fast E =
     try_io (lift_result (venv_python E)) (\<lambda>venv. do {
       hit \<leftarrow> first_with_debugpy E (venv # python_launchers);
       ok hit
     })"

definition no_launcher :: string where
  "no_launcher = ''no Python launcher found on PATH (tried python3, python); '' @
     ''install Python 3.8+ for the Python adapter''"

definition create_venv :: "env \<Rightarrow> string \<Rightarrow> string \<Rightarrow> (unit result) io" where
  "create_venv E launcher venv_dir =
     try_io (map_err (\<lambda>e. Msg (launcher @ '' -m venv failed to start ('' @ display e @
          ''); install Python 3.8+ for the Python adapter''))
       (run_with_timeout E launcher [''-m'', ''venv'', venv_dir] (secs 180))) (\<lambda>out.
     if exit_ok (out_status out) then ok ()
     else err (Msg (''could not create isolated Python env: '' @ trim (from_utf8_lossy (out_stderr out)))))"

definition install_debugpy :: "env \<Rightarrow> string \<Rightarrow> (unit result) io" where
  "install_debugpy E venv =
     try_io (lift_result (debugpy_install_command E)) (\<lambda>(program, args).
     try_io (map_err (\<lambda>e. Msg (''pip failed to start: '' @ display e))
       (run_with_timeout E program args (secs 180))) (\<lambda>pip. do {
       found \<leftarrow> (if exit_ok (out_status pip) then has_debugpy E venv else State_Monad.return False);
       if found then ok ()
       else err (Msg (''could not install debugpy (network needed once). Try manually:'' @ [CHR 0x0A] @
         ''  '' @ venv @ '' -m pip install debugpy''))
     }))"

definition ensure_py_locked :: "env \<Rightarrow> (string result) io" where
  "ensure_py_locked E =
     try_io (ensure_py_fast E) (\<lambda>hit.
     (case hit of
        Some p \<Rightarrow> ok p
      | None \<Rightarrow>
          try_io (lift_result (python_dir E)) (\<lambda>dir.
          try_io (check_provision_path E dir True ''adapter dir'') (\<lambda>_.
          try_io (lift_result (venv_python E)) (\<lambda>venv.
          let venv_dir = path_join dir ''venv'' in
          try_io (ensure_provision_dir E venv_dir) (\<lambda>_. do {
            launcher \<leftarrow> find_python_launcher E;
            (case launcher of
               None \<Rightarrow> err (Msg no_launcher)
             | Some l \<Rightarrow>
                 try_io (create_venv E l venv_dir) (\<lambda>_.
                 try_io (install_debugpy E venv) (\<lambda>_. ok venv)))
          }))))))"

definition ensure_py :: "env \<Rightarrow> (string result) io" where
  "ensure_py E =
     try_io (ensure_py_fast E) (\<lambda>hit.
     (case hit of Some p \<Rightarrow> ok p | None \<Rightarrow> under_lock E ''python'' (ensure_py_locked E)))"

section \<open>Node and the browser\<close>

definition ensure_node :: "env \<Rightarrow> (string result) io" where
  "ensure_node E = do {
     r \<leftarrow> run_with_timeout E ''node'' [''--version''] (secs 15);
     if succeeded r then ok ''node''
     else err (Msg ''node not found on PATH (install Node 18+ for the Node adapter)'')
   }"

definition ws_marker :: "string \<Rightarrow> string" where
  "ws_marker dir = path_join (path_join (path_join dir ''node_modules'') ''ws'') ''package.json''"

definition ensure_ws_marker_ok :: "env \<Rightarrow> string \<Rightarrow> bool io" where
  "ensure_ws_marker_ok E dir = exists E (ws_marker dir)"

definition ensure_ws_locked :: "env \<Rightarrow> string \<Rightarrow> (unit result) io" where
  "ensure_ws_locked E dir = do {
     there \<leftarrow> ensure_ws_marker_ok E dir;
     if there then ok ()
     else try_io (check_provision_path E dir True ''adapter dir'') (\<lambda>_.
          try_io (ensure_provision_dir E dir) (\<lambda>_.
          try_io (map_err (\<lambda>e. Msg (''npm failed to start: '' @ display e @ '' (Node 18+ with npm required)''))
            (run_with_timeout E ''npm'' [''install'', ''ws'', ''--prefix'', dir, ''--no-audit'', ''--no-fund'']
              (secs 180))) (\<lambda>out. do {
            there \<leftarrow> (if exit_ok (out_status out) then exists E (ws_marker dir) else State_Monad.return False);
            if there then ok ()
            else err (Msg (''could not install `ws` (network needed once). Try manually:'' @ [CHR 0x0A] @
              ''  npm install ws --prefix '' @ dir @ '' --no-audit --no-fund''))
          })))
   }"

definition ensure_ws :: "env \<Rightarrow> (unit result) io" where
  "ensure_ws E =
     try_io (lift_result (node_dir E)) (\<lambda>dir. do {
       there \<leftarrow> ensure_ws_marker_ok E dir;
       if there then ok ()
       else under_lock E ''node'' (try_io (lift_result (node_dir E)) (ensure_ws_locked E))
     })"

definition ensure_browserbridge_under :: "env \<Rightarrow> string \<Rightarrow> string \<Rightarrow> (string result) io" where
  "ensure_browserbridge_under E ws_dir dir =
     try_io (ensure_ws_locked E ws_dir) (\<lambda>_. ensure_browserbridge_in E dir)"

text \<open>Node's lock first, the browser's inside it.\<close>

definition ensure_browserbridge :: "env \<Rightarrow> (string result) io" where
  "ensure_browserbridge E =
     try_io (lift_result (adapters_dir E)) (\<lambda>adapters.
     try_io (ensure_provision_dir E adapters) (\<lambda>_.
     locked E adapters ''node'' (locked E adapters ''browser''
       (try_io (lift_result (node_dir E)) (\<lambda>node.
        try_io (lift_result (browser_dir E)) (\<lambda>browser.
        ensure_browserbridge_under E node browser))))))"

definition join_paths :: "string list \<Rightarrow> string option" where
  "join_paths ps = (if list_ex (\<lambda>p. CHR '':'' \<in> set p) ps then None else Some (join_with '':'' ps))"

definition prepend_node_path :: "string \<Rightarrow> string option \<Rightarrow> string" where
  "prepend_node_path ws_dir existing =
     (case existing of
        Some v \<Rightarrow> if v \<noteq> [] then (case join_paths [ws_dir, v] of Some s \<Rightarrow> s | None \<Rightarrow> ws_dir @ '':'' @ v)
          else ws_dir
      | None \<Rightarrow> ws_dir)"

definition chrome_candidates :: "string list" where
  "chrome_candidates = [''/Applications/Google Chrome.app/Contents/MacOS/Google Chrome'',
     ''/Applications/Chromium.app/Contents/MacOS/Chromium'', ''google-chrome'', ''google-chrome-stable'',
     ''chromium'', ''chromium-browser'']"

fun find_chrome_in :: "env \<Rightarrow> string list \<Rightarrow> ((string \<times> string) option) io" where
  "find_chrome_in E [] = State_Monad.return None"
| "find_chrome_in E (bin # bins) = do {
     r \<leftarrow> run_with_timeout E bin [''--version''] (secs 10);
     (case r of
        Inl _ \<Rightarrow> find_chrome_in E bins
      | Inr out \<Rightarrow>
          if exit_ok (out_status out) then State_Monad.return (Some (bin, first_line out))
          else find_chrome_in E bins)
   }"

definition find_chrome :: "env \<Rightarrow> ((string \<times> string) option) io" where
  "find_chrome E = find_chrome_in E chrome_candidates"

section \<open>What a write leaves\<close>

definition holds_text :: "kern \<Rightarrow> string \<Rightarrow> string \<Rightarrow> bool" where
  "holds_text k p c = (\<exists>i t. files k p = Some (File i c t))"

text \<open>Assertions that speak of other paths than the given ones.\<close>

definition apart :: "string set \<Rightarrow> (kern \<Rightarrow> bool) \<Rightarrow> bool" where
  "apart P F = (\<forall>k k'. (\<forall>p. p \<notin> P \<longrightarrow> files k p = files k' p) \<longrightarrow> F k \<longrightarrow> F k')"

abbreviation ends :: "(kern \<Rightarrow> bool) \<Rightarrow> 'a io \<Rightarrow> ('a \<Rightarrow> kern \<Rightarrow> bool) \<Rightarrow> bool" where
  "ends P m Q \<equiv> passes (\<lambda>_. True) (\<lambda>(w :: world). P (kern w)) m (\<lambda>r (w :: world). Q r (kern w))"

lemma seen_alone [simp]: "alone E \<Longrightarrow> seen E w = kern w"
  by (simp add: alone_def seen_def)

lemma ends_look:
  assumes "alone E" and "\<And>e k. P k \<Longrightarrow> Q (Inl e) k" and "\<And>k. P k \<Longrightarrow> Q (f k) k"
  shows "ends P (look E f) Q"
  by (rule passes_look) (use assms in simp_all)

lemma ends_syscall:
  assumes "alone E" and "\<And>e k. P k \<Longrightarrow> Q (Inl e) k" and "\<And>t k. P k \<Longrightarrow> Q (fst (f t k)) (snd (f t k))"
  shows "ends P (syscall E f) Q"
  by (rule passes_syscall) (use assms in simp_all)

lemma apart_upd: "apart P F \<Longrightarrow> F k \<Longrightarrow> (\<And>p. p \<notin> P \<Longrightarrow> files k' p = files k p) \<Longrightarrow> F k'"
  unfolding apart_def by metis

lemma create_new_ends:
  assumes "alone E" and "apart {tmp, dest} F"
  shows "ends (\<lambda>k. inodes_ok k \<and> F k) (create_new E tmp)
    (\<lambda>r k. inodes_ok k \<and> F k \<and> (case r of Inl _ \<Rightarrow> True | Inr i \<Rightarrow> \<exists>t. files k tmp = Some (File i [] t)))"
  unfolding create_new_def
proof (rule ends_syscall [OF assms(1)])
  fix t k assume k: "inodes_ok k \<and> F k"
  let ?k = "put_node tmp (Some (File (next_ino k) [] t)) (k\<lparr>next_ino := Suc (next_ino k)\<rparr>)"
  have "inodes_ok ?k" if "files k tmp = None" using k inodes_ok_new [OF _ that] by blast
  moreover have "F ?k" by (rule apart_upd [OF assms(2) conjunct2 [OF k]]) (simp add: put_node_def)
  ultimately show "inodes_ok (snd (k_create_new tmp t k)) \<and> F (snd (k_create_new tmp t k)) \<and>
      (case fst (k_create_new tmp t k) of Inl _ \<Rightarrow> True
       | Inr i \<Rightarrow> \<exists>ta. files (snd (k_create_new tmp t k)) tmp = Some (File i [] ta))"
    using k by (simp add: k_create_new_def k_create_def) (simp add: put_node_def)
qed auto

lemma write_all_ends:
  assumes "alone E" and "apart {tmp, dest} F"
  shows "ends (\<lambda>k. (inodes_ok k \<and> F k) \<and> (\<exists>t. files k tmp = Some (File i c t))) (write_all E i s)
    (\<lambda>r k. inodes_ok k \<and> F k \<and> (case r of Inl _ \<Rightarrow> True | Inr _ \<Rightarrow> \<exists>t. files k tmp = Some (File i (c @ s) t)))"
proof (rule passes_write_all)
  fix w :: world assume P: "(inodes_ok (kern w) \<and> F (kern w)) \<and> (\<exists>t. files (kern w) tmp = Some (File i c t))"
  then obtain t0 where k: "inodes_ok (kern w)" "F (kern w)" "files (kern w) tmp = Some (File i c t0)" by blast
  have post: "inodes_ok (append_ino i s' t (kern w)) \<and> F (append_ino i s' t (kern w)) \<and>
      files (append_ino i s' t (kern w)) tmp = Some (File i (c @ s') t)" for s' t
    using inodes_ok_append [OF k(1)] append_ino_self [OF k(3)]
      apart_upd [OF assms(2) k(2), of "append_ino i s' t (kern w)"] append_ino_other [OF k(1,3)] by auto
  show "True \<and> inodes_ok (kern (changed E (append_ino i s' (clock E (calls w)) (seen E w)) w)) \<and>
      F (kern (changed E (append_ino i s' (clock E (calls w)) (seen E w)) w)) \<and>
      (case Inl e of Inl _ \<Rightarrow> True | Inr _ \<Rightarrow> \<exists>t. files (kern (changed E (append_ino i s' (clock E (calls w)) (seen E w)) w)) tmp = Some (File i (c @ s) t))"
    for e s' using post assms(1) by simp
  show "True \<and> inodes_ok (kern (changed E (append_ino i s (clock E (calls w)) (seen E w)) w)) \<and>
      F (kern (changed E (append_ino i s (clock E (calls w)) (seen E w)) w)) \<and>
      (case Inr () of Inl _ \<Rightarrow> True | Inr _ \<Rightarrow> \<exists>t. files (kern (changed E (append_ino i s (clock E (calls w)) (seen E w)) w)) tmp = Some (File i (c @ s) t))"
    using post assms(1) by simp
qed simp

lemma rename_ends:
  assumes "alone E" and "apart {tmp, dest} F" and "tmp \<noteq> dest"
  shows "ends (\<lambda>k. (inodes_ok k \<and> F k) \<and> (\<exists>t. files k tmp = Some (File i c t))) (rename E tmp dest)
    (\<lambda>r k. inodes_ok k \<and> F k \<and> (case r of Inl _ \<Rightarrow> True | Inr _ \<Rightarrow> holds_text k dest c))"
  unfolding rename_def
proof (rule ends_syscall [OF assms(1)])
  fix t k assume P: "(inodes_ok k \<and> F k) \<and> (\<exists>t. files k tmp = Some (File i c t))"
  then obtain t0 where k: "inodes_ok k" "F k" "files k tmp = Some (File i c t0)" by blast
  let ?k = "k\<lparr>files := (files k)(tmp := None, dest := Some (File i c t0))\<rparr>"
  have "inodes_ok ?k" using inodes_ok_rename [OF k(1,3) assms(3)] .
  moreover have "F ?k" by (rule apart_upd [OF assms(2) k(2)]) simp
  ultimately show "inodes_ok (snd (k_rename tmp dest k)) \<and> F (snd (k_rename tmp dest k)) \<and>
      (case fst (k_rename tmp dest k) of Inl _ \<Rightarrow> True | Inr _ \<Rightarrow> holds_text (snd (k_rename tmp dest k)) dest c)"
    using k assms(3) by (auto simp: k_rename_def holds_text_def)
qed auto

lemma remove_ends:
  assumes "alone E" and "apart {tmp, dest} F"
  shows "ends (\<lambda>k. inodes_ok k \<and> F k) (remove_file E tmp) (\<lambda>r k. inodes_ok k \<and> F k)"
  unfolding remove_file_def
proof (rule ends_syscall [OF assms(1)])
  fix t k assume P: "inodes_ok k \<and> F k"
  have "F (put_node tmp None k)" by (rule apart_upd [OF assms(2) conjunct2 [OF P]]) (simp add: put_node_def)
  with P show "inodes_ok (snd (k_remove_file tmp k)) \<and> F (snd (k_remove_file tmp k))"
    by (auto simp: k_remove_file_def inodes_ok_remove split: option.split node.split)
qed auto

lemma write_via_ends:
  assumes "alone E" and "apart {tmp, dest} F" and "tmp \<noteq> dest"
  shows "ends (\<lambda>k. inodes_ok k \<and> F k) (write_via E tmp dest source)
    (\<lambda>r k. inodes_ok k \<and> F k \<and> (case r of Inl _ \<Rightarrow> True | Inr _ \<Rightarrow> holds_text k dest source))"
proof -
  let ?R = "\<lambda>c r k. inodes_ok k \<and> F k \<and> (case r of Inl _ \<Rightarrow> True | Inr i \<Rightarrow> \<exists>t. files k tmp = Some (File i c t))"
  let ?Q = "\<lambda>r k. inodes_ok k \<and> F k \<and> (case r of Inl _ \<Rightarrow> True | Inr _ \<Rightarrow> holds_text k dest source)"
  have body: "ends (\<lambda>k. inodes_ok k \<and> F k)
     (try_io (map_err (cannot_write tmp) (create_new E tmp)) (\<lambda>f.
      try_io (map_err (cannot_write tmp) (write_all E f source)) (\<lambda>_.
      try_io (map_err (cannot_write tmp) (sync_all E f)) (\<lambda>_.
      map_err (cannot_write dest) (rename E tmp dest))))) ?Q"
  proof (rule passes_try [where R = "\<lambda>r w. ?R [] r (kern w)"])
    show "ends (\<lambda>k. inodes_ok k \<and> F k) (map_err (cannot_write tmp) (create_new E tmp)) (?R [])"
      by (rule passes_map_err [OF create_new_ends [OF assms(1,2)]]) auto
  next
    fix f
    let ?T = "\<lambda>k. (inodes_ok k \<and> F k) \<and> (\<exists>t. files k tmp = Some (File f source t))"
    let ?S = "\<lambda>r k. inodes_ok k \<and> F k \<and> (case r of Inl _ \<Rightarrow> True | Inr _ \<Rightarrow> \<exists>t. files k tmp = Some (File f source t))"
    have w: "ends (\<lambda>k. ?R [] (Inr f) k) (map_err (cannot_write tmp) (write_all E f source)) ?S"
      by (rule passes_map_err [OF passes_pre [OF write_all_ends [OF assms(1,2), of f "[]" source]]]) auto
    have s: "ends (\<lambda>k. ?S (Inr u) k) (map_err (cannot_write tmp) (sync_all E f)) ?S" for u
      unfolding sync_all_def
      by (rule passes_map_err [OF ends_look [OF assms(1), where P = ?T
            and Q = "\<lambda>r k. inodes_ok k \<and> F k \<and> (\<exists>t. files k tmp = Some (File f source t))"], THEN passes_pre])
        auto
    have r: "ends (\<lambda>k. ?S (Inr u) k) (map_err (cannot_write dest) (rename E tmp dest)) ?Q" for u
      by (rule passes_map_err [OF passes_pre [OF rename_ends [OF assms, of f source]]]) auto
    show "ends (?R [] (Inr f)) (try_io (map_err (cannot_write tmp) (write_all E f source)) (\<lambda>_.
        try_io (map_err (cannot_write tmp) (sync_all E f)) (\<lambda>_. map_err (cannot_write dest) (rename E tmp dest)))) ?Q"
      by (rule passes_try [OF w], rule passes_try [OF s], rule r) auto
  qed auto
  show ?thesis
    unfolding write_via_def
  proof (rule passes_bind [OF body])
    fix r :: "unit result"
    show "ends (?Q r) (case r of Inl e \<Rightarrow> do { _ \<leftarrow> remove_file E tmp; err e } | Inr _ \<Rightarrow> ok ()) ?Q"
    proof (cases r)
      case (Inl e)
      have "ends (\<lambda>k. inodes_ok k \<and> F k) (do { _ \<leftarrow> remove_file E tmp; err e }) ?Q"
        by (rule passes_bind [OF remove_ends [OF assms(1,2)]]) (rule passes_err, simp)
      with Inl show ?thesis by simp
    next
      case (Inr u)
      then show ?thesis by simp (rule passes_ok, simp)
    qed
  qed
qed

section \<open>Names of temporary files\<close>

lemma last_path_join: "n \<noteq> [] \<Longrightarrow> last (path_join d n) = last n"
  by (simp add: path_join_def)

lemma file_stem_join:
  assumes "plain_segment n"
  shows "file_stem (path_join d n) \<noteq> None"
proof -
  have "components (path_join d n) = components d @ [Normal n]"
    using assms by (intro components_join) (auto simp: plain_segment_def is_slash_def)
  then show ?thesis by (simp add: file_stem_def file_name_of_def Let_def split: option.split)
qed

lemma last_show_nat: "is_ascii_digit (last (show_nat n))"
  by (subst show_nat.simps) (simp add: digit_char_digit)

text \<open>A bridge's name does not end in a digit; its temporary name does.\<close>

definition script_name :: "string \<Rightarrow> bool" where
  "script_name m = (plain_segment m \<and> \<not> is_ascii_digit (last m))"

lemma provision_tmp_apart:
  assumes "plain_segment n" and "script_name m"
  shows "provision_tmp_path (path_join d n) pid k \<noteq> path_join d m"
proof -
  obtain s where s: "file_stem (path_join d n) = Some s" using file_stem_join [OF assms(1)] by blast
  have "last (with_file_name p (x @ show_nat j)) = last (show_nat j)" for p x j
    by (simp add: with_file_name_def last_path_join show_nat_not_Nil split: option.split)
  then have "last (provision_tmp_path (path_join d n) pid k) = last (show_nat (unat k))"
    unfolding provision_tmp_path_def with_extension_def s option.case by (metis append.assoc)
  moreover have "last (path_join d m) = last m"
    using assms(2) by (simp add: last_path_join script_name_def plain_segment_def)
  ultimately show ?thesis
    using last_show_nat [of "unat k"] assms(2) by (auto simp: script_name_def)
qed

section \<open>Checks and directories\<close>

lemma ends_return: "(\<And>k. P k \<Longrightarrow> Q a k) \<Longrightarrow> ends P (State_Monad.return a) Q"
  by (rule passes_return)

lemma ends_refuse:
  assumes "alone E" and "honest E"
  shows "ends P (refuse_provision_link E p what) (\<lambda>r k. P k \<and> (r = Inr () \<longrightarrow> not_link (files k p)))"
  unfolding refuse_provision_link_def refuse_symlink_def symlink_metadata_def
proof (rule passes_bind [where R = "\<lambda>m w. P (kern w) \<and> (m = k_lstat p (kern w) \<or> (\<exists>e. m = Inl e \<and> io_kind e \<noteq> NotFound))"])
  show "passes (\<lambda>_. True) (\<lambda>w. P (kern w)) (look E (k_lstat p))
      (\<lambda>m w. P (kern w) \<and> (m = k_lstat p (kern w) \<or> (\<exists>e. m = Inl e \<and> io_kind e \<noteq> NotFound)))"
    by (rule passes_look) (use assms in \<open>auto simp: honest_def\<close>)
next
  fix m :: "io_error + file_type"
  let ?r = "case m of
      Inr TLink \<Rightarrow> bail (what @ '' must not be a symlink: '' @ p)
    | Inr _ \<Rightarrow> Inr ()
    | Inl e \<Rightarrow> if io_kind e = NotFound then Inr () else bail (''cannot stat '' @ what @ '' '' @ p @ '': '' @ io_text e)"
  have "?r = Inr () \<Longrightarrow> m = k_lstat p k \<or> (\<exists>e. m = Inl e \<and> io_kind e \<noteq> NotFound) \<Longrightarrow> not_link (files k p)" for k
  proof (cases "files k p")
    case (Some n)
    assume "?r = Inr ()" and "m = k_lstat p k \<or> (\<exists>e. m = Inl e \<and> io_kind e \<noteq> NotFound)"
    with Some show ?thesis by (cases n) (auto simp: k_lstat_def not_link_def bail_def)
  qed (simp add: not_link_def)
  then show "passes (\<lambda>_. True) (\<lambda>w. P (kern w) \<and> (m = k_lstat p (kern w) \<or> (\<exists>e. m = Inl e \<and> io_kind e \<noteq> NotFound)))
      (State_Monad.return ?r) (\<lambda>r w. P (kern w) \<and> (r = Inr () \<longrightarrow> not_link (files (kern w) p)))"
    by (intro passes_return) blast
qed

lemma ends_check:
  assumes "alone E" and "honest E"
  shows "ends P (check_provision_path E p want_dir what) (\<lambda>r k. P k \<and> (r = Inr () \<longrightarrow> not_link (files k p)))"
  unfolding check_provision_path_def
proof (rule passes_try [OF ends_refuse [OF assms]])
  fix u :: unit
  let ?P = "\<lambda>k. P k \<and> (Inr u = (Inr () :: unit result) \<longrightarrow> not_link (files k p))"
  have "ends ?P (symlink_metadata E p) (\<lambda>_. ?P)"
    unfolding symlink_metadata_def by (rule ends_look [OF assms(1)])
  then show "ends ?P (do {
       m \<leftarrow> symlink_metadata E p;
       State_Monad.return (case m of
           Inl _ \<Rightarrow> Inr ()
         | Inr t \<Rightarrow>
             if want_dir \<and> t \<noteq> TDir then bail (what @ '' must be a real directory: '' @ p)
             else if \<not> want_dir \<and> t \<noteq> TFile then bail (what @ '' must be a regular file: '' @ p)
             else Inr ()) })
     (\<lambda>r k. P k \<and> (r = Inr () \<longrightarrow> not_link (files k p)))"
    by (rule passes_bind) (rule passes_return, simp)
qed simp

lemma ends_file_matches:
  assumes "alone E"
  shows "ends (\<lambda>k. P k \<and> not_link (files k p)) (file_matches E p source)
    (\<lambda>same k. P k \<and> (same \<longrightarrow> holds_text k p source))"
  unfolding file_matches_def read_to_string_def
proof (rule passes_bind)
  show "ends (\<lambda>k. P k \<and> not_link (files k p)) (look E (k_read_to_string p))
      (\<lambda>r k. P k \<and> (r = Inr source \<longrightarrow> holds_text k p source))"
    by (rule ends_look [OF assms])
      (auto simp: k_read_to_string_def k_read_def k_stat_def follow_not_link holds_text_def
        split: option.splits sum.splits node.splits if_splits)
qed (rule passes_return, simp)

text \<open>Making directories makes no files.\<close>

lemma k_mkdirs_inodes: "inodes_ok k \<Longrightarrow> inodes_ok (snd (k_mkdirs ps t k))"
proof (induction ps arbitrary: k)
  case (Cons q ps)
  have "inodes_ok (put_node d (Some (Dir t)) k)" for d
    using Cons.prems unfolding inodes_ok_def put_node_def by (simp add: fun_upd_def)
  with Cons show ?case by (auto split: sum.split node.split)
qed simp

text \<open>The files \<open>D\<close> of a directory that hold what is embedded under their names.\<close>

definition converged :: "env \<Rightarrow> string \<Rightarrow> string set \<Rightarrow> kern \<Rightarrow> bool" where
  "converged E dir D k = (\<forall>m\<in>D. holds_text k (path_join dir m) (embedded E m))"

lemma converged_insert [simp]:
  "converged E dir (insert m D) k \<longleftrightarrow> holds_text k (path_join dir m) (embedded E m) \<and> converged E dir D k"
  by (simp add: converged_def)

lemma apart_converged:
  assumes "\<forall>m\<in>D. path_join dir m \<notin> P"
  shows "apart P (converged E dir D)"
  unfolding apart_def
proof (intro allI impI)
  fix k k' :: kern assume "\<forall>p. p \<notin> P \<longrightarrow> files k p = files k' p" and "converged E dir D k"
  with assms show "converged E dir D k'" by (simp add: converged_def holds_text_def)
qed

lemma ends_create_dir_all:
  assumes "alone E"
  shows "ends (\<lambda>k. inodes_ok k \<and> converged E dir D k) (create_dir_all E d) (\<lambda>_ k. inodes_ok k \<and> converged E dir D k)"
  unfolding create_dir_all_def
  by (rule ends_syscall [OF assms])
    (use k_mkdirs_inodes k_mkdirs_keeps in \<open>fastforce simp: converged_def holds_text_def\<close>)+

lemma ends_refuse_links:
  assumes "alone E" and "honest E"
  shows "ends P (refuse_links E ps) (\<lambda>_. P)"
proof (induction ps)
  case (Cons p ps)
  have look: "ends P (symlink_metadata E p) (\<lambda>_. P)"
    unfolding symlink_metadata_def by (rule ends_look [OF assms(1)])
  have rest: "ends P (case m of Inl _ \<Rightarrow> ok () | Inr _ \<Rightarrow> refuse_links E ps) (\<lambda>_. P)"
    for m :: "io_error + file_type"
    using Cons by (cases m) (auto intro: passes_ok)
  show ?case
    unfolding refuse_links.simps
    by (rule passes_try [OF passes_post [OF ends_refuse [OF assms, of P]], where R = "\<lambda>_ w. P (kern w)"], simp,
        rule passes_bind [OF look], rule rest)
qed (auto intro: passes_ok)

lemma ends_provision_dir:
  assumes "alone E" and "honest E"
  shows "ends (\<lambda>k. inodes_ok k \<and> converged E dir D k) (ensure_provision_dir E d) (\<lambda>_ k. inodes_ok k \<and> converged E dir D k)"
proof -
  let ?P = "\<lambda>k. inodes_ok k \<and> converged E dir D k"
  have leaf: "ends ?P (refuse_provision_link E d ''provisioning dir'') (\<lambda>_. ?P)"
    by (rule passes_post [OF ends_refuse [OF assms]]) simp
  have make: "ends ?P (map_err h (create_dir_all E d)) (\<lambda>_. ?P)" for h :: "io_error \<Rightarrow> anyhow"
    by (rule passes_map_err [OF ends_create_dir_all [OF assms(1)]]) auto
  show ?thesis
    unfolding ensure_provision_dir_def ensure_real_dir_all_def Let_def
    by (rule passes_try [where R = "\<lambda>_ w. ?P (kern w)"], rule passes_if,
        rule ends_refuse_links [OF assms], rule leaf, rule make, simp)
qed

section \<open>Convergence\<close>

lemma ends_atomic_write:
  assumes "alone E" and "plain_segment n" and "script_name n" and "n \<notin> D" and "\<forall>m\<in>D. script_name m"
  shows "ends (\<lambda>k. inodes_ok k \<and> converged E dir D k)
    (atomic_write_provisioned E (path_join dir n) (embedded E n))
    (\<lambda>r k. inodes_ok k \<and> converged E dir D k \<and> (r = Inr () \<longrightarrow> holds_text k (path_join dir n) (embedded E n)))"
  unfolding atomic_write_provisioned_def provision_tmp_name_def
proof (rule passes_bind [where R = "\<lambda>tmp w. (\<exists>j. tmp = provision_tmp_path (path_join dir n) (process_id E) j) \<and>
      inodes_ok (kern w) \<and> converged E dir D (kern w)"])
  fix tmp
  show "passes (\<lambda>_. True) (\<lambda>w. (\<exists>j. tmp = provision_tmp_path (path_join dir n) (process_id E) j) \<and>
      inodes_ok (kern w) \<and> converged E dir D (kern w)) (write_via E tmp (path_join dir n) (embedded E n))
      (\<lambda>r w. inodes_ok (kern w) \<and> converged E dir D (kern w) \<and>
        (r = Inr () \<longrightarrow> holds_text (kern w) (path_join dir n) (embedded E n)))"
  proof (cases "\<exists>j. tmp = provision_tmp_path (path_join dir n) (process_id E) j")
    case True
    have "path_join dir m \<noteq> tmp" if "script_name m" for m
      using True provision_tmp_apart [OF assms(2) that] by metis
    moreover have "path_join dir m \<noteq> path_join dir n" if "m \<in> D" for m
      using that assms(2,4,5) path_join_inject [of m n dir] by (auto simp: script_name_def)
    ultimately have "apart {tmp, path_join dir n} (converged E dir D)" and "tmp \<noteq> path_join dir n"
      using assms(3,5) by (auto intro: apart_converged)
    from write_via_ends [OF assms(1) this, of "embedded E n"] show ?thesis
      by (rule passes_conseq) (auto split: sum.splits)
  qed (simp add: passes_def)
qed (auto simp: passes_def State_Monad.bind_def)


lemma ends_converge_shared:
  assumes "alone E" and "honest E" and "\<forall>m\<in>D \<union> set names. script_name m"
  shows "ends (\<lambda>k. inodes_ok k \<and> converged E dir D k) (converge_shared E dir names acc)
    (\<lambda>r k. inodes_ok k \<and> (r \<in> range Inr \<longrightarrow> converged E dir (D \<union> set names) k))"
  using assms(3)
proof (induction names arbitrary: D acc)
  case Nil
  show ?case by (simp, rule passes_ok, simp)
next
  case (Cons n names)
  let ?dest = "path_join dir n" and ?src = "embedded E n"
  let ?I = "\<lambda>D k. inodes_ok k \<and> converged E dir D k"
  let ?Q = "\<lambda>r k. inodes_ok k \<and> (r \<in> range Inr \<longrightarrow> converged E dir (D \<union> set (n # names)) k)"
  have names: "script_name n" "plain_segment n" "\<forall>m\<in>D. script_name m"
    using Cons.prems by (auto simp: script_name_def)
  have rest: "ends (?I (insert n D)) (converge_shared E dir names a) ?Q" for a
    using Cons.IH [of "insert n D" a] Cons.prems by (simp add: Un_commute)
  have same: "ends (\<lambda>k. ?I D k \<and> not_link (files k ?dest)) (file_matches E ?dest ?src)
      (\<lambda>same k. ?I D k \<and> (same \<longrightarrow> ?I (insert n D) k))"
    by (rule passes_post [OF ends_file_matches [OF assms(1)]]) simp
  have wr: "ends (?I D) (atomic_write_provisioned E ?dest ?src)
      (\<lambda>r k. inodes_ok k \<and> (r = Inr () \<longrightarrow> ?I (insert n D) k))"
  proof (cases "n \<in> D")
    case True
    have "ends (?I (D - {n})) (atomic_write_provisioned E ?dest ?src)
        (\<lambda>r k. ?I (D - {n}) k \<and> (r = Inr () \<longrightarrow> holds_text k ?dest ?src))"
      by (rule passes_post [OF ends_atomic_write [OF assms(1) names(2,1)]]) (use names(3) in auto)
    then show ?thesis
      by (rule passes_conseq) (auto simp: converged_def)
  next
    case False
    from ends_atomic_write [OF assms(1) names(2,1) False names(3)] show ?thesis
      by (rule passes_post) auto
  qed
  have fresh: "ends (?I D) (try_io (ensure_provision_dir E dir) (\<lambda>_.
        try_io (atomic_write_provisioned E ?dest ?src) (\<lambda>_. converge_shared E dir names True))) ?Q"
  proof (rule passes_try [OF ends_provision_dir [OF assms(1,2)]])
    fix u :: unit
    show "ends (?I D) (try_io (atomic_write_provisioned E ?dest ?src) (\<lambda>_. converge_shared E dir names True)) ?Q"
      by (rule passes_try [OF wr], rule passes_pre [OF rest]) auto
  qed auto
  show ?case
    unfolding converge_shared.simps Let_def
  proof (rule passes_try [OF ends_check [OF assms(1,2)]])
    fix u :: unit
    show "ends (\<lambda>k. ?I D k \<and> (Inr u = (Inr () :: unit result) \<longrightarrow> not_link (files k ?dest)))
        (do { same \<leftarrow> file_matches E ?dest ?src;
              if same then converge_shared E dir names acc
              else try_io (ensure_provision_dir E dir) (\<lambda>_.
                   try_io (atomic_write_provisioned E ?dest ?src) (\<lambda>_. converge_shared E dir names True)) }) ?Q"
      by (rule passes_bind [OF passes_pre [OF same]], simp, rule passes_if)
        (rule passes_pre [OF rest], simp, rule passes_pre [OF fresh], simp)
  qed auto
qed


lemma shared_names: "\<forall>m\<in>set JS_SHARED. script_name m"
  by (simp add: JS_SHARED_def script_name_def plain_segment_def is_ascii_digit_def code_def)

text \<open>The shared files are converged, too, and then the bridge is written anew.\<close>

lemma ends_js_shared:
  assumes "alone E" and "honest E" and "\<forall>m\<in>D. script_name m"
  shows "ends (\<lambda>k. inodes_ok k \<and> converged E dir D k) (ensure_js_shared E dir)
    (\<lambda>r k. inodes_ok k \<and> (r \<in> range Inr \<longrightarrow> converged E dir (D \<union> set JS_SHARED) k))"
proof -
  have "\<forall>m\<in>D \<union> set JS_SHARED. script_name m" using assms(3) shared_names by blast
  note rest = ends_converge_shared [OF assms(1,2) this, of dir False]
  have gate: "ends (\<lambda>k. inodes_ok k \<and> converged E dir D k) (check_provision_path E dir True ''bridge dir'')
      (\<lambda>_ k. inodes_ok k \<and> converged E dir D k)"
    by (rule passes_post [OF ends_check [OF assms(1,2)]]) simp
  show ?thesis
    unfolding ensure_js_shared_def by (rule passes_try [OF gate rest]) auto
qed

lemma ends_rewrite:
  assumes "alone E" and "honest E" and "script_name s" and "s \<notin> set JS_SHARED"
  shows "ends (\<lambda>k. inodes_ok k \<and> converged E dir (set JS_SHARED) k) (try_io (ensure_provision_dir E dir) (\<lambda>_.
      try_io (atomic_write_provisioned E (path_join dir s) (embedded E s)) (\<lambda>_. ok (path_join dir s))))
    (\<lambda>r k. case r of Inl _ \<Rightarrow> True | Inr p \<Rightarrow> p = path_join dir s \<and> converged E dir (insert s (set JS_SHARED)) k)"
proof (rule passes_try [OF ends_provision_dir [OF assms(1,2)]])
  fix u :: unit
  have "plain_segment s" using assms(3) by (simp add: script_name_def)
  note written = ends_atomic_write [OF assms(1) this assms(3,4) shared_names]
  show "ends (\<lambda>k. inodes_ok k \<and> converged E dir (set JS_SHARED) k)
      (try_io (atomic_write_provisioned E (path_join dir s) (embedded E s)) (\<lambda>_. ok (path_join dir s)))
      (\<lambda>r k. case r of Inl _ \<Rightarrow> True | Inr p \<Rightarrow> p = path_join dir s \<and> converged E dir (insert s (set JS_SHARED)) k)"
    by (rule passes_try [OF written], rule passes_ok) auto
qed auto

lemma ends_cdp_bridge:
  assumes "alone E" and "honest E" and "script_name s" and "s \<notin> set JS_SHARED"
  shows "ends inodes_ok (ensure_cdp_bridge_in E s dir)
    (\<lambda>r k. case r of Inl _ \<Rightarrow> True | Inr p \<Rightarrow> p = path_join dir s \<and> converged E dir (insert s (set JS_SHARED)) k)"
proof -
  let ?dest = "path_join dir s" and ?src = "embedded E s"
  let ?I = "\<lambda>D k. inodes_ok k \<and> converged E dir D k"
  let ?Q = "\<lambda>r k. case r of Inl _ \<Rightarrow> True | Inr p \<Rightarrow> p = ?dest \<and> converged E dir (insert s (set JS_SHARED)) k"
  let ?rest = "\<lambda>same shared_stale. if \<not> same \<or> shared_stale then
      try_io (ensure_provision_dir E dir) (\<lambda>_. try_io (atomic_write_provisioned E ?dest ?src) (\<lambda>_. ok ?dest))
    else ok ?dest"
  have same: "ends (\<lambda>k. inodes_ok k \<and> not_link (files k ?dest)) (file_matches E ?dest ?src)
      (\<lambda>same k. if same then ?I {s} k else inodes_ok k)"
    by (rule passes_post [OF ends_file_matches [OF assms(1)]]) (simp add: converged_def)
  have decide: "ends (\<lambda>k. if same then ?I {s} k else inodes_ok k) (try_io (ensure_js_shared E dir) (?rest same)) ?Q" for same
  proof (rule passes_try [OF passes_pre [OF ends_js_shared [OF assms(1,2), of "if same then {s} else {}"]]])
    fix b :: bool
    show "ends (\<lambda>k. inodes_ok k \<and> (Inr b \<in> range (Inr :: bool \<Rightarrow> bool result) \<longrightarrow>
        converged E dir ((if same then {s} else {}) \<union> set JS_SHARED) k)) (?rest same b) ?Q"
      by (rule passes_if, rule passes_pre [OF ends_rewrite [OF assms]], auto simp: converged_def, rule passes_ok,
          auto simp: converged_def)
  qed (use assms(3) in \<open>auto simp: converged_def split: if_splits\<close>)
  have body: "ends (\<lambda>k. inodes_ok k \<and> not_link (files k ?dest))
      (do { same \<leftarrow> file_matches E ?dest ?src; try_io (ensure_js_shared E dir) (?rest same) }) ?Q"
    by (rule passes_bind [OF same], rule decide)
  show ?thesis
    unfolding ensure_cdp_bridge_in_def Let_def
  proof (rule passes_try)
    show "ends inodes_ok (check_provision_path E dir True ''adapter dir'') (\<lambda>_. inodes_ok)"
      by (rule passes_post [OF ends_check [OF assms(1,2)]]) simp
    show "ends inodes_ok (try_io (check_provision_path E ?dest False ''bridge file'') (\<lambda>_. do {
        same \<leftarrow> file_matches E ?dest ?src; try_io (ensure_js_shared E dir) (?rest same) })) ?Q"
      by (rule passes_try [OF ends_check [OF assms(1,2)]], rule passes_pre [OF body]) auto
  qed simp
qed

text \<open>C35: A bridge that \<open>ensure_nodebridge_in\<close> hands out is the embedded one: whatever files were there
  before and whatever transient errors occur, when it answers a path and nobody else writes there, the
  bridge at that path and both files it shares with the browser's hold exactly the embedded texts.\<close>

theorem bridge_converges:
  assumes "alone E" and "honest E" and "inodes_ok (kern w)"
    and "run_state (ensure_nodebridge_in E dir) w = (Inr p, w')"
  shows "p = path_join dir ''nodebridge.js'' \<and>
    converged E dir {''nodebridge.js'', ''cdp_conn.js'', ''framing.js''} (kern w')"
proof -
  have "script_name ''nodebridge.js''" and "''nodebridge.js'' \<notin> set JS_SHARED"
    by (simp_all add: JS_SHARED_def script_name_def plain_segment_def is_ascii_digit_def code_def)
  from passesD [OF ends_cdp_bridge [OF assms(1,2) this] assms(3) assms(4) [unfolded ensure_nodebridge_in_def]]
  show ?thesis by (simp add: JS_SHARED_def)
qed

definition bridge_files :: "(string \<times> node) list" where
  "bridge_files = [(''/a'', Dir 0), (''/a/nodebridge.js'', File 1 ''nodebridge.js'' 0),
     (''/a/cdp_conn.js'', File 2 ''cdp_conn.js'' 0), (''/a/framing.js'', File 3 ''framing.js'' 0)]"

theorem bridge_converges_witness:
  "\<exists>(w :: world) w'. run_state (ensure_nodebridge_in (still_env brace_serde) ''/a'') w = (Inr ''/a/nodebridge.js'', w') \<and>
     converged (still_env brace_serde) ''/a'' {''nodebridge.js'', ''cdp_conn.js'', ''framing.js''} (kern w')"
proof -
  let ?E = "still_env brace_serde" and ?w = "world_of bridge_files"
  have run: "fst (run_state (ensure_nodebridge_in ?E ''/a'') ?w) = Inr ''/a/nodebridge.js''"
    by (simp add: ensure_nodebridge_in_def ensure_cdp_bridge_in_def check_provision_path_def refuse_provision_link_def
        refuse_symlink_def symlink_metadata_def State_Monad.bind_def k_lstat_def bridge_files_def path_join_def
        starts_with_def file_matches_def read_to_string_def k_read_to_string_def k_read_def k_stat_def follow_file
        ensure_js_shared_def JS_SHARED_def valid_utf8_ascii code_def Let_def)
  have "alone ?E" and "honest ?E" by (simp_all add: alone_def honest_def)
  moreover have "inodes_ok (kern ?w)"
    by (simp add: inodes_ok_world_of bridge_files_def)
  moreover obtain w' where "run_state (ensure_nodebridge_in ?E ''/a'') ?w = (Inr ''/a/nodebridge.js'', w')"
    using run by (metis prod.collapse)
  ultimately show ?thesis using bridge_converges [of ?E ?w "''/a''"] by blast
qed

section \<open>The failing compiler\<close>

lemma ends_write_sources:
  assumes "alone E" and "\<forall>m\<in>D \<union> set names. script_name m" and "distinct names" and "D \<inter> set names = {}"
  shows "ends (\<lambda>k. inodes_ok k \<and> converged E dir D k) (write_sources E dir names)
    (\<lambda>r k. r = Inr () \<longrightarrow> converged E dir (D \<union> set names) k)"
  using assms(2-)
proof (induction names arbitrary: D)
  case Nil
  show ?case by (simp, rule passes_ok, simp)
next
  case (Cons n names)
  have n: "plain_segment n" "script_name n" "n \<notin> D" "\<forall>m\<in>D. script_name m"
    using Cons.prems by (auto simp: script_name_def)
  have rest: "ends (\<lambda>k. inodes_ok k \<and> converged E dir (insert n D) k) (write_sources E dir names)
      (\<lambda>r k. r = Inr () \<longrightarrow> converged E dir (D \<union> set (n # names)) k)"
    using Cons.IH [of "insert n D"] Cons.prems by simp
  show ?case
    unfolding write_sources.simps
    by (rule passes_try [OF ends_atomic_write [OF assms(1) n]], rule passes_pre [OF rest]) auto
qed

lemma java_names: "\<forall>m\<in>set JAVA_SOURCES. script_name m" "distinct JAVA_SOURCES"
  by (simp_all add: JAVA_SOURCES_def script_name_def plain_segment_def is_ascii_digit_def code_def)

lemma answers_check_provision:
  assumes "quiet E" and "files k p = Some n" and "node_type n = (if want_dir then TDir else TFile)"
  shows "answers k (check_provision_path E p want_dir what) (Inr ())"
  unfolding check_provision_path_def refuse_provision_link_def refuse_symlink_def symlink_metadata_def
  by (rule answers_try [OF answers_bind [OF answers_look [OF assms(1)] answers_return [OF refl]]])
    (use assms in \<open>auto simp: k_lstat_def split: if_splits node.splits
       intro!: answers_bind [OF answers_look [OF assms(1)]] answers_return\<close>)

lemma answers_file_matches:
  assumes "quiet E" and "holds_text k p c" and "valid_utf8 c"
  shows "answers k (file_matches E p c) True"
proof -
  obtain i t where "files k p = Some (File i c t)" using assms(2) by (auto simp: holds_text_def)
  then have "k_read_to_string p k = Inr c"
    using assms(3) by (simp add: k_read_to_string_def k_read_def k_stat_def follow_file)
  then show ?thesis
    unfolding file_matches_def read_to_string_def
    by (intro answers_bind [OF answers_look [OF assms(1)]] answers_return) simp
qed

lemma answers_stale_sources:
  assumes "quiet E" and "converged E dir (set names) k" and "\<forall>n\<in>set names. valid_utf8 (embedded E n)"
  shows "answers k (stale_sources E dir names b) (Inr b)"
  using assms(2,3)
proof (induction names arbitrary: b)
  case Nil
  show ?case by (simp add: answers_lift)
next
  case (Cons n names)
  then obtain i t where n: "files k (path_join dir n) = Some (File i (embedded E n) t)"
    by (auto simp: holds_text_def)
  have held: "holds_text k (path_join dir n) (embedded E n)" using Cons.prems(1) by simp
  have rest: "answers k (stale_sources E dir names b) (Inr b)"
    using Cons by (simp add: converged_def)
  show ?case
    unfolding stale_sources.simps Let_def
    by (rule answers_try [OF answers_check_provision [OF assms(1) n]], simp)
      (use Cons.prems(2) rest in \<open>auto intro!: answers_bind [OF answers_file_matches [OF assms(1) held]]\<close>)
qed

lemma answers_any_missing:
  assumes "quiet E" and "\<forall>c\<in>set cs. is_file (files k (path_join classes (c @ ''.class'')))"
  shows "answers k (any_missing E classes cs) False"
  using assms(2)
proof (induction cs)
  case Nil
  show ?case by (simp add: answers_return)
next
  case (Cons c cs)
  then obtain i x t where "files k (path_join classes (c @ ''.class'')) = Some (File i x t)"
    by (auto elim: is_fileE)
  then have there: "answers k (exists E (path_join classes (c @ ''.class''))) True"
    using answers_exists [OF assms(1), of k "path_join classes (c @ ''.class'')"]
    by (simp add: k_stat_def follow_file)
  show ?case
    unfolding any_missing.simps by (rule answers_bind [OF there]) (use Cons in simp)
qed

text \<open>A failed compilation is forgotten: once the new Java sources have been written, a compiler that
  fails and leaves the classes of an earlier version in place makes the call fail only once; the next
  call finds sources and class files in place and hands out the old classes as compiled.\<close>

theorem compile_failure_forgotten:
  assumes "quiet E" and "adapter_dir E = Inr dir" and "inodes_ok (kern w)"
    and "\<forall>n\<in>set JAVA_SOURCES. valid_utf8 (embedded E n)"
    and "run_state (write_sources E dir JAVA_SOURCES) w = (Inr (), w1)"
    and "run_state (compile_java E dir (path_join dir ''classes'')) w1 = (Inl e, w2)" and "kern w2 = kern w1"
    and "is_dir (files (kern w2) dir)"
    and "\<forall>c\<in>set JAVA_CLASSES. is_file (files (kern w2) (path_join (path_join dir ''classes'') (c @ ''.class'')))"
  shows "fst (run_state (ensure_compiled_locked E) w2) = Inr (path_join dir ''classes'')"
proof -
  let ?k = "kern w2" and ?classes = "path_join dir ''classes''"
  have alone: "alone E" using assms(1) by (simp add: quiet_def)
  have "ends (\<lambda>k. inodes_ok k \<and> converged E dir {} k) (write_sources E dir JAVA_SOURCES)
      (\<lambda>r k. r = Inr () \<longrightarrow> converged E dir (set JAVA_SOURCES) k)"
    using ends_write_sources [OF alone, of "{}" JAVA_SOURCES] java_names by simp
  from passesD [OF this _ assms(5)] assms(3,7) have sources: "converged E dir (set JAVA_SOURCES) ?k"
    by (simp add: converged_def)
  obtain t where dir: "files ?k dir = Some (Dir t)" using assms(8) by (auto elim: is_dirE)
  note missing = answers_any_missing [OF assms(1,9)]
  have marker: "answers ?k (exists E (path_join ?classes ''JdiBridge.class'')) True"
  proof -
    have "is_file (files ?k (path_join ?classes ''JdiBridge.class''))"
      using assms(9) by (simp add: JAVA_CLASSES_def)
    then obtain i x t where "files ?k (path_join ?classes ''JdiBridge.class'') = Some (File i x t)"
      by (auto elim: is_fileE)
    then show ?thesis
      using answers_exists [OF assms(1), of ?k "path_join ?classes ''JdiBridge.class''"]
      by (simp add: k_stat_def follow_file)
  qed
  have fresh: "answers ?k (try_io (stale_sources E dir JAVA_SOURCES False) (\<lambda>stale.
      if \<not> stale then ok ?classes else rest)) (Inr ?classes)" for rest
    by (rule answers_try [OF answers_stale_sources [OF assms(1) sources assms(4)]]) (simp add: answers_lift)
  have "answers ?k (ensure_compiled_locked E) (Inr ?classes)"
    unfolding ensure_compiled_locked_def assms(2) Let_def
    by (rule answers_try [OF answers_lift(1)], simp,
        rule answers_try [OF answers_check_provision [OF assms(1) dir]], simp, simp,
        rule answers_bind [OF marker], simp, rule answers_bind [OF missing], rule fresh)
  then show ?thesis by (simp add: answers_def)
qed


subsection \<open>A compiler that is not there\<close>

lemma file_stem_chars: "plain_segment n \<Longrightarrow> file_stem (path_join d n) = Some s \<Longrightarrow> set s \<subseteq> set n"
proof -
  assume n: "plain_segment n" and s: "file_stem (path_join d n) = Some s"
  have "components (path_join d n) = components d @ [Normal n]"
    using n by (intro components_join) (auto simp: plain_segment_def is_slash_def)
  then have "file_name_of (path_join d n) = Some n" by (simp add: file_name_of_def)
  with s show ?thesis
    by (auto simp: file_stem_def Let_def split: option.splits if_splits dest: in_set_takeD)
qed

lemma slash_free_prefix: "CHR ''/'' \<notin> set x \<Longrightarrow> \<not> starts_with x ''/''"
  by (cases x) (auto simp: starts_with_def)

lemma provision_tmp_in_dir:
  assumes "plain_segment n" and "d \<noteq> []" and "last d \<noteq> CHR ''/''"
  shows "\<exists>x. CHR ''/'' \<notin> set x \<and> provision_tmp_path (path_join d n) pid j = d @ ''/'' @ x"
proof -
  obtain s where s: "file_stem (path_join d n) = Some s" using file_stem_join [OF assms(1)] by blast
  have n: "CHR ''/'' \<notin> set n" "\<not> starts_with n ''/''"
    using assms(1) by (auto simp: plain_segment_def starts_with_def) (cases n; auto)
  let ?x = "s @ ''.'' @ ''tmp.'' @ show_nat pid @ ''.'' @ show_nat (unat j)"
  have digits: "CHR ''/'' \<notin> set (show_nat m)" for m
    using show_nat_digits [of "CHR ''/''" m] by (auto simp: is_ascii_digit_def code_def)
  have stem: "CHR ''/'' \<notin> set s" using file_stem_chars [OF assms(1) s] n(1) by blast
  have x: "CHR ''/'' \<notin> set ?x" using digits stem by simp
  from slash_free_prefix [OF this] have "path_join d ?x = d @ ''/'' @ ?x" using assms(2,3) by (simp add: path_join_def)
  moreover have "path_join d n = d @ ''/'' @ n" using assms(2,3) n(2) by (simp add: path_join_def)
  ultimately have "provision_tmp_path (path_join d n) pid j = d @ ''/'' @ ?x"
    using parent_of_child [OF n(1), of d] assms(2) s
    by (simp add: provision_tmp_path_def with_extension_def with_file_name_def)
  with x show ?thesis by blast
qed

lemma write_via_quiet:
  assumes "quiet E" and "inodes_ok (kern w)" and "files (kern w) tmp = None" and "files (kern w) d = Some (Dir t)"
    and "parent_of tmp = Some d" and "parent_of dest = Some d" and "\<not> is_dir (files (kern w) dest)" and "tmp \<noteq> dest"
  shows "\<exists>w'. run_state (write_via E tmp dest source) w = (Inr (), w') \<and> inodes_ok (kern w') \<and>
    provision_counter w' = provision_counter w \<and>
    (\<forall>p. p \<noteq> dest \<longrightarrow> files (kern w') p = files (kern w) p) \<and> is_file (files (kern w') dest)"
proof -
  note quiet = quiet_simps [OF assms(1)]
  let ?k = "kern w" and ?i = "next_ino (kern w)" and ?t = "clock E (calls w)"
  let ?k1 = "put_node tmp (Some (File ?i [] ?t)) (?k\<lparr>next_ino := Suc ?i\<rparr>)"
  let ?u = "clock E (Suc (calls w))"
  let ?k2 = "append_ino ?i source ?u ?k1"
  have k1: "inodes_ok ?k1" using assms(2,3) by (rule inodes_ok_new)
  have k1': "files ?k1 tmp = Some (File ?i [] ?t)" by (simp add: put_node_def)
  have k2: "inodes_ok ?k2" "files ?k2 tmp = Some (File ?i source ?u)"
    "\<And>p. p \<noteq> tmp \<Longrightarrow> files ?k2 p = files ?k p"
    using inodes_ok_append [OF k1] append_ino_self [OF k1'] append_ino_other [OF k1 k1']
    by (simp_all add: put_node_def)
  have d: "d \<noteq> tmp" using assms(3,4) by auto
  let ?k3 = "?k2\<lparr>files := (files ?k2)(tmp := None, dest := Some (File ?i source ?u))\<rparr>"
  have create: "k_create_new tmp ?t ?k = (Inr ?i, ?k1)"
    using assms(3) parent_ok_dir [OF assms(5,4)] by (simp add: k_create_new_def k_create_def)
  have rename: "k_rename tmp dest ?k2 = (Inr (), ?k3)"
    using k2 d assms(4,7) assms(8) parent_ok_dir [OF assms(6), of ?k2 t] by (simp add: k_rename_def)
  have "inodes_ok ?k3" using inodes_ok_rename [OF k2(1,2) assms(8)] .
  moreover have "files ?k3 p = files ?k p" if "p \<noteq> dest" for p
    using that assms(3) k2(3) by simp
  ultimately show ?thesis
    by (simp add: write_via_def State_Monad.bind_def create_new_def rename_def sync_all_def quiet create rename)
qed

lemma write_sources_quiet:
  assumes "quiet E" and "d \<noteq> []" and "last d \<noteq> CHR ''/''" and "\<forall>n\<in>set names. script_name n"
    and "inodes_ok (kern w)" and "files (kern w) d = Some (Dir t)"
    and "\<forall>n\<in>set names. \<not> is_dir (files (kern w) (path_join d n))"
    and "\<forall>n j. script_name n \<longrightarrow> files (kern w) (provision_tmp_path (path_join d n) (process_id E) j) = None"
  shows "\<exists>w'. run_state (write_sources E d names) w = (Inr (), w') \<and>
    (\<forall>p. p \<notin> path_join d ` set names \<longrightarrow> files (kern w') p = files (kern w) p)"
  using assms(4-)
proof (induction names arbitrary: w)
  case (Cons n names)
  let ?w = "w\<lparr>provision_counter := provision_counter w + 1\<rparr>"
  let ?tmp = "provision_tmp_path (path_join d n) (process_id E) (provision_counter w)"
  have n: "plain_segment n" "script_name n" using Cons.prems(1) by (auto simp: script_name_def)
  have slash: "CHR ''/'' \<notin> set n" "\<not> starts_with n ''/''"
    using n(1) by (auto simp: plain_segment_def starts_with_def) (cases n; auto)
  have dest: "path_join d n = d @ ''/'' @ n" using slash(2) assms(2,3) by (simp add: path_join_def)
  obtain x where x: "CHR ''/'' \<notin> set x" "?tmp = d @ ''/'' @ x"
    using provision_tmp_in_dir [OF n(1) assms(2,3)] by blast
  have parents: "parent_of ?tmp = Some d" "parent_of (path_join d n) = Some d"
    using parent_of_child [OF x(1), of d] parent_of_child [OF slash(1), of d] x(2) dest by simp_all
  obtain w1 where w1: "run_state (write_via E ?tmp (path_join d n) (embedded E n)) ?w = (Inr (), w1)"
    "inodes_ok (kern w1)" "\<And>p. p \<noteq> path_join d n \<Longrightarrow> files (kern w1) p = files (kern w) p"
    "is_file (files (kern w1) (path_join d n))"
    using write_via_quiet [OF assms(1), of ?w ?tmp d t "path_join d n" "embedded E n"] Cons.prems n parents
      provision_tmp_apart [OF n(1,2)] by auto
  have neq: "d \<noteq> path_join d n" by (simp add: dest)
  have "\<exists>w'. run_state (write_sources E d names) w1 = (Inr (), w') \<and>
      (\<forall>p. p \<notin> path_join d ` set names \<longrightarrow> files (kern w') p = files (kern w1) p)"
  proof (rule Cons.IH)
    show "files (kern w1) d = Some (Dir t)" using w1(3) [OF neq] Cons.prems(3) by simp
    show "\<forall>m\<in>set names. \<not> is_dir (files (kern w1) (path_join d m))"
    proof
      fix m assume "m \<in> set names"
      with Cons.prems(4) w1(3,4) show "\<not> is_dir (files (kern w1) (path_join d m))"
        by (cases "path_join d m = path_join d n") (auto elim!: is_fileE)
    qed
    show "\<forall>m j. script_name m \<longrightarrow> files (kern w1) (provision_tmp_path (path_join d m) (process_id E) j) = None"
      using Cons.prems(5) w1(3) provision_tmp_apart n(2) by (metis script_name_def)
  qed (use Cons.prems w1(2) in auto)
  then obtain w' where w': "run_state (write_sources E d names) w1 = (Inr (), w')"
    "\<And>p. p \<notin> path_join d ` set names \<Longrightarrow> files (kern w') p = files (kern w1) p" by blast
  have "run_state (write_sources E d (n # names)) w = (Inr (), w')"
    using w1(1) w'(1)
    by (simp add: atomic_write_provisioned_def provision_tmp_name_def State_Monad.bind_def)
  moreover have "files (kern w') p = files (kern w) p" if "p \<notin> path_join d ` set (n # names)" for p
    using that w'(2) [of p] w1(3) [of p] by simp
  ultimately show ?case by blast
qed auto

definition old_classes :: "(string \<times> node) list" where
  "old_classes = (''/h/.agent-debugger/adapters/java'', Dir 0) #
     map (\<lambda>(i, c). (''/h/.agent-debugger/adapters/java/classes/'' @ c @ ''.class'', File i ''old'' 0)) (enumerate 1 JAVA_CLASSES)"

theorem compile_failure_forgotten_witness:
  "\<exists>(w1 :: world) w2 e. run_state (compile_java (still_env brace_serde) ''/h/.agent-debugger/adapters/java''
        ''/h/.agent-debugger/adapters/java/classes'') w1 = (Inl e, w2) \<and>
     fst (run_state (ensure_compiled_locked (still_env brace_serde)) w2) =
       Inr ''/h/.agent-debugger/adapters/java/classes''"
proof -
  let ?E = "still_env brace_serde" and ?d = "''/h/.agent-debugger/adapters/java''" and ?w = "world_of old_classes"
  have quiet: "quiet ?E" by (simp add: quiet_def alone_def)
  have dir: "adapter_dir ?E = Inr ?d" "path_join ?d ''classes'' = ''/h/.agent-debugger/adapters/java/classes''"
    by (simp_all add: adapter_dir_def adapter_path_def adapters_dir_def agent_home_def path_join_def starts_with_def
        and_then_def trim_def is_whitespace_single is_cont_def code_def)
  have inodes: "inodes_ok (kern ?w)"
    by (rule inodes_ok_world_of) (simp_all add: old_classes_def JAVA_CLASSES_def)
  have utf8: "\<forall>n\<in>set JAVA_SOURCES. valid_utf8 (embedded ?E n)"
    by (simp add: JAVA_SOURCES_def valid_utf8_ascii code_def)
  have d: "files (kern ?w) ?d = Some (Dir 0)" by (simp add: old_classes_def)
  have absent: "files (kern ?w) (?d @ ''/'' @ x) = None" if "CHR ''/'' \<notin> set x" for x
  proof -
    have "?d @ ''/'' @ x \<noteq> ''/h/.agent-debugger/adapters/java/classes/'' @ c @ ''.class''" for c
    proof
      assume "?d @ ''/'' @ x = ''/h/.agent-debugger/adapters/java/classes/'' @ c @ ''.class''"
      then have "x = ''classes/'' @ c @ ''.class''" by simp
      with that show False by simp
    qed
    then show ?thesis by (auto simp: old_classes_def map_of_eq_None_iff)
  qed
  have join: "path_join ?d n = ?d @ ''/'' @ n" "CHR ''/'' \<notin> set n" if "plain_segment n" for n
    using that by (auto simp: path_join_def plain_segment_def slash_free_prefix)
  have free: "\<forall>n j. script_name n \<longrightarrow> files (kern ?w) (provision_tmp_path (path_join ?d n) (process_id ?E) j) = None"
  proof (intro allI impI)
    fix n j assume "script_name n"
    then have "plain_segment n" by (simp add: script_name_def)
    from provision_tmp_in_dir [OF this, of ?d "process_id ?E" j] absent
    show "files (kern ?w) (provision_tmp_path (path_join ?d n) (process_id ?E) j) = None" by auto
  qed
  have no_dir: "\<forall>n\<in>set JAVA_SOURCES. \<not> is_dir (files (kern ?w) (path_join ?d n))"
    using join absent java_names(1) by (simp add: script_name_def)
  have d': "?d \<noteq> []" "last ?d \<noteq> CHR ''/''" by simp_all
  obtain w1 where w1: "run_state (write_sources ?E ?d JAVA_SOURCES) ?w = (Inr (), w1)"
    "\<And>p. p \<notin> path_join ?d ` set JAVA_SOURCES \<Longrightarrow> files (kern w1) p = files (kern ?w) p"
    using write_sources_quiet [OF quiet d' java_names(1) inodes d no_dir free] by blast
  obtain e w2 where w2: "run_state (compile_java ?E ?d (path_join ?d ''classes'')) w1 = (Inl e, w2)" "kern w2 = kern w1"
    by (simp add: compile_java_def run_with_timeout_def State_Monad.bind_def)
  have outside: "?d @ x \<notin> path_join ?d ` set JAVA_SOURCES" if "x = [] \<or> starts_with x ''/classes/''" for x
    using that join java_names(1) by (auto simp: script_name_def JAVA_SOURCES_def path_join_def starts_with_def)
  have dir2: "is_dir (files (kern w2) ?d)"
    using w1(2) [of ?d] outside [of "[]"] d w2(2) by simp
  have class_path: "path_join (path_join ?d ''classes'') (c @ ''.class'') = ?d @ ''/classes/'' @ c @ ''.class''"
    if "c \<in> set JAVA_CLASSES" for c
    using that by (auto simp: JAVA_CLASSES_def path_join_def starts_with_def)
  have old: "is_file (files (kern ?w) (?d @ ''/classes/'' @ c @ ''.class''))" if "c \<in> set JAVA_CLASSES" for c
    using that by (auto simp: JAVA_CLASSES_def old_classes_def)
  have classes: "\<forall>c\<in>set JAVA_CLASSES. is_file (files (kern w2) (path_join (path_join ?d ''classes'') (c @ ''.class'')))"
  proof
    fix c assume c: "c \<in> set JAVA_CLASSES"
    have "?d @ ''/classes/'' @ c @ ''.class'' \<notin> path_join ?d ` set JAVA_SOURCES"
      by (rule outside) (simp add: starts_with_def)
    from w1(2) [OF this] old [OF c] w2(2)
    show "is_file (files (kern w2) (path_join (path_join ?d ''classes'') (c @ ''.class'')))"
      unfolding class_path [OF c] by simp
  qed
  from compile_failure_forgotten [OF quiet dir(1) inodes utf8 w1(1) w2 dir2 classes] w2(1)
  show ?thesis unfolding dir(2) by blast
qed

section \<open>Waiting for another provision\<close>

lemma open_provision_calls:
  "run_state (open_provision_lock E path) w = (Inr h, w') \<Longrightarrow> calls w' = calls w + 4"
  by (auto simp: open_provision_lock_def refuse_provision_link_def refuse_symlink_def symlink_metadata_def
      State_Monad.bind_def open_handle_def handle_is_file_def split: option.splits sum.splits prod.splits if_splits)

text \<open>10001 passes of 20 ms fill the 200 seconds; the fuel of the production bounds is one more.\<close>

lemma provision_wait_bounded:
  assumes "ticks E (calls w + 6) 3 (clock E (calls w + 4)) PROVISION_LOCK_POLL" and "10001 \<le> m"
  shows "run_state (acquire_provision_lock_polls m E path PROVISION_LOCK_WAIT) w =
    run_state (acquire_provision_lock E path PROVISION_LOCK_WAIT PROVISION_LOCK_POLL) w"
proof -
  have fuel: "Suc (Suc (PROVISION_LOCK_WAIT div PROVISION_LOCK_POLL)) = 10002"
    by (simp add: PROVISION_LOCK_WAIT_def PROVISION_LOCK_POLL_def millis_def secs_def)
  have wait: "PROVISION_LOCK_WAIT = 10000 * PROVISION_LOCK_POLL"
    by (simp add: PROVISION_LOCK_WAIT_def PROVISION_LOCK_POLL_def millis_def secs_def)
  have poll: "run_state (poll_lock E m h (clock E (calls w + 4) + PROVISION_LOCK_WAIT) b f) v =
      run_state (poll_lock E 10002 h (clock E (calls w + 4) + PROVISION_LOCK_WAIT) b f) v"
    if "calls v = calls w + 5" for v h b f
  proof -
    have "ticks E (calls v + 1) 3 (clock E (calls w + 4)) PROVISION_LOCK_POLL"
      unfolding that using assms(1) by (simp add: add.commute)
    from lock_poll.enough_fuel [OF this, where n = 10000] assms(2) show ?thesis by (simp add: wait)
  qed
  show ?thesis
  proof (cases "run_state (open_provision_lock E path) w")
    case (Pair r w1)
    show ?thesis
    proof (cases r)
      case (Inr h)
      with Pair have "calls w1 = calls w + 4" by (simp add: open_provision_calls)
      with Pair Inr poll [of "moved E w1"] show ?thesis
        by (simp add: acquire_provision_lock_def fuel acquire_provision_lock_polls_def State_Monad.bind_def
            del: poll_lock.simps)
    qed (simp add: Pair acquire_provision_lock_def acquire_provision_lock_polls_def)
  qed
qed

end
