(* ===== verification/Close_Status.thy ===== *)
theory Close_Status
  imports Quiet Frame "HOL-Library.Option_ord"
begin

text \<open>
  \<open>src/session/close_status.rs\<close>: closing a session, re-reading its context, and the status rows. The
  wait for the daemon's death polls until a deadline; its fuel is justified below.
\<close>

section \<open>The gate in front of an unpublished directory\<close>

definition retry_shortly :: "string \<Rightarrow> 'a result" where
  "retry_shortly name = bail (''session '' @ quoted name @ '' is starting; retry shortly'')"

definition startup_close_gate :: "env \<Rightarrow> string \<Rightarrow> string \<Rightarrow> (unit result) io" where
  "startup_close_gate E sessions_root name = do {
     published \<leftarrow> exists E (path_join (path_join sessions_root name) ''session.json'');
     if published then ok ()
     else (let lock = startup_lock_path sessions_root name in do {
       raw \<leftarrow> read_lock_bytes E lock;
       (case raw of
          Inl _ \<Rightarrow> lift_result (retry_shortly name)
        | Inr None \<Rightarrow> ok ()
        | Inr (Some raw) \<Rightarrow> do {
            m \<leftarrow> lock_mtime E lock;
            (case m of
               Inl _ \<Rightarrow> lift_result (retry_shortly name)
             | Inr None \<Rightarrow> ok ()
             | Inr (Some mtime) \<Rightarrow> do {
                 stale \<leftarrow> stale_startup_mtime E mtime;
                 if \<not> stale then lift_result (retry_shortly name)
                 else do {
                   gone \<leftarrow> quarantine_verified E lock raw;
                   if gone then ok () else lift_result (retry_shortly name)
                 }
               })
          })
     })
   }"

section \<open>Context\<close>

definition field_or_null :: "json \<Rightarrow> string \<Rightarrow> json" where
  "field_or_null v k = (case json_get v k of None \<Rightarrow> VNull | Some x \<Rightarrow> x)"

definition cmd_context_target :: "env \<Rightarrow> string \<Rightarrow> string option \<Rightarrow> (json result) io" where
  "cmd_context_target E name target =
     try_io (lift_result (check_name name)) (\<lambda>_.
     try_io (forward_target E name (jobj [(''cmd'', VString ''context'')]) (secs 10) target) (\<lambda>resp.
     try_io (checked_session_dir E name) (\<lambda>dir. do {
       stops \<leftarrow> read_json_opt E (path_join dir ''stops.json'');
       session \<leftarrow> read_json_opt E (path_join dir ''session.json'');
       identity \<leftarrow> layered_identity_or_null E (Option.bind session (\<lambda>v. json_get v ''targetIdentity''));
       (let requested = (case stops of None \<Rightarrow> VNull | Some v \<Rightarrow> field_or_null v ''requestedTarget'') in
        ok (insert_if_object ''targetIdentity'' identity (insert_if_object ''requestedTarget'' requested resp)))
     })))"

section \<open>Deleting\<close>

definition delete_dir :: "env \<Rightarrow> string \<Rightarrow> (unit result) io" where
  "delete_dir E dir =
     try_io (real_dir_for_delete E dir ''cannot remove session'') (\<lambda>real.
     if \<not> real then err (Msg (''cannot remove session: '' @ dir @ '' does not exist''))
     else map_err (\<lambda>e. Msg (''cannot remove session: '' @ io_text e)) (remove_dir_all E dir))"

definition remove_unpublished_dir :: "env \<Rightarrow> string \<Rightarrow> string \<Rightarrow> string \<Rightarrow> bool \<Rightarrow> (unit result) io" where
  "remove_unpublished_dir E sessions_root name dir expect_unpublished = do {
     published \<leftarrow> exists E (path_join dir ''session.json'');
     starting \<leftarrow> (if published then State_Monad.return False
                  else exists E (startup_lock_path sessions_root name));
     if starting then lift_result (retry_shortly name)
     else do {
       appeared \<leftarrow> (if expect_unpublished then exists E (path_join dir ''session.json'')
                    else State_Monad.return False);
       if appeared then lift_result (retry_shortly name) else delete_dir E dir
     }
   }"

definition remove_dir_after_foreign_probe :: "env \<Rightarrow> string \<Rightarrow> (unit result) io" where
  "remove_dir_after_foreign_probe E dir = delete_dir E dir"

section \<open>Close\<close>

definition CLOSE_DEATH_WAIT :: nat where
  "CLOSE_DEATH_WAIT = secs 15"

definition CLOSE_DEATH_POLL :: nat where
  "CLOSE_DEATH_POLL = millis 200"

text \<open>As many polls as fit in the wait, and one.\<close>

definition CLOSE_DEATH_POLLS :: nat where
  "CLOSE_DEATH_POLLS = 76"

fun await_death :: "env \<Rightarrow> nat \<Rightarrow> u16 \<Rightarrow> nat \<Rightarrow> bool io" where
  "await_death E 0 port deadline = State_Monad.return False"
| "await_death E (Suc polls) port deadline = do {
     t \<leftarrow> now E;
     if deadline \<le> t then State_Monad.return False
     else do {
       c \<leftarrow> connect_port E port;
       (case c of
          Inl _ \<Rightarrow> State_Monad.return True
        | Inr _ \<Rightarrow> do { _ \<leftarrow> sleep E; await_death E polls port deadline })
     }
   }"

definition close_reply :: "string \<Rightarrow> bool \<Rightarrow> json" where
  "close_reply name confirmed =
     jobj [(''closed'', VString name), (''confirmed'', VBool confirmed), (''target'', VString ''main'')]"

definition cannot_close :: "string \<Rightarrow> string \<Rightarrow> string \<Rightarrow> string" where
  "cannot_close name what file =
     ''cannot close session '' @ quoted name @ '': '' @ what @ ''check '' @ file @
     '', fix or remove it explicitly, then retry''"

text \<open>The recorded port; \<open>None\<close> when there is no \<open>session.json\<close>.\<close>

definition close_port :: "env \<Rightarrow> string \<Rightarrow> string \<Rightarrow> (u16 option result) io" where
  "close_port E name dir = do {
     r \<leftarrow> read_session_file E dir;
     (let file = path_join dir ''session.json'' in
      State_Monad.return (case r of
         Inr v \<Rightarrow> (case u16_field v ''port'' of
             Some p \<Rightarrow> Inr (Some p)
           | None \<Rightarrow> bail (cannot_close name (''session file '' @ file @ '' has no valid port; '') file))
       | Inl (SessionNotFound _) \<Rightarrow> Inr None
       | Inl e \<Rightarrow> bail (cannot_close name (show_session_read_error e @ ''; '') file)))
   }"

definition close_tail :: "env \<Rightarrow> string \<Rightarrow> string \<Rightarrow> string \<Rightarrow> bool \<Rightarrow> bool \<Rightarrow> (json result) io" where
  "close_tail E sessions_root name dir unpublished confirmed = do {
     there \<leftarrow> exists E dir;
     if \<not> there then err (Msg (''no session '' @ quoted name))
     else try_io (remove_unpublished_dir E sessions_root name dir unpublished)
       (\<lambda>_. ok (close_reply name confirmed))
   }"

text \<open>Waiting until nothing answers on the port, then dropping the directory.\<close>

definition close_when_dead :: "nat \<Rightarrow> env \<Rightarrow> string \<Rightarrow> string \<Rightarrow> string \<Rightarrow> u16 \<Rightarrow> bool \<Rightarrow> (json result) io" where
  "close_when_dead polls E sessions_root name dir port confirmed = do {
     t \<leftarrow> now E;
     dead \<leftarrow> await_death E polls port (t + CLOSE_DEATH_WAIT);
     if \<not> dead then err (Msg (''session '' @ quoted name @ '' still listens on port '' @
       show_nat (unat port) @ ''; state preserved for retry''))
     else close_tail E sessions_root name dir False confirmed
   }"

definition close_published :: "env \<Rightarrow> string \<Rightarrow> string \<Rightarrow> string \<Rightarrow> u16 \<Rightarrow> (json result) io" where
  "close_published E sessions_root name dir port = do {
     resp \<leftarrow> ask_bridge E port (jobj [(''cmd'', VString ''close'')]) (secs 65);
     (let confirmed = (case resp of Inr v \<Rightarrow> is_ok v | Inl _ \<Rightarrow> False) in
      if confirmed then close_when_dead CLOSE_DEATH_POLLS E sessions_root name dir port True
      else do {
        p \<leftarrow> probe_session_bridge E port (secs 2);
        (case p of
           NotOurs _ \<Rightarrow> try_io (remove_dir_after_foreign_probe E dir) (\<lambda>_. ok (close_reply name False))
         | _ \<Rightarrow> close_when_dead CLOSE_DEATH_POLLS E sessions_root name dir port False)
      })
   }"

definition close_in :: "env \<Rightarrow> string \<Rightarrow> string \<Rightarrow> (json result) io" where
  "close_in E sessions_root name =
     try_io (lift_result (check_name name)) (\<lambda>_.
     let dir = path_join sessions_root name in
     try_io (check_dir_real E dir) (\<lambda>_.
     try_io (startup_close_gate E sessions_root name) (\<lambda>_.
     try_io (close_port E name dir) (\<lambda>port.
       (case port of
          None \<Rightarrow> close_tail E sessions_root name dir True False
        | Some p \<Rightarrow> close_published E sessions_root name dir p)))))"

definition close :: "env \<Rightarrow> string \<Rightarrow> (json result) io" where
  "close E name =
     try_io (checked_session_dir E name) (\<lambda>_.
     try_io (lift_result (sessions_dir E)) (\<lambda>root. close_in E root name))"

section \<open>Status\<close>

definition CARGO_PKG_VERSION :: string where
  "CARGO_PKG_VERSION = ''0.2.1''"

definition session_v2 :: "string option \<Rightarrow> json option \<Rightarrow> bool" where
  "session_v2 raw parsed =
     (case raw of None \<Rightarrow> True | Some _ \<Rightarrow> (case parsed of None \<Rightarrow> False | Some v \<Rightarrow> v2_object v))"

definition stranger_hint :: "u16 \<Rightarrow> string \<Rightarrow> string" where
  "stranger_hint port reason =
     ''port '' @ show_nat (unat port) @ '' is not this session'' @ [CHR 0x27] @ ''s debugger ('' @ reason @
     ''); close to clear''"

definition row_liveness :: "env \<Rightarrow> json \<Rightarrow> u16 \<Rightarrow> (bool \<times> string option) io" where
  "row_liveness E live port =
     (if port = 0 then State_Monad.return (False, None)
      else do {
        p \<leftarrow> probe_session_bridge E port (millis 300);
        (case p of
           Ours \<Rightarrow> State_Monad.return (True, None)
         | NotOurs reason \<Rightarrow> State_Monad.return (False, Some (stranger_hint port reason))
         | Unclear \<Rightarrow> do {
             recent \<leftarrow> published_recently E live (secs 120);
             State_Monad.return (recent, None)
           })
      })"

definition status_row ::
    "string \<Rightarrow> string \<Rightarrow> json \<Rightarrow> u16 \<Rightarrow> bool \<Rightarrow> json option \<Rightarrow> json \<Rightarrow> bool \<Rightarrow> json \<Rightarrow> json" where
  "status_row name lang live port alive stops identity current hint = jobj [
     (''name'', VString name), (''lang'', VString lang), (''kind'', field_or_null live ''kind''),
     (''port'', port_json port), (''alive'', VBool alive), (''stopped'', field_or_null live ''stopped''),
     (''lastStop'', field_or_null live ''lastStop''), (''updatedAt'', field_or_null live ''updatedAt''),
     (''armed'', case stops of None \<Rightarrow> VNull | Some v \<Rightarrow> stops_armed v),
     (''target'', case stops of None \<Rightarrow> VNull | Some v \<Rightarrow> field_or_null v ''target''),
     (''requestedTarget'', case stops of None \<Rightarrow> VNull | Some v \<Rightarrow> field_or_null v ''requestedTarget''),
     (''targetIdentity'', identity), (''stale'', VBool (\<not> current)), (''unsupported'', VBool (\<not> current)),
     (''hint'', hint)]"

definition session_entry :: "env \<Rightarrow> string \<Rightarrow> json io" where
  "session_entry E dir = do {
     let name = (case file_name_of dir of None \<Rightarrow> [] | Some n \<Rightarrow> from_utf8_lossy n);
     raw \<leftarrow> read_to_string E (path_join dir ''session.json'');
     let session_raw = to_option raw;
     let parsed = Option.bind session_raw (\<lambda>r. to_option (from_str (codec E) r));
     markers \<leftarrow> cli_markers_v2 E dir;
     let current = (markers \<and> session_v2 session_raw parsed);
     let live = (case parsed of None \<Rightarrow> jobj [] | Some v \<Rightarrow> v);
     let port = (case u16_field live ''port'' of None \<Rightarrow> 0 | Some p \<Rightarrow> p);
     (alive, alive_hint) \<leftarrow> row_liveness E live port;
     stops \<leftarrow> read_json_opt E (path_join dir ''stops.json'');
     identity \<leftarrow> layered_identity_or_null E (json_get live ''targetIdentity'');
     lang \<leftarrow> session_lang_opt E dir;
     State_Monad.return (status_row name (case lang of None \<Rightarrow> ''unknown'' | Some l \<Rightarrow> l) live port alive
       stops identity current
       (if current then opt_string alive_hint
        else VString (''close '' @ quoted name @ '' and recreate (unsupported schema v1)'')))
   }"

fun status_rows :: "env \<Rightarrow> string \<Rightarrow> string list \<Rightarrow> (json list) io" where
  "status_rows E root [] = State_Monad.return []"
| "status_rows E root (entry # entries) = do {
     m \<leftarrow> symlink_metadata E (path_join root entry);
     listed \<leftarrow> (if m = Inr TDir then do {
         d \<leftarrow> checked_session_dir E (from_utf8_lossy entry);
         State_Monad.return (case d of Inr _ \<Rightarrow> True | Inl _ \<Rightarrow> False)
       } else State_Monad.return False);
     row \<leftarrow> (if listed then do { r \<leftarrow> session_entry E (path_join root entry); State_Monad.return [r] }
            else State_Monad.return []);
     rows \<leftarrow> status_rows E root entries;
     State_Monad.return (row @ rows)
   }"

definition row_name :: "json \<Rightarrow> string option" where
  "row_name row = str_field row ''name''"

definition status :: "env \<Rightarrow> json io" where
  "status E = do {
     rows \<leftarrow> (case sessions_dir E of
         Inl _ \<Rightarrow> State_Monad.return []
       | Inr root \<Rightarrow> do {
           entries \<leftarrow> read_dir E root;
           (case entries of
              Inl _ \<Rightarrow> State_Monad.return []
            | Inr names \<Rightarrow> status_rows E root names)
         });
     State_Monad.return (jobj [(''version'', VString CARGO_PKG_VERSION),
       (''sessions'', VArray (sort_key row_name rows))])
   }"

section \<open>A starting session is not closed\<close>

lemma answers_young:
  assumes "quiet E" and "\<And>n. clock E n < m + secs 300"
  shows "answers k (stale_startup_mtime E m) False"
proof -
  have "\<not> (m \<le> clock E n \<and> STARTUP_LOCK_STALE \<le> clock E n - m)" for n
    using assms(2) [of n] unfolding STARTUP_LOCK_STALE_def by arith
  then show ?thesis
    by (simp add: answers_def stale_startup_mtime_def State_Monad.bind_def quiet_simps [OF assms(1)])
qed

lemma k_stat_none: "files k p = None \<Longrightarrow> k_stat p k = Inl (os NotFound)"
  by (simp add: k_stat_def follow_def numeral_eq_Suc)

lemma k_stat_file: "files k p = Some (File i c m) \<Longrightarrow> k_stat p k = Inr (File i c m)"
  by (simp add: k_stat_def follow_file)

lemma k_read_there: "files k p = Some (File i c t) \<Longrightarrow> valid_utf8 c \<Longrightarrow> k_read_to_string p k = Inr c"
  by (simp add: k_read_to_string_def k_read_def k_stat_file)

lemma k_read_missing: "files k p = None \<Longrightarrow> k_read_to_string p k = Inl (os NotFound)"
  by (simp add: k_read_to_string_def k_read_def k_stat_none)

lemma answers_gate_starting:
  assumes "quiet E" and "\<And>n. clock E n < m + secs 300"
    and "files k (path_join (path_join root name) ''session.json'') = None"
    and "files k (startup_lock_path root name) = Some (File i c m)"
  shows "answers k (startup_close_gate E root name) (retry_shortly name)"
proof -
  let ?lock = "startup_lock_path root name"
  have absent: "answers k (exists E (path_join (path_join root name) ''session.json'')) False"
    using answers_exists [OF assms(1), of k "path_join (path_join root name) ''session.json''"]
    by (simp add: k_stat_none assms(3))
  have bytes: "answers k (read_lock_bytes E ?lock)
      (if valid_utf8 c then Inr (Some c) else Inl (os InvalidData))"
    using answers_attempts [OF assms(1) answers_look [OF assms(1)], of 3 k "k_read_to_string ?lock"]
    by (cases "valid_utf8 c")
      (simp_all add: read_lock_bytes_def read_to_string_def k_read_to_string_def k_read_def k_stat_file [OF assms(4)])
  have mtime: "answers k (lock_mtime E ?lock) (Inr (Some m))"
    using answers_attempts [OF assms(1) answers_look [OF assms(1)], of 3 k
        "\<lambda>k. case k_stat ?lock k of Inl e \<Rightarrow> Inl e | Inr n \<Rightarrow> Inr (mtime_of n)"]
    by (simp add: lock_mtime_def modified_def k_stat_file [OF assms(4)])
  note young = answers_young [OF assms(1,2)]
  show ?thesis
    unfolding startup_close_gate_def Let_def
    by (rule answers_bind [OF absent], simp, rule answers_bind [OF bytes])
      (auto intro!: answers_lift answers_bind [OF mtime] answers_bind [OF young])
qed

text \<open>C7: Closing does not reap a session that is starting: while the directory has no \<open>session.json\<close>
  and its startup lock is younger than five minutes by every clock reading, \<open>close\<close> answers that
  the session is starting, and the file system is as it was.\<close>

theorem close_keeps_starting:
  assumes "quiet E" and "plain_segment name" and "is_dir (files (kern w) (path_join root name))"
    and "files (kern w) (path_join (path_join root name) ''session.json'') = None"
    and "files (kern w) (startup_lock_path root name) = Some (File i c m)"
    and "\<forall>n. clock E n < m + secs 300"
    and "run_state (close_in E root name) w = (r, w')"
  shows "r = retry_shortly name \<and> kern w' = kern w"
proof -
  have young: "clock E n < m + secs 300" for n using assms(6) by blast
  have "answers (kern w) (close_in E root name) (retry_shortly name)"
    unfolding close_in_def Let_def
    using answers_gate_starting [OF assms(1) young assms(4,5)]
    by (intro answers_try [OF answers_lift(1)])
      (auto simp: check_name_plain [THEN iffD2, OF assms(2)] retry_shortly_def bail_def
        intro!: answers_try [OF answers_check_dir [OF assms(1,3)]] answers_try)
  from answersD [OF this refl assms(7)] show ?thesis .
qed

definition starting_env :: env where
  "starting_env = (still_env brace_serde)\<lparr>clock := \<lambda>_. 6\<rparr>"

definition starting_world :: world where
  "starting_world = world_of [(''/s'', Dir 0), (''/s/x'', Dir 0), (''/s/x.lock'', File 1 ''7-1-0'' 5)]"

theorem close_keeps_starting_witness:
  "fst (run_state (close_in starting_env ''/s'' ''x'') starting_world) = retry_shortly ''x''"
proof -
  have quiet: "quiet starting_env" by (simp add: quiet_def alone_def starting_env_def)
  have plain: "plain_segment ''x''" by (simp add: plain_segment_def)
  have joins: "path_join ''/s'' ''x'' = ''/s/x''" "startup_lock_path ''/s'' ''x'' = ''/s/x.lock''"
    "path_join ''/s/x'' ''session.json'' = ''/s/x/session.json''"
    by (simp_all add: path_join_def starts_with_def startup_lock_path_def)
  from close_keeps_starting [OF quiet plain _ _ _ _ surjective_pairing, of starting_world "''/s''" 1 "''7-1-0''" 5]
  show ?thesis
    by (simp add: joins starting_world_def starting_env_def secs_def)
qed

section \<open>A live daemon keeps its state\<close>

lemma read_session_file_json:
  "json_at E k (path_join dir ''session.json'') = Some v \<Longrightarrow> quiet E \<Longrightarrow> answers k (read_session_file E dir) (Inr v)"
  unfolding read_session_file_def Let_def read_to_string_def
  by (rule answers_bind [OF answers_look], assumption)
    (auto simp: json_at_def bind_eq_Some_conv intro!: answers_return)

lemma answers_await_alive:
  assumes "quiet E" and "\<And>n. tcp_connect E n port = None"
  shows "answers k (await_death E polls port deadline) False"
proof (induction polls)
  case (Suc polls)
  show ?case
    unfolding answers_def
  proof (intro allI impI)
    fix w :: world assume w: "kern w = k"
    have rec: "answers k (do { _ \<leftarrow> sleep E; await_death E polls port deadline }) False"
      by (rule answers_bind [OF answers_sleep [OF assms(1)] Suc.IH])
    show "fst (run_state (await_death E (Suc polls) port deadline) w) = False \<and>
        kern (snd (run_state (await_death E (Suc polls) port deadline) w)) = k"
      using rec [unfolded answers_def, rule_format, of "moved E (moved E w)"] w
      by (simp add: State_Monad.bind_def quiet_simps [OF assms(1)] assms(2))
  qed
qed (simp add: answers_return)

definition still_listens :: "string \<Rightarrow> u16 \<Rightarrow> json result" where
  "still_listens name port = bail (''session '' @ quoted name @ '' still listens on port '' @
     show_nat (unat port) @ ''; state preserved for retry'')"

lemma answers_when_alive:
  assumes "quiet E" and "\<And>n. tcp_connect E n port = None"
  shows "answers k (close_when_dead polls E root name dir port confirmed) (still_listens name port)"
proof -
  have "answers k (do { dead \<leftarrow> await_death E polls port d;
      if \<not> dead then err (Msg (''session '' @ quoted name @ '' still listens on port '' @
        show_nat (unat port) @ ''; state preserved for retry''))
      else close_tail E root name dir False confirmed }) (still_listens name port)" for d
    by (rule answers_bind [OF answers_await_alive [OF assms]])
      (auto simp: still_listens_def bail_def intro!: answers_lift)
  then show ?thesis
    by (simp add: answers_def close_when_dead_def State_Monad.bind_def quiet_simps [OF assms(1)])
qed


definition live_env :: env where
  "live_env = (demo_env ''py'')\<lparr>tcp_connect := \<lambda>_ _. None\<rparr>"

lemma live_session:
  "quiet live_env" "path_join ''/h/.agent-debugger/sessions'' ''cart'' = demo_dir"
  "json_at live_env (kern demo_world) (path_join demo_dir ''session.json'') = Some demo_session"
  "u16_field demo_session ''port'' = Some 5678"
proof -
  show "quiet live_env" by (simp add: quiet_def alone_def live_env_def demo_env_def)
  show "path_join ''/h/.agent-debugger/sessions'' ''cart'' = demo_dir"
    by (simp add: path_join_def starts_with_def demo_dir_def)
  show "json_at live_env (kern demo_world) (path_join demo_dir ''session.json'') = Some demo_session"
    by (simp add: json_at_def k_read_to_string_def k_read_def k_stat_def follow_def numeral_eq_Suc live_env_def code_def)
  show "u16_field demo_session ''port'' = Some 5678"
    by (simp add: demo_session_def json_access num_def u16_try_from_def)
qed

lemma demo_probe: "probe_connection (demo_codec l) (answered (demo_exchange_of (demo_codec l) demo_reply)) = Some Ours"
proof -
  let ?sj = "demo_codec l"
  have len: "length (encode_message ?sj demo_reply @ []) \<le> PROBE_CAP"
    using length_frame_header_bound [of "Suc (Suc (Suc 0))"]
    by (simp add: encode_message_eq PROBE_CAP_def)
  have ours: "valid_breaks_envelope demo_reply"
    by (simp add: valid_breaks_envelope_def demo_reply_def json_access)
  have "probe_loop ?sj [] (steps (demo_exchange_of ?sj demo_reply) @ [hang_up]) = Some Ours"
    using probe_loop_verdict [OF demo_frameable len, of "steps (demo_exchange_of ?sj demo_reply)" "[]" "[hang_up]"] ours
    by (simp add: demo_exchange_of_def chunk_of_def encode_message_eq frame_header_def)
  then show ?thesis
    by (simp add: probe_connection_def answered_def demo_exchange_of_def)
qed


section \<open>The wait\<close>

definition death_pass :: "env \<Rightarrow> u16 \<Rightarrow> nat \<Rightarrow> bool option io" where
  "death_pass E port deadline = do {
     t \<leftarrow> now E;
     if deadline \<le> t then State_Monad.return (Some False)
     else do {
       c \<leftarrow> connect_port E port;
       (case c of
          Inl _ \<Rightarrow> State_Monad.return (Some True)
        | Inr _ \<Rightarrow> do { _ \<leftarrow> sleep E; State_Monad.return None })
     }
   }"

interpretation death_poll: polling E deadline 0 3 "\<lambda>n. await_death E n port deadline" "death_pass E port deadline"
  for E port deadline
  by unfold_locales
    (auto simp: death_pass_def State_Monad.bind_def split: option.splits sum.splits prod.splits if_splits)

lemma await_death_fuel:
  assumes "paced E first t poll" and "calls w = Suc first" and "deadline \<le> t + n * poll" and "n < m"
  shows "run_state (await_death E m port deadline) w = run_state (await_death E (Suc n) port deadline) w"
  using death_poll.fuel [of E w t poll deadline n m port] paced_ticks [OF assms(1)] assms(2-) by simp

text \<open>Waiting for a closed daemon to go ends: with a clock on which each poll takes its 200
  milliseconds, 76 polls are all that fit in the 15 seconds; allowing more changes nothing.\<close>

theorem close_wait_bounded:
  assumes "paced E (calls w) (clock E (calls w)) CLOSE_DEATH_POLL" and "CLOSE_DEATH_POLLS \<le> m"
  shows "run_state (close_when_dead m E root name dir port confirmed) w =
    run_state (close_when_dead CLOSE_DEATH_POLLS E root name dir port confirmed) w"
proof -
  have "run_state (await_death E m port (clock E (calls w) + CLOSE_DEATH_WAIT)) (moved E w) =
      run_state (await_death E (Suc 75) port (clock E (calls w) + CLOSE_DEATH_WAIT)) (moved E w)"
    by (rule await_death_fuel [OF assms(1)])
      (use assms(2) in \<open>simp_all add: CLOSE_DEATH_WAIT_def CLOSE_DEATH_POLL_def CLOSE_DEATH_POLLS_def millis_def secs_def\<close>)
  then show ?thesis
    by (simp add: close_when_dead_def State_Monad.bind_def CLOSE_DEATH_POLLS_def)
qed

theorem close_wait_bounded_witness:
  "run_state (close_when_dead 90 ((still_env brace_serde)\<lparr>clock := \<lambda>n. n * 200000000\<rparr>) ''/s'' ''x'' ''/s/x'' 80 True) (world_of []) =
   run_state (close_when_dead CLOSE_DEATH_POLLS ((still_env brace_serde)\<lparr>clock := \<lambda>n. n * 200000000\<rparr>) ''/s'' ''x'' ''/s/x'' 80 True) (world_of [])"
  by (rule close_wait_bounded) (simp_all add: paced_def CLOSE_DEATH_POLL_def CLOSE_DEATH_POLLS_def millis_def)

section \<open>Status\<close>

lemma inert_more:
  assumes "alone E"
  shows "inert E (read_to_string E p)" "inert E (read_json_opt E p)" "inert E (session_lang_opt E dir)"
    "inert E (symlink_metadata E p)" "inert E (now E)" "inert E (read_dir E p)" "inert E (cli_markers_v2 E dir)"
    "inert E (checked_session_dir E n)" "inert E (probe_session_bridge E port timeout)"
    "inert E (published_recently E v b)" "inert E (layered_identity_or_null E s)"
  by (rule inert_within [OF assms], rule kept.reads)+

lemma inert_session_entry:
  assumes "alone E"
  shows "inert E (session_entry E dir)"
proof -
  have "inert E (row_liveness E live port)" for live port
    unfolding row_liveness_def
    by (auto intro!: inert_bind inert_more [OF assms] inert_reads [OF assms] split: probe.split)
  then show ?thesis
    unfolding session_entry_def Let_def
    by (auto intro!: inert_bind inert_more [OF assms] inert_reads [OF assms] split: prod.split)
qed

lemma inert_status:
  assumes "alone E"
  shows "inert E (status E)"
proof -
  have "inert E (status_rows E root entries)" for root entries
    by (induction entries)
      (auto intro!: inert_bind inert_more [OF assms] inert_reads [OF assms] inert_session_entry [OF assms])
  then show ?thesis
    unfolding status_def
    by (auto intro!: inert_bind inert_more [OF assms] inert_reads [OF assms] split: sum.split)
qed

text \<open>Status only looks: nothing in the file system changes, and the rows come back sorted by
  session name.\<close>

theorem status_read_only:
  assumes "alone E" and "run_state (status E) w = (v, w')"
  shows "kern w' = kern w \<and> (\<exists>rows. json_get v ''sessions'' = Some (VArray rows) \<and> sorted (map row_name rows))"
proof -
  from assms(2) obtain rows where "v = jobj [(''version'', VString CARGO_PKG_VERSION),
       (''sessions'', VArray (sort_key row_name rows))]"
    by (auto simp: status_def State_Monad.bind_def split: prod.splits)
  with inertD [OF inert_status [OF assms(1)] assms(2)] show ?thesis by simp
qed

theorem status_read_only_witness:
  "kern (snd (run_state (status (still_env brace_serde)) (world_of []))) = kern (world_of [])"
proof -
  have "alone (still_env brace_serde)" by (simp add: alone_def)
  from status_read_only [OF this surjective_pairing] show ?thesis by blast
qed

end
