(* ===== verification/Spawn_Lifecycle.thy ===== *)
theory Spawn_Lifecycle
  imports Bridge Close_Status
begin

text \<open>
  \<open>src/session/spawn_lifecycle.rs\<close>: starting a session. The guards of the startup lock and the endpoint
  lock live until the function returns (\<open>holding\<close>), the wait for the first stop polls until the deadline,
  and every failure after the bridge was started reaps it and removes the directory.
\<close>

section \<open>The bridge process\<close>

definition VALIDATION_CAP :: nat where "VALIDATION_CAP = secs 60"

definition first_forward_timeout :: "env \<Rightarrow> nat \<Rightarrow> nat io" where
  "first_forward_timeout E deadline = do {
     t \<leftarrow> now E;
     State_Monad.return (min (deadline - t) VALIDATION_CAP)
   }"

definition lang_marker :: "string \<Rightarrow> string" where
  "lang_marker lang =
     ''{'' @ [CHR 0x22] @ ''lang'' @ [CHR 0x22] @ '':'' @ [CHR 0x22] @ lang @ [CHR 0x22] @ '','' @
     [CHR 0x22] @ ''schemaVersion'' @ [CHR 0x22] @ '':'' @ show_nat (unat SCHEMA_VERSION) @ ''}''"

definition script_args :: "string \<Rightarrow> spawn_spec \<Rightarrow> string \<Rightarrow> string list" where
  "script_args dir spec script = [script, ''session'', ''--kind'', spec_kind spec, ''--dir'', dir]"

text \<open>The adapter's program and its first arguments; the browser's also sets \<open>NODE_PATH\<close>.\<close>

definition bridge_program :: "env \<Rightarrow> string \<Rightarrow> spawn_spec \<Rightarrow> ((string \<times> string list) result) io" where
  "bridge_program E dir spec =
     (if spec_lang spec = ''py'' then
        try_io (ensure_py E) (\<lambda>interp.
        try_io (ensure_pybridge E) (\<lambda>script. ok (interp, script_args dir spec script)))
      else if spec_lang spec = ''node'' then
        try_io (ensure_node E) (\<lambda>bin.
        try_io (ensure_nodebridge E) (\<lambda>script.
        try_io (ensure_ws E) (\<lambda>_. ok (bin, script_args dir spec script))))
      else if spec_lang spec = ''browser'' then
        try_io (ensure_node E) (\<lambda>bin.
        try_io (ensure_browserbridge E) (\<lambda>script.
        try_io (ensure_ws E) (\<lambda>_.
        try_io (lift_result (node_modules_dir E)) (\<lambda>ws_dir. do {
          existing \<leftarrow> get_node_path;
          _ \<leftarrow> set_node_path (prepend_node_path ws_dir existing);
          ok (bin, script_args dir spec script)
        }))))
      else
        try_io (ensure_compiled E) (\<lambda>classes.
        ok (''java'', [''-cp'', classes, BRIDGE_MAIN_CLASS, ''session'', ''--kind'', spec_kind spec, ''--dir'', dir])))"

text \<open>The identity goes in front of the separator of the program's own arguments.\<close>

definition insert_before_separator :: "string list \<Rightarrow> string list \<Rightarrow> string list" where
  "insert_before_separator extra args =
     (if ''--'' \<in> set args
      then takeWhile (\<lambda>a. a \<noteq> ''--'') args @ extra @ dropWhile (\<lambda>a. a \<noteq> ''--'') args
      else args @ extra)"

definition start_bridge :: "env \<Rightarrow> spawn_spec \<Rightarrow> string \<Rightarrow> string list \<Rightarrow> (u32 result) io" where
  "start_bridge E spec program first_args =
     (let args = insert_before_separator
          [''--target-identity'', to_text (codec E) (spec_target_identity spec)] (first_args @ bridge_args spec) in
      try_io (map_err (\<lambda>e. Msg (io_text e)) (look E (\<lambda>k. Inr ()))) (\<lambda>_.
      map_err (\<lambda>e. Msg (program @ '' not found or failed to start: '' @ io_text e)) (launch E (program # args))))"

definition setup_bridge :: "env \<Rightarrow> string \<Rightarrow> spawn_spec \<Rightarrow> (u32 result) io" where
  "setup_bridge E dir spec =
     try_io (write_sidecar_atomic E dir ''lang.json'' (lang_marker (spec_lang spec))) (\<lambda>_.
     try_io (write_sidecar_atomic E dir ''stops.json'' (to_pretty (codec E) (spec_stops spec))) (\<lambda>_.
     let log_path = path_join dir ''bridge.log'' in
     try_io (refuse_symlink E log_path ''bridge log'') (\<lambda>_.
     try_io (map_err (\<lambda>e. Msg (''cannot create bridge log: '' @ io_text e)) (create_trunc E log_path)) (\<lambda>_.
     try_io (bridge_program E dir spec) (\<lambda>(program, args). start_bridge E spec program args)))))"

section \<open>Failures\<close>

definition attach_failure :: "string \<Rightarrow> string option \<Rightarrow> json \<Rightarrow> json \<Rightarrow> json \<Rightarrow> anyhow" where
  "attach_failure error cause diagnosis identity requested = Bridge
     \<lparr>bf_message = error,
      bf_cause = (case cause of Some c \<Rightarrow> if c \<noteq> [] \<and> c \<noteq> error then Some c else None | None \<Rightarrow> None),
      bf_wait_context = None, bf_diagnosis = Some diagnosis, bf_target_identity = Some identity,
      bf_requested_target = Some requested\<rparr>"

definition attach_config_failure :: "string \<Rightarrow> json \<Rightarrow> json \<Rightarrow> anyhow" where
  "attach_config_failure message identity requested = Bridge
     \<lparr>bf_message = message, bf_cause = None, bf_wait_context = None, bf_diagnosis = None,
      bf_target_identity = Some identity, bf_requested_target = Some requested\<rparr>"

definition attach_runtime_failure :: "string \<Rightarrow> json \<Rightarrow> json \<Rightarrow> anyhow" where
  "attach_runtime_failure message identity requested = Bridge
     \<lparr>bf_message = message, bf_cause = None, bf_wait_context = None, bf_diagnosis = None,
      bf_target_identity = Some identity, bf_requested_target = Some requested\<rparr>"

definition attach_setup_failure ::
    "env \<Rightarrow> string \<Rightarrow> u16 \<Rightarrow> bool option \<Rightarrow> string \<Rightarrow> spawn_spec \<Rightarrow> anyhow io" where
  "attach_setup_failure E host port pre message spec = do {
     post \<leftarrow> listener_present E host port;
     (let endpoint = display_endpoint host port;
          diagnosis = attach_diagnosis pre post endpoint;
          c = (case str_field diagnosis ''code'' of Some s \<Rightarrow> s | None \<Rightarrow> ''endpoint-unreachable'') in
      State_Monad.return (attach_failure (diagnosed_attach_error c endpoint) (Some (sanitize_cause message))
        diagnosis (spec_target_identity spec) (spec_requested spec)))
   }"

definition route_setup_failure ::
    "env \<Rightarrow> (string \<times> u16) option \<Rightarrow> bool option \<Rightarrow> string option \<Rightarrow> string \<Rightarrow> spawn_spec \<Rightarrow> anyhow io" where
  "route_setup_failure E endpoint pre phase message spec =
     (case endpoint of
        Some (host, port) \<Rightarrow>
          if is_config_phase phase then
            State_Monad.return (attach_config_failure message (spec_target_identity spec) (spec_requested spec))
          else if is_runtime_phase phase then
            State_Monad.return (attach_runtime_failure message (spec_target_identity spec) (spec_requested spec))
          else attach_setup_failure E host port pre message spec
      | None \<Rightarrow> State_Monad.return (Msg message))"

definition em_dash :: string where
  "em_dash = [CHR 0xE2, CHR 0x80, CHR 0x94]"

definition endpoint_owned_failure ::
    "string \<Rightarrow> bool \<Rightarrow> string \<Rightarrow> string \<Rightarrow> u16 \<Rightarrow> json \<Rightarrow> json \<Rightarrow> anyhow" where
  "endpoint_owned_failure owner in_progress lang host port owner_identity requested =
     (let endpoint = display_endpoint host port;
          message = ''attach failed: endpoint is already attached by session '' @ quoted owner @ '' ('' @
            lang @ '' '' @ endpoint @ '') '' @ em_dash @ '' use the existing session or '' @
            (if in_progress then ''wait and retry'' else ''close it first'');
          diagnosis = jobj [(''code'', VString ''endpoint-already-attached''), (''confidence'', VString ''high''),
            (''evidence'', jobj [(''endpoint'', VString endpoint), (''ownerSession'', VString owner),
               (''inProgress'', VBool in_progress)]),
            (''recommendation'', VString
               ''use the existing session for this endpoint, or close it first and retry'')] in
      attach_failure message None diagnosis owner_identity requested)"

definition legacy_live_failure :: "env \<Rightarrow> string \<Rightarrow> json \<Rightarrow> anyhow io" where
  "legacy_live_failure E names requested = do {
     identity \<leftarrow> unavailable_identity E ''live legacy session without layered identity'';
     (let message = ''attach failed: unsupported live legacy session(s) '' @ quoted names @
            ''; close them first and retry'';
          diagnosis = jobj [(''code'', VString ''unsupported-legacy-live''), (''confidence'', VString ''high''),
            (''evidence'', jobj [(''legacySessions'', VString names)]),
            (''recommendation'', VString ''close the listed legacy session(s) first and retry'')] in
      State_Monad.return (attach_failure message None diagnosis identity requested))
   }"

section \<open>What the bridge left on disk\<close>

record bridge_setup_error =
  setup_message :: string
  setup_phase :: "string option"
  setup_corrupt :: bool

definition setup_error_of :: "string \<Rightarrow> json option \<Rightarrow> bridge_setup_error" where
  "setup_error_of name parsed =
     (case Option.bind parsed (\<lambda>v. str_field v ''error'') of
        None \<Rightarrow> \<lparr>setup_message = ''bridge failed during setup (see bridge.log)'', setup_phase = None,
                 setup_corrupt = False\<rparr>
      | Some message \<Rightarrow>
          (let version_ok = (Option.bind parsed (\<lambda>v. u64_field v ''schemaVersion'') = Some SCHEMA_VERSION);
               phase = Option.bind parsed (\<lambda>v. str_field v ''phase'');
               phase_ok = (phase \<in> {Some ''transport'', Some ''config'', Some ''runtime''}) in
           if \<not> version_ok \<or> \<not> phase_ok then
             \<lparr>setup_message = ''corrupt setup error file in '' @ quoted name @
                '' (schemaVersion/phase); close and retry'', setup_phase = None, setup_corrupt = True\<rparr>
           else \<lparr>setup_message = message, setup_phase = phase, setup_corrupt = False\<rparr>))"

definition read_bridge_error :: "env \<Rightarrow> string \<Rightarrow> bridge_setup_error io" where
  "read_bridge_error E dir = do {
     parsed \<leftarrow> read_json_opt E (path_join dir ''error.json'');
     State_Monad.return (setup_error_of
       (case file_name_of dir of None \<Rightarrow> [] | Some n \<Rightarrow> from_utf8_lossy n) parsed)
   }"

text \<open>The last 500 characters.\<close>

definition last_chars :: "nat \<Rightarrow> string \<Rightarrow> string" where
  "last_chars n s = concat (rev (take n (rev (utf8_chars s))))"

definition read_log_tail :: "env \<Rightarrow> string \<Rightarrow> string io" where
  "read_log_tail E dir = do {
     raw \<leftarrow> read_to_string E (path_join dir ''bridge.log'');
     (let tail = last_chars 500 (case raw of Inl _ \<Rightarrow> [] | Inr s \<Rightarrow> s) in
      State_Monad.return (if trim tail = [] then ''no bridge log'' else ''bridge log tail: '' @ trim tail))
   }"

definition logs_value :: "nat \<Rightarrow> string list \<Rightarrow> json" where
  "logs_value tail lines =
     (let start = length lines - tail in
      jobj [(''total'', num (length lines)), (''truncated'', VBool (0 < start)),
        (''lines'', VArray (map VString (drop start lines)))])"

definition read_logs_file :: "env \<Rightarrow> string \<Rightarrow> nat \<Rightarrow> (json option) io" where
  "read_logs_file E dir tail = do {
     raw \<leftarrow> read_to_string E (path_join dir ''logs.jsonl'');
     State_Monad.return (case raw of
         Inl _ \<Rightarrow> None
       | Inr raw \<Rightarrow> if str_lines raw = [] then None else Some (logs_value tail (str_lines raw)))
   }"

definition nonempty :: "json \<Rightarrow> string \<Rightarrow> bool" where
  "nonempty stops key = (case array_field stops key of None \<Rightarrow> False | Some a \<Rightarrow> a \<noteq> [])"

definition logpoints_only_intent :: "json \<Rightarrow> bool" where
  "logpoints_only_intent stops =
     (nonempty stops ''logpoints'' \<and> \<not> nonempty stops ''breaks'' \<and> \<not> nonempty stops ''watches'' \<and>
      \<not> nonempty stops ''exits'')"

definition SETTLE_WAIT :: nat where "SETTLE_WAIT = millis 2000"
definition SETTLE_POLLS :: nat where "SETTLE_POLLS = 21"

fun settle_loop :: "env \<Rightarrow> nat \<Rightarrow> string \<Rightarrow> nat \<Rightarrow> (bridge_setup_error option) io" where
  "settle_loop E 0 dir deadline = State_Monad.return None"
| "settle_loop E (Suc polls) dir deadline = do {
     t \<leftarrow> now E;
     if deadline \<le> t then State_Monad.return None
     else do {
       _ \<leftarrow> sleep E;
       there \<leftarrow> exists E (path_join dir ''error.json'');
       if there then do { e \<leftarrow> read_bridge_error E dir; State_Monad.return (Some e) }
       else settle_loop E polls dir deadline
     }
   }"

definition settle_for_bridge_error :: "env \<Rightarrow> string \<Rightarrow> (bridge_setup_error option) io" where
  "settle_for_bridge_error E dir = do {
     there \<leftarrow> exists E (path_join dir ''error.json'');
     if there then do { e \<leftarrow> read_bridge_error E dir; State_Monad.return (Some e) }
     else do { t \<leftarrow> now E; settle_loop E SETTLE_POLLS dir (t + SETTLE_WAIT) }
   }"

section \<open>Waiting for the first stop\<close>

text \<open>What a start hands around: its name, directory, specification, endpoint, what was listening before
  the attach, the bridge's process and the deadline.\<close>

record start =
  start_name :: string
  start_dir :: string
  start_spec :: spawn_spec
  start_endpoint :: "(string \<times> u16) option"
  start_listener :: "bool option"
  start_child :: u32
  start_deadline :: nat

definition discard :: "env \<Rightarrow> start \<Rightarrow> unit io" where
  "discard E s = do {
     _ \<leftarrow> reap_child E (Some (start_child s));
     _ \<leftarrow> remove_dir_all E (start_dir s);
     State_Monad.return ()
   }"

definition fail_routed :: "env \<Rightarrow> start \<Rightarrow> string option \<Rightarrow> string \<Rightarrow> ('a result) io" where
  "fail_routed E s phase message = do {
     e \<leftarrow> route_setup_failure E (start_endpoint s) (start_listener s) phase message (start_spec s);
     err e
   }"

definition fail_with_setup_error :: "env \<Rightarrow> start \<Rightarrow> bridge_setup_error \<Rightarrow> ('a result) io" where
  "fail_with_setup_error E s failure = do {
     _ \<leftarrow> discard E s;
     if setup_corrupt failure then err (Msg (setup_message failure))
     else fail_routed E s (setup_phase failure) (setup_message failure)
   }"

text \<open>\<open>data["requestedTarget"] = ...; data["targetIdentity"] = ...\<close>; the data of a forwarded command is an
  object, so the assignments do not panic.\<close>

definition index_set_or :: "string \<Rightarrow> json \<Rightarrow> json \<Rightarrow> json" where
  "index_set_or k x v = (case index_set k x v of Some v' \<Rightarrow> v' | None \<Rightarrow> v)"

definition with_identity :: "env \<Rightarrow> start \<Rightarrow> json \<Rightarrow> (json result) io" where
  "with_identity E s data = do {
     identity \<leftarrow> cached_target_identity E (start_dir s);
     ok (index_set_or ''targetIdentity'' identity
       (index_set_or ''requestedTarget'' (spec_requested (start_spec s)) data))
   }"

definition first_command :: "json option \<Rightarrow> json" where
  "first_command session =
     (case Option.bind session (\<lambda>v. bool_field v ''stopped'') of
        Some False \<Rightarrow> jobj [(''cmd'', VString ''threads'')]
      | _ \<Rightarrow> jobj [(''cmd'', VString ''context'')])"

definition after_failed_forward :: "env \<Rightarrow> start \<Rightarrow> anyhow \<Rightarrow> (json result) io" where
  "after_failed_forward E s e = do {
     late \<leftarrow> settle_for_bridge_error E (start_dir s);
     (case late of
        Some failure \<Rightarrow> fail_with_setup_error E s failure
      | None \<Rightarrow> do {
          collected \<leftarrow> (if logpoints_only_intent (spec_stops (start_spec s)) then read_logs_file E (start_dir s) 50
                   else State_Monad.return None);
          (case collected of
             Some l \<Rightarrow> with_identity E s
               (jobj [(''warning'', VString (display e @ '' (target already exited)'')), (''logs'', l)])
           | None \<Rightarrow> do { _ \<leftarrow> discard E s; fail_routed E s None (display e) })
        })
   }"

definition first_request :: "env \<Rightarrow> start \<Rightarrow> (json result) io" where
  "first_request E s = do {
     session \<leftarrow> read_json_opt E (path_join (start_dir s) ''session.json'');
     timeout \<leftarrow> first_forward_timeout E (start_deadline s);
     r \<leftarrow> forward E (start_name s) (first_command session) timeout;
     (case r of Inr data \<Rightarrow> with_identity E s data | Inl e \<Rightarrow> after_failed_forward E s e)
   }"

definition bridge_exited :: "env \<Rightarrow> start \<Rightarrow> exit_status \<Rightarrow> (json result) io" where
  "bridge_exited E s st = do {
     log_tail \<leftarrow> read_log_tail E (start_dir s);
     _ \<leftarrow> remove_dir_all E (start_dir s);
     (let message = ''bridge exited during setup (code '' @ exit_text st @ ''). '' @ log_tail in
      case start_endpoint s of
        Some (host, port) \<Rightarrow> do {
          e \<leftarrow> attach_setup_failure E host port (start_listener s) message (start_spec s);
          err e
        }
      | None \<Rightarrow> err (Msg message))
   }"

definition timed_out :: "env \<Rightarrow> start \<Rightarrow> (json result) io" where
  "timed_out E s = do {
     _ \<leftarrow> reap_child E (Some (start_child s));
     log_tail \<leftarrow> read_log_tail E (start_dir s);
     _ \<leftarrow> remove_dir_all E (start_dir s);
     err (Msg (''timed out waiting for first breakpoint. '' @ log_tail @ ''. '' @
       spec_identity_hint (start_spec s)))
   }"

text \<open>One pass of the loop: an answer, or \<open>None\<close> after the pause.\<close>

definition wait_pass :: "env \<Rightarrow> start \<Rightarrow> (json result option) io" where
  "wait_pass E s = do {
     failed \<leftarrow> exists E (path_join (start_dir s) ''error.json'');
     if failed then do {
       failure \<leftarrow> read_bridge_error E (start_dir s);
       r \<leftarrow> fail_with_setup_error E s failure;
       State_Monad.return (Some r)
     }
     else do {
       published \<leftarrow> exists E (path_join (start_dir s) ''session.json'');
       if published then do { r \<leftarrow> first_request E s; State_Monad.return (Some r) }
       else do {
         ended \<leftarrow> try_wait E (start_child s);
         (case ended of
            Inr (Some st) \<Rightarrow> do { r \<leftarrow> bridge_exited E s st; State_Monad.return (Some r) }
          | _ \<Rightarrow> do {
              t \<leftarrow> now E;
              if start_deadline s < t then do { r \<leftarrow> timed_out E s; State_Monad.return (Some r) }
              else do { _ \<leftarrow> sleep E; State_Monad.return None }
            })
       }
     }
   }"

fun wait_ready :: "env \<Rightarrow> nat \<Rightarrow> start \<Rightarrow> (json result) io" where
  "wait_ready E 0 s = timed_out E s"
| "wait_ready E (Suc polls) s = do {
     r \<leftarrow> wait_pass E s;
     (case r of Some a \<Rightarrow> State_Monad.return a | None \<Rightarrow> wait_ready E polls s)
   }"

text \<open>A pass every 100 ms, and two.\<close>

definition SPAWN_POLL :: nat where "SPAWN_POLL = millis 100"

definition spawn_polls :: "u64 \<Rightarrow> nat" where
  "spawn_polls wait = unat wait * 10 + 2"

section \<open>Guards\<close>

text \<open>A lock held while \<open>m\<close> runs, and released by its nonce when it returns.\<close>

definition holding :: "(string \<Rightarrow> string \<Rightarrow> unit io) \<Rightarrow> lock_guard \<Rightarrow> 'a io \<Rightarrow> 'a io" where
  "holding release g m = do { r \<leftarrow> m; _ \<leftarrow> release (guard_path g) (guard_nonce g); State_Monad.return r }"

text \<open>A published session of this version is never replaced, an older one only when proven dead.\<close>

definition refuse_existing :: "env \<Rightarrow> string \<Rightarrow> string \<Rightarrow> (unit result) io" where
  "refuse_existing E dir name = do {
     published \<leftarrow> exists E (path_join dir ''session.json'');
     if \<not> published then ok ()
     else do {
       current \<leftarrow> cli_markers_v2 E dir;
       if current then err (Msg (''session '' @ quoted name @ '' already exists (close it first)''))
       else do {
         dead \<leftarrow> legacy_proven_dead E dir;
         if dead then ok ()
         else err (Msg (''unsupported session '' @ quoted name @ '' (schema v1; close it first)''))
       }
     }
   }"

definition owned_by ::
    "env \<Rightarrow> string \<Rightarrow> spawn_spec \<Rightarrow> string \<Rightarrow> u16 \<Rightarrow> string \<Rightarrow> bool \<Rightarrow> ('a result) io" where
  "owned_by E sessions_root spec host port owner in_progress = do {
     identity \<leftarrow> owner_target_identity E sessions_root owner;
     err (endpoint_owned_failure owner in_progress (spec_lang spec) host port identity (spec_requested spec))
   }"

definition drop_endpoint :: "env \<Rightarrow> lock_guard \<Rightarrow> unit io" where
  "drop_endpoint E g = release_endpoint_lock E (guard_path g) (guard_nonce g)"

text \<open>The scans under the endpoint lock, and the last look at the lock itself.\<close>

definition check_claimed ::
    "env \<Rightarrow> string \<Rightarrow> string \<Rightarrow> spawn_spec \<Rightarrow> string \<Rightarrow> u16 \<Rightarrow> lock_guard \<Rightarrow> (lock_guard result) io" where
  "check_claimed E sessions_root name spec host port g = do {
     owner \<leftarrow> find_live_endpoint_owner_in E sessions_root name host port;
     (case owner of
        Some other \<Rightarrow> do { _ \<leftarrow> drop_endpoint E g; owned_by E sessions_root spec host port other False }
      | None \<Rightarrow> do {
          legacy \<leftarrow> find_live_legacy_sessions_in E sessions_root name;
          if legacy \<noteq> [] then do {
            _ \<leftarrow> drop_endpoint E g;
            e \<leftarrow> legacy_live_failure E (join_with ([CHR 0x27] @ '', '' @ [CHR 0x27]) legacy) (spec_requested spec);
            err e
          }
          else do {
            mine \<leftarrow> still_holds_endpoint E g;
            if mine then ok g
            else do {
              cur \<leftarrow> endpoint_lock_session_name E (guard_path g);
              (let cur = (case cur of Some c \<Rightarrow> c | None \<Rightarrow> ''another session'') in do {
                published \<leftarrow> exists E (path_join (path_join sessions_root cur) ''session.json'');
                _ \<leftarrow> drop_endpoint E g;
                owned_by E sessions_root spec host port cur (\<not> published)
              })
            }
          }
        })
   }"

definition claim_attach ::
    "env \<Rightarrow> string \<Rightarrow> string \<Rightarrow> spawn_spec \<Rightarrow> (string \<times> u16) option \<Rightarrow> (lock_guard option result) io" where
  "claim_attach E sessions_root name spec endpoint =
     (case endpoint of
        None \<Rightarrow> ok None
      | Some (host, port) \<Rightarrow>
          try_io (lift_result (endpoint_locks_dir_for E sessions_root)) (\<lambda>locks.
          try_io (acquire_endpoint_lock E locks sessions_root name (spec_lang spec) (normalize_attach_host host) port) (\<lambda>claim.
          (case claim of
             Held g \<Rightarrow> try_io (check_claimed E sessions_root name spec host port g) (\<lambda>g. ok (Some g))
           | Busy busy \<Rightarrow> owned_by E sessions_root spec host port (busy_session busy) (\<not> busy_published busy)))))"

section \<open>Starting\<close>

definition k_create_dir :: "string \<Rightarrow> nat \<Rightarrow> kern \<Rightarrow> (io_error + unit) \<times> kern" where
  "k_create_dir p t k =
     (if files k p \<noteq> None then (Inl (os AlreadyExists), k)
      else if parent_ok k p then (Inr (), put_node p (Some (Dir t)) k)
      else (Inl (os NotFound), k))"

definition create_dir :: "env \<Rightarrow> string \<Rightarrow> (io_error + unit) io" where
  "create_dir E p = syscall E (k_create_dir p)"

definition fresh_dir :: "env \<Rightarrow> string \<Rightarrow> (unit result) io" where
  "fresh_dir E dir =
     try_io (real_dir_for_delete E dir ''cannot clear stale'') (\<lambda>real.
     try_io (if real then map_err (\<lambda>e. Msg (''cannot clear stale '' @ dir @ '': '' @ io_text e)) (remove_dir_all E dir)
             else ok ()) (\<lambda>_.
     try_io (map_err (\<lambda>e. Msg (''cannot create '' @ dir @ '': '' @ io_text e)) (create_dir E dir)) (\<lambda>_. do {
       _ \<leftarrow> remove_file E (path_join dir ''session.json'');
       _ \<leftarrow> remove_file E (path_join dir ''error.json'');
       _ \<leftarrow> remove_file E (path_join dir ''stops.json'');
       ok ()
     })))"

definition start_in ::
    "env \<Rightarrow> string \<Rightarrow> string \<Rightarrow> spawn_spec \<Rightarrow> (string \<times> u16) option \<Rightarrow> bool option \<Rightarrow> nat \<Rightarrow> (json result) io" where
  "start_in E name dir spec endpoint listener deadline =
     try_io (fresh_dir E dir) (\<lambda>_. do {
       child \<leftarrow> setup_bridge E dir spec;
       (case child of
          Inl e \<Rightarrow> do { _ \<leftarrow> remove_dir_all E dir; err e }
        | Inr pid \<Rightarrow> wait_ready E (spawn_polls (wait_secs spec))
            \<lparr>start_name = name, start_dir = dir, start_spec = spec, start_endpoint = endpoint,
             start_listener = listener, start_child = pid, start_deadline = deadline\<rparr>)
     })"

definition start_claimed :: "env \<Rightarrow> string \<Rightarrow> string \<Rightarrow> spawn_spec \<Rightarrow> nat \<Rightarrow> (json result) io" where
  "start_claimed E sessions_root name spec deadline =
     (let dir = path_join sessions_root name in
      try_io (refuse_existing E dir name) (\<lambda>_.
      try_io (lift_result (attach_endpoint spec)) (\<lambda>endpoint. do {
        listener \<leftarrow> (case endpoint of None \<Rightarrow> State_Monad.return None | Some (h, p) \<Rightarrow> listener_present E h p);
        try_io (claim_attach E sessions_root name spec endpoint) (\<lambda>guard.
          (case guard of
             None \<Rightarrow> start_in E name dir spec endpoint listener deadline
           | Some g \<Rightarrow> holding (release_endpoint_lock E) g (start_in E name dir spec endpoint listener deadline)))
      })))"

text \<open>An \<open>Instant\<close> holds 63 bits of seconds.\<close>

definition spawn_deadline :: "env \<Rightarrow> u64 \<Rightarrow> (nat result) io" where
  "spawn_deadline E wait = do {
     t \<leftarrow> now E;
     if 2 ^ 63 \<le> (t + secs wait) div secs 1 then err (Msg ''timeout is too large'') else ok (t + secs wait)
   }"

definition spawn_in :: "env \<Rightarrow> string \<Rightarrow> string \<Rightarrow> spawn_spec \<Rightarrow> (json result) io" where
  "spawn_in E sessions_root name spec =
     try_io (spawn_deadline E (wait_secs spec)) (\<lambda>deadline.
     try_io (lift_result (check_name name)) (\<lambda>_.
     try_io (check_dir_real E (path_join sessions_root name)) (\<lambda>_.
     try_io (map_err (\<lambda>e. Msg (''cannot create '' @ sessions_root @ '': '' @ io_text e))
       (create_dir_all E sessions_root)) (\<lambda>_.
     try_io (acquire_startup_lock E (startup_lock_path sessions_root name)) (\<lambda>g.
     holding (release_startup_lock E) g (start_claimed E sessions_root name spec deadline))))))"

definition spawn :: "env \<Rightarrow> string \<Rightarrow> spawn_spec \<Rightarrow> (json result) io" where
  "spawn E name spec =
     try_io (lift_result (sessions_dir E)) (\<lambda>root. spawn_in E root name spec)"

section \<open>What a failed start leaves\<close>

context reading
begin

lemma setup_failures: "within R (attach_setup_failure E host port pre message spec)"
  "within R (route_setup_failure E endpoint pre phase message spec)"
proof -
  show "within R (attach_setup_failure E host port pre message spec)" for host port
    by (auto simp: attach_setup_failure_def Let_def intro!: composed reads)
  then show "within R (route_setup_failure E endpoint pre phase message spec)"
    by (auto simp: route_setup_failure_def intro!: composed split: option.split prod.split)
qed

lemma left_on_disk: "within R (read_bridge_error E dir)" "within R (read_log_tail E dir)"
  "within R (read_logs_file E dir n)" "within R (settle_for_bridge_error E dir)" "within R (with_identity E s data)"
proof -
  show err: "within R (read_bridge_error E dir)"
    by (auto simp: read_bridge_error_def intro!: composed reads)
  have "within R (settle_loop E n dir deadline)" for n deadline
    by (induction n) (auto intro!: composed reads err)
  then show "within R (settle_for_bridge_error E dir)"
    by (auto simp: settle_for_bridge_error_def intro!: composed reads err)
  show "within R (read_log_tail E dir)" "within R (read_logs_file E dir n)" "within R (with_identity E s data)"
    by (auto simp: read_log_tail_def read_logs_file_def with_identity_def Let_def intro!: composed reads)
qed

end

text \<open>Programs that write nothing to the file system, and a log of commands that only grows.\<close>

definition harmless_programs :: "env \<Rightarrow> bool" where
  "harmless_programs E = (\<forall>n argv limit k. snd (runs E n argv limit k) = k)"

definition tame :: "env \<Rightarrow> world \<Rightarrow> world \<Rightarrow> bool" where
  "tame E w w' = ((alone E \<and> harmless_programs E \<longrightarrow> kern w' = kern w) \<and>
     (\<exists>new. commands w' = commands w @ new))"

interpretation tame: reading "tame E" E for E
  by unfold_locales (auto simp: tame_def alone_def seen_def)

lemma tame_programs: "within (tame E) (run_program E argv limit)" "within (tame E) (try_wait E pid)"
  by (auto simp: within_def tame_def harmless_programs_def alone_def seen_def)

lemma tame_each: "(\<And>x. within (tame E) (f x)) \<Longrightarrow> within (tame E) (each_io f xs)"
  by (induction xs) (auto intro!: tame.composed)

lemma tame_kill_tree: "within (tame E) (kill_tree E d p)"
  by (induction d arbitrary: p) (auto intro!: tame.composed tame_programs tame_each)

lemma tame_reap: "within (tame E) (reap_child E c)"
proof -
  have await: "within (tame E) (await_exit E n p deadline)" for n p deadline
    by (induction n) (auto intro!: tame.composed tame.reads split: sum.split option.split)
  show ?thesis
    by (auto simp: reap_child_def terminate_child_def
        intro!: tame.composed tame.reads tame_programs tame_kill_tree await split: option.split)
qed

text \<open>The bridge was told to end, or was seen to have ended.\<close>

definition stopped_bridge :: "env \<Rightarrow> u32 \<Rightarrow> world \<Rightarrow> world \<Rightarrow> bool" where
  "stopped_bridge E pid w w' =
     ((\<exists>new. commands w' = commands w @ new \<and> [''kill'', pid_text pid] \<in> set new) \<or>
      (\<exists>n s. reaped E n pid = Inr (Some s)))"

definition without_dir :: "string \<Rightarrow> kern \<Rightarrow> kern" where
  "without_dir dir k = k\<lparr>files := (\<lambda>q. if below dir q then None else files k q)\<rparr>"

lemma reap_stops: "run_state (reap_child E (Some pid)) w = (r, w') \<Longrightarrow> stopped_bridge E pid w w'"
proof -
  assume reap: "run_state (reap_child E (Some pid)) w = (r, w')"
  obtain w1 where w1: "run_state (terminate_child E pid) w = ((), w1)" "commands w1 = commands w @ [[''kill'', pid_text pid]]"
    by (simp add: terminate_child_def State_Monad.bind_def)
  let ?rest = "do {
     t \<leftarrow> now E;
     gone \<leftarrow> await_exit E REAP_POLLS pid (t + REAP_GRACE);
     if gone then State_Monad.return () else do { _ \<leftarrow> kill_tree E KILL_DEPTH pid; sleep E } }"
  have await: "logs (await_exit E n pid d)" for n d
    by (induction n) (auto intro!: logs_rules split: sum.split option.split)
  have rest: "logs ?rest" by (auto intro!: logs_rules await)
  have "run_state ?rest w1 = (r, w')"
    using reap w1 by (simp add: reap_child_def State_Monad.bind_def)
  from logsD [OF rest this] obtain new where "commands w' = commands w1 @ new" by blast
  with w1(2) show ?thesis by (auto simp: stopped_bridge_def)
qed

text \<open>A program that either answers and leaves the files as they were, or fails and leaves the bridge
  stopped and its directory gone, the other files as they were.\<close>

definition clean :: "env \<Rightarrow> start \<Rightarrow> ('a result) io \<Rightarrow> bool" where
  "clean E s m = (\<forall>w r w'. is_dir (files (kern w) (start_dir s)) \<longrightarrow> run_state m w = (r, w') \<longrightarrow>
     (case r of Inr _ \<Rightarrow> kern w' = kern w
      | Inl _ \<Rightarrow> kern w' = without_dir (start_dir s) (kern w) \<and> stopped_bridge E (start_child s) w w'))"

lemma cleanD:
  assumes "clean E s m" and "is_dir (files (kern w) (start_dir s))" and "run_state m w = (r, w')"
  shows "case r of Inr _ \<Rightarrow> kern w' = kern w
    | Inl _ \<Rightarrow> kern w' = without_dir (start_dir s) (kern w) \<and> stopped_bridge E (start_child s) w w'"
  using assms unfolding clean_def by blast

lemma stopped_later: "tame E w w1 \<Longrightarrow> stopped_bridge E pid w1 w' \<Longrightarrow> stopped_bridge E pid w w'"
  by (auto simp: tame_def stopped_bridge_def)

lemma stopped_still: "stopped_bridge E pid w w1 \<Longrightarrow> tame E w1 w' \<Longrightarrow> stopped_bridge E pid w w'"
  by (auto simp: tame_def stopped_bridge_def)

lemma clean_bind:
  assumes "quiet E" and "harmless_programs E" and "within (tame E) m"
    and "\<And>a w w'. run_state m w = (a, w') \<Longrightarrow> clean E s (f a)"
  shows "clean E s (State_Monad.bind m f)"
  unfolding clean_def
proof (intro allI impI)
  fix w r w'
  assume d: "is_dir (files (kern w) (start_dir s))" and run: "run_state (State_Monad.bind m f) w = (r, w')"
  obtain a w1 where m: "run_state m w = (a, w1)" by fastforce
  have t: "tame E w w1" by (rule withinD [OF assms(3) m])
  then have k: "kern w1 = kern w" using assms(1,2) by (simp add: tame_def quiet_def)
  from run m have "run_state (f a) w1 = (r, w')" by (simp add: State_Monad.bind_def)
  from cleanD [OF assms(4) [OF m] _ this] d k
  show "case r of Inr _ \<Rightarrow> kern w' = kern w
    | Inl _ \<Rightarrow> kern w' = without_dir (start_dir s) (kern w) \<and> stopped_bridge E (start_child s) w w'"
    by (auto split: sum.splits intro: stopped_later [OF t])
qed

lemma clean_answer:
  assumes "quiet E" and "harmless_programs E" and "within (tame E) m" and "\<And>w. \<exists>a. fst (run_state m w) = Inr a"
  shows "clean E s m"
  unfolding clean_def
proof (intro allI impI)
  fix w r w' assume m: "run_state m w = (r, w')"
  then have "kern w' = kern w" using withinD [OF assms(3) m] assms(1,2) by (simp add: tame_def quiet_def)
  moreover obtain a where "r = Inr a" using assms(4) [of w] m by auto
  ultimately show "case r of Inr _ \<Rightarrow> kern w' = kern w
    | Inl _ \<Rightarrow> kern w' = without_dir (start_dir s) (kern w) \<and> stopped_bridge E (start_child s) w w'" by simp
qed

text \<open>The bridge stopped by \<open>m\<close>, its directory removed, and then only a message made.\<close>

lemma clean_failure:
  assumes "quiet E" and "harmless_programs E" and "within (tame E) m"
    and "\<And>w r w'. run_state m w = (r, w') \<Longrightarrow> stopped_bridge E (start_child s) w w'"
    and "\<And>a b. within (tame E) (f a b)" and "\<And>a b w. \<exists>e. fst (run_state (f a b) w) = Inl e"
  shows "clean E s (do { a \<leftarrow> m; b \<leftarrow> remove_dir_all E (start_dir s); f a b })"
  unfolding clean_def
proof (intro allI impI)
  fix w r w'
  assume d: "is_dir (files (kern w) (start_dir s))"
    and run: "run_state (do { a \<leftarrow> m; b \<leftarrow> remove_dir_all E (start_dir s); f a b }) w = (r, w')"
  obtain a w1 where m: "run_state m w = (a, w1)" by fastforce
  have t: "tame E w w1" by (rule withinD [OF assms(3) m])
  then have k: "kern w1 = kern w" using assms(1,2) by (simp add: tame_def quiet_def)
  obtain b w2 where rm: "run_state (remove_dir_all E (start_dir s)) w1 = (b, w2)" by fastforce
  have k2: "kern w2 = without_dir (start_dir s) (kern w)" and c2: "commands w2 = commands w1"
    using rm d k assms(1)
    by (auto simp: remove_dir_all_def quiet_simps k_remove_dir_all_def without_dir_def elim!: is_dirE cong: if_cong)
  have rest: "run_state (f a b) w2 = (r, w')" using run m rm by (simp add: State_Monad.bind_def)
  have t2: "tame E w2 w'" by (rule withinD [OF assms(5) rest])
  obtain e where "r = Inl e" using assms(6) [of a b w2] rest by auto
  moreover have "kern w' = kern w2" using t2 assms(1,2) by (simp add: tame_def quiet_def)
  moreover have "stopped_bridge E (start_child s) w w2"
    using assms(4) [OF m] c2 by (simp add: stopped_bridge_def)
  ultimately show "case r of Inr _ \<Rightarrow> kern w' = kern w
    | Inl _ \<Rightarrow> kern w' = without_dir (start_dir s) (kern w) \<and> stopped_bridge E (start_child s) w w'"
    using k2 by (auto intro: stopped_still [OF _ t2])
qed

lemma discard_stops:
  assumes "quiet E" and "harmless_programs E" and "\<And>a b. within (tame E) (f a b)"
    and "\<And>a b w. \<exists>e. fst (run_state (f a b) w) = Inl e"
  shows "clean E s (do { a \<leftarrow> reap_child E (Some (start_child s)); b \<leftarrow> remove_dir_all E (start_dir s); f a b })"
  by (rule clean_failure [OF assms(1,2) tame_reap reap_stops assms(3,4)])

lemma fails_routed: "\<exists>e. fst (run_state (fail_routed E s phase message) w) = Inl e"
  "within (tame E) (fail_routed E s phase message)"
  by (simp add: fail_routed_def State_Monad.bind_def split: prod.split)
    (auto simp: fail_routed_def intro!: tame.composed tame.setup_failures)

lemma clean_setup_error:
  assumes "quiet E" and "harmless_programs E"
  shows "clean E s (fail_with_setup_error E s failure)"
proof -
  have "clean E s (do { a \<leftarrow> reap_child E (Some (start_child s)); b \<leftarrow> remove_dir_all E (start_dir s);
      if setup_corrupt failure then err (Msg (setup_message failure))
      else fail_routed E s (setup_phase failure) (setup_message failure) })"
    by (rule discard_stops [OF assms]) (auto intro!: tame.composed simp: fails_routed)
  then show ?thesis by (simp add: fail_with_setup_error_def discard_def)
qed

lemma answers_with_identity: "\<exists>a. fst (run_state (with_identity E s data) w) = Inr a"
  by (simp add: with_identity_def State_Monad.bind_def split: prod.split)

lemma clean_first_request:
  assumes "quiet E" and "harmless_programs E"
  shows "clean E s (first_request E s)"
proof -
  note later = clean_bind [OF assms]
  have answer: "clean E s (with_identity E s data)" for data
    by (rule clean_answer [OF assms]) (rule tame.left_on_disk answers_with_identity)+
  have route: "clean E s (do { _ \<leftarrow> discard E s; fail_routed E s None message })" for message
    using discard_stops [OF assms fails_routed(2) fails_routed(1)] by (simp add: discard_def)
  have "clean E s (after_failed_forward E s e)" for e
    unfolding after_failed_forward_def
    by (rule later) (auto intro!: later tame.composed tame.left_on_disk answer route clean_setup_error [OF assms]
        split: option.split)
  then show ?thesis
    by (auto simp: first_request_def first_forward_timeout_def
        intro!: later tame.composed tame.reads answer split: sum.split)
qed

lemma clean_timed_out:
  assumes "quiet E" and "harmless_programs E"
  shows "clean E s (timed_out E s)"
proof -
  let ?m = "do { _ \<leftarrow> reap_child E (Some (start_child s)); read_log_tail E (start_dir s) }"
  have m: "within (tame E) ?m" by (intro tame.composed tame_reap tame.left_on_disk)
  have stops: "stopped_bridge E (start_child s) w w'" if "run_state ?m w = (r, w')" for w r w'
  proof -
    obtain w1 where 1: "run_state (reap_child E (Some (start_child s))) w = ((), w1)"
      by (cases "run_state (reap_child E (Some (start_child s))) w") auto
    with that have "run_state (read_log_tail E (start_dir s)) w1 = (r, w')" by (simp add: State_Monad.bind_def)
    from stopped_still [OF reap_stops [OF 1] withinD [OF tame.left_on_disk(2) this]] show ?thesis .
  qed
  have "clean E s (do { log_tail \<leftarrow> ?m; b \<leftarrow> remove_dir_all E (start_dir s);
      err (Msg (''timed out waiting for first breakpoint. '' @ log_tail @ ''. '' @ spec_identity_hint (start_spec s))) })"
    by (rule clean_failure [OF assms m stops]) (auto intro!: tame.composed)
  then show ?thesis by (simp add: timed_out_def)
qed

lemma clean_bridge_exited:
  assumes "quiet E" and "harmless_programs E" and "reaped E n (start_child s) = Inr (Some st)"
  shows "clean E s (bridge_exited E s st)"
  unfolding bridge_exited_def
proof (rule clean_failure [OF assms(1,2) tame.left_on_disk(2)])
  show "stopped_bridge E (start_child s) w w'" for w w'
    using assms(3) by (auto simp: stopped_bridge_def)
  fix log_tail b
  show "within (tame E) (let message = ''bridge exited during setup (code '' @ exit_text st @ ''). '' @ log_tail in
      (case start_endpoint s of
        Some (host, port) \<Rightarrow> do {
          e \<leftarrow> attach_setup_failure E host port (start_listener s) message (start_spec s);
          err e
        }
      | None \<Rightarrow> (err (Msg message) :: (json result) io)))"
    by (auto simp: Let_def intro!: tame.composed tame.setup_failures split: option.split)
qed (simp add: Let_def State_Monad.bind_def split: option.split prod.split)

lemma clean_wait_ready:
  assumes "quiet E" and "harmless_programs E"
  shows "clean E s (wait_ready E n s)"
proof (induction n)
  case 0
  show ?case by (simp add: clean_timed_out [OF assms])
next
  case (Suc n)
  have unfold: "wait_ready E (Suc n) s = do {
     failed \<leftarrow> exists E (path_join (start_dir s) ''error.json'');
     if failed then do { failure \<leftarrow> read_bridge_error E (start_dir s); fail_with_setup_error E s failure }
     else do {
       published \<leftarrow> exists E (path_join (start_dir s) ''session.json'');
       if published then first_request E s
       else do {
         ended \<leftarrow> try_wait E (start_child s);
         (case ended of
            Inr (Some st) \<Rightarrow> bridge_exited E s st
          | _ \<Rightarrow> do {
              t \<leftarrow> now E;
              if start_deadline s < t then timed_out E s else do { _ \<leftarrow> sleep E; wait_ready E n s }
            })
       }
     }
   }"
    by (simp add: wait_pass_def if_distrib [where f = "\<lambda>m. State_Monad.bind m f" for f]
        sum.case_distrib [where h = "\<lambda>m. State_Monad.bind m f" for f]
        option.case_distrib [where h = "\<lambda>m. State_Monad.bind m f" for f] cong: if_cong sum.case_cong option.case_cong)
  note later = clean_bind [OF assms]
  show ?case
    unfolding unfold
    by (auto intro!: later tame.reads tame.left_on_disk clean_setup_error [OF assms] clean_first_request [OF assms]
        clean_timed_out [OF assms] Suc clean_bridge_exited [OF assms] split: sum.split option.split)
qed



definition demo_spec :: spawn_spec where
  "demo_spec = \<lparr>spec_lang = ''node'', spec_kind = ''launch'', bridge_args = [], wait_secs = 5,
     spec_stops = jobj [], spec_requested = VNull, spec_target_identity = VNull, spec_identity_hint = []\<rparr>"

definition demo_start :: start where
  "demo_start = \<lparr>start_name = ''x'', start_dir = ''/s/x'', start_spec = demo_spec, start_endpoint = None,
     start_listener = None, start_child = 7, start_deadline = 5000000000\<rparr>"

definition gone_env :: env where
  "gone_env = (still_env brace_serde)\<lparr>reaped := \<lambda>n pid. Inr (Some (ExitStatus False ''exit status: 1''))\<rparr>"

lemma reaped_gone: "reaped gone_env n pid = Inr (Some (ExitStatus False ''exit status: 1''))"
  by (simp add: gone_env_def)


section \<open>One start at a time\<close>

lemma idle_writes: "within (\<lambda>w w'. commands w' = commands w) (syscall E f)"
  "within (\<lambda>w w'. commands w' = commands w) (write_all E i s)"
  "within (\<lambda>w w'. commands w' = commands w) (startup_nonce E)"
  by (auto simp: within_def startup_nonce_def next_nonce_def State_Monad.bind_def split: option.split)

lemma idle_acquire: "within (\<lambda>w w'. commands w' = commands w) (acquire_startup_lock E path)"
proof -
  note rules = idle.composed idle.reads idle_writes
  have tries: "within (\<lambda>w w'. commands w' = commands w) (attempts E n m l)"
    if "within (\<lambda>w w'. commands w' = commands w) m" for n l and m :: "(io_error + 'a) io"
    using that by (induction n arbitrary: l) (auto intro!: rules split: sum.split)
  have wrote: "within (\<lambda>w w'. commands w' = commands w) (write_lock_record E f path n)" for f n
    by (auto simp: write_lock_record_def sync_all_def remove_file_def intro!: rules split: sum.split)
  have claim: "within (\<lambda>w w'. commands w' = commands w) (claim_stale_startup_lock E path)"
    by (auto simp: claim_stale_startup_lock_def create_new_def intro!: rules wrote)
  have read: "within (\<lambda>w w'. commands w' = commands w) (read_lock_bytes E path)" for path
    by (auto simp: read_lock_bytes_def intro!: tries rules)
  have restore: "within (\<lambda>w w'. commands w' = commands w) (restore_quarantine_bytes E path q)" for q
    by (auto simp: restore_quarantine_bytes_def create_new_def remove_file_def sync_all_def intro!: rules split: sum.split)
  have reconcile: "within (\<lambda>w w'. commands w' = commands w) (reconcile_quarantine E path q x)" for q x
    by (auto simp: reconcile_quarantine_def remove_file_def intro!: rules restore split: sum.split)
  have detach: "within (\<lambda>w w'. commands w' = commands w) (detach_attempts E n path x)" for n x
    by (induction n) (auto simp: detach_to_quarantine_def rename_def Let_def intro!: rules read reconcile
        split: sum.split option.split)
  have "within (\<lambda>w w'. commands w' = commands w) (reclaim_and_claim E path raw)" for raw
    by (auto simp: reclaim_and_claim_def lock_mtime_def stale_startup_mtime_def quarantine_verified_def
        intro!: rules tries read claim detach split: sum.split option.split)
  then show ?thesis
    by (auto simp: acquire_startup_lock_def create_new_def intro!: rules wrote read claim split: sum.split option.split)
qed

lemma try_io_assoc: "try_io (try_io m f) g = try_io m (\<lambda>x. try_io (f x) g)"
  by (rule state_ext) (simp split: prod.split sum.split)

lemma try_io_ok: "try_io (ok x) f = f x"
  by (rule state_ext) simp

text \<open>C20: Two starts of one name exclude each other: while a startup lock younger than five minutes stands and
  nobody else touches it, a start of that name fails, runs no program, and the lock is there
  unchanged in every state in between, whatever errors occur.\<close>

theorem concurrent_start_refused:
  assumes "calm E {startup_lock_path root name}"
    and "files (kern w) (startup_lock_path root name) = Some (File i c m)"
    and "\<forall>n. clock E n < m + secs 300"
    and "run_state (spawn_in E root name spec) w = (r, w')"
  shows "isl r \<and> commands w' = commands w \<and>
    files (kern w') (startup_lock_path root name) = Some (File i c m) \<and>
    (\<exists>new. history w' = history w @ new \<and>
      (\<forall>k\<in>set new. files k (startup_lock_path root name) = Some (File i c m)))"
proof -
  let ?p = "startup_lock_path root name" and ?nd = "File i c m"
  let ?n = "\<lambda>_. True"
  have guard: "sheltered E (\<lambda>k. files k ?p = Some ?nd)" by (rule calm_sheltered [OF assms(1)])
  have mkdirs: "stays ?p ?nd (create_dir_all E root) ?n"
    unfolding create_dir_all_def holds_def
    by (rule passes_syscall) (use assms(1) in \<open>auto simp: k_mkdirs_keeps\<close>)
  have check: "stays ?p ?nd (check_dir_real E d) ?n" for d
    unfolding check_dir_real_def symlink_metadata_def
    by (rule holds_bind [OF holds_look [OF guard]]) (auto intro: holds_return)
  have deadline: "stays ?p ?nd (spawn_deadline E n) ?n" for n
    unfolding spawn_deadline_def
    by (rule holds_bind [OF holds_now [OF guard]]) (auto simp: ok_def err_def intro: holds_return)
  have acquire: "stays ?p ?nd (acquire_startup_lock E ?p) isl"
    using stays_acquire [OF assms(1)] assms(3) by (simp add: STARTUP_LOCK_STALE_def)
  let ?before = "try_io (spawn_deadline E (wait_secs spec)) (\<lambda>deadline.
     try_io (lift_result (check_name name)) (\<lambda>_.
     try_io (check_dir_real E (path_join root name)) (\<lambda>_.
     try_io (map_err (\<lambda>e. Msg (''cannot create '' @ root @ '': '' @ io_text e)) (create_dir_all E root)) (\<lambda>_.
     try_io (acquire_startup_lock E ?p) (\<lambda>g. ok (deadline, g))))))"
  have split: "spawn_in E root name spec = try_io ?before (\<lambda>(deadline, g).
      holding (release_startup_lock E) g (start_claimed E root name spec deadline))"
    by (simp add: spawn_in_def try_io_assoc try_io_ok)
  have "stays ?p ?nd ?before isl"
    by (rule holds_try [OF deadline], rule holds_try [where R = ?n], simp add: lift_result_def holds_return,
        rule holds_try [OF check], rule holds_try [where R = ?n], rule holds_map_err, rule holds_weaken [OF mkdirs],
        simp split: sum.split, rule holds_try [OF acquire], simp_all)
  then have kept: "passes (\<lambda>k. files k ?p = Some ?nd) (\<lambda>w. files (kern w) ?p = Some ?nd) ?before
      (\<lambda>r w. files (kern w) ?p = Some ?nd \<and> isl r)"
    by (simp add: holds_def)
  have idle: "within (\<lambda>w w'. commands w' = commands w) ?before"
    by (auto simp: spawn_deadline_def create_dir_all_def
        intro!: idle.composed idle.reads idle_writes idle_acquire)
  obtain a w1 where before: "run_state ?before w = (a, w1)" by fastforce
  from passesD [OF kept assms(2) before] obtain e where "a = Inl e" by (cases a) auto
  with assms(4) before have "r = Inl e" "w' = w1" by (simp_all add: split)
  with withinD [OF idle before] passesD [OF kept assms(2) before] passes_history [OF kept assms(2) before]
  show ?thesis by auto
qed

theorem concurrent_start_refused_witness:
  "isl (fst (run_state (spawn_in ((still_env brace_serde)\<lparr>clock := \<lambda>_. 6\<rparr>) ''/s'' ''x'' demo_spec)
     (world_of [(''/s/x.lock'', File 3 ''7-1-0'' 5)])))"
proof -
  have path: "startup_lock_path ''/s'' ''x'' = ''/s/x.lock''" by (simp add: startup_lock_path_def path_join_def starts_with_def)
  have "calm ((still_env brace_serde)\<lparr>clock := \<lambda>_. 6\<rparr>) {startup_lock_path ''/s'' ''x''}" by (simp add: calm_in_def)
  note concurrent_start_refused [OF this, unfolded path, OF _ _ surjective_pairing]
  from this [of "world_of [(''/s/x.lock'', File 3 ''7-1-0'' 5)]" 3 "''7-1-0''" 5 demo_spec] show ?thesis
    by (simp add: secs_def)
qed

context reading
begin

lemma refusal: "within R (refuse_existing E dir n)"
  by (auto simp: refuse_existing_def intro!: composed file_reads gates liveness)

end

section \<open>A live session is not replaced\<close>

text \<open>C21: A start over a session that lives is refused: when the session's file records a port that accepts
  connections, whatever its schema version and its markers, the start fails with the session's files as
  they were and no program run.\<close>

theorem live_session_not_replaced:
  assumes "quiet E" and "json_at E (kern w) (path_join (path_join root name) ''session.json'') = Some v"
    and "u16_field v ''port'' = Some p" and "\<forall>n. tcp_connect E n p = None"
    and "run_state (start_claimed E root name spec deadline) w = (r, w')"
  shows "isl r \<and> kern w' = kern w \<and> commands w' = commands w"
proof -
  let ?dir = "path_join root name"
  obtain n where stat: "k_stat (path_join ?dir ''session.json'') (kern w) = Inr n"
    using assms(2) by (auto simp: json_at_def bind_eq_Some_conv k_read_to_string_def k_read_def split: sum.splits)
  have alive: "fst (run_state (daemon_alive_in E ?dir) u) \<or> p = 0" if "kern u = kern w" for u
    using that assms(2,3) assms(4)
    by (simp add: daemon_alive_in_def State_Monad.bind_def quiet_simps [OF assms(1)] Let_def)
  have dead: "\<not> fst (run_state (legacy_proven_dead E ?dir) u)" if "kern u = kern w" for u
    using alive [of "moved E u"] that assms(2,3)
    by (auto simp: legacy_proven_dead_def State_Monad.bind_def quiet_simps [OF assms(1)] split: prod.split)
  have alone: "alone E" using assms(1) by (simp add: quiet_def)
  obtain b w1 where markers: "run_state (cli_markers_v2 E ?dir) (moved E w) = (b, w1)" by fastforce
  have "kern w1 = kern w"
    using withinD [OF kept.gates(1) markers] alone by (simp add: quiet_simps [OF assms(1)])
  then have "isl (fst (run_state (refuse_existing E ?dir name) w))"
    using dead [of w1] markers
    by (auto simp: refuse_existing_def exists_def State_Monad.bind_def quiet_simps [OF assms(1)] stat split: prod.split)
  then obtain e w2 where refuse: "run_state (refuse_existing E ?dir name) w = (Inl e, w2)"
    by (cases "run_state (refuse_existing E ?dir name) w") (auto simp: isl_def)
  with assms(5) have "r = Inl e" "w' = w2" by (simp_all add: start_claimed_def Let_def)
  with withinD [OF kept.refusal refuse] withinD [OF idle.refusal refuse] alone show ?thesis by simp
qed


theorem live_session_not_replaced_witness:
  "isl (fst (run_state (start_claimed live_env ''/h/.agent-debugger/sessions'' ''cart'' demo_spec 9) demo_world))"
proof -
  have up: "\<forall>n. tcp_connect live_env n 5678 = None" by (simp add: live_env_def)
  from live_session_not_replaced [OF live_session(1) live_session(3) [folded live_session(2)] live_session(4) up
      surjective_pairing]
  show ?thesis by (rule conjunct1)
qed

section \<open>Failures\<close>


section \<open>The wait ends\<close>

interpretation wait_poll: polling E "Suc (start_deadline s)" 3 5 "\<lambda>n. wait_ready E n s" "wait_pass E s"
  for E s
proof
  show "run_state (wait_ready E (Suc n) s) w =
      (case run_state (wait_pass E s) w of (Some a, w') \<Rightarrow> (a, w') | (None, w') \<Rightarrow> run_state (wait_ready E n s) w')" for n w
    by (simp add: State_Monad.bind_def split: option.split prod.split)
  show "fst (run_state (wait_pass E s) w) \<noteq> None" if "Suc (start_deadline s) \<le> clock E (calls w + 3)" for w
    using that
    by (simp add: eval_nat_numeral wait_pass_def exists_def State_Monad.bind_def split: option.split sum.split prod.split)
  show "calls w' = calls w + 5" if "run_state (wait_pass E s) w = (None, w')" for w w'
    using that
    by (auto simp: wait_pass_def exists_def State_Monad.bind_def split: option.splits sum.splits prod.splits if_splits)
qed

definition settle_pass :: "env \<Rightarrow> string \<Rightarrow> nat \<Rightarrow> (bridge_setup_error option) option io" where
  "settle_pass E dir deadline = do {
     t \<leftarrow> now E;
     if deadline \<le> t then State_Monad.return (Some None)
     else do {
       _ \<leftarrow> sleep E;
       there \<leftarrow> exists E (path_join dir ''error.json'');
       if there then do { e \<leftarrow> read_bridge_error E dir; State_Monad.return (Some (Some e)) }
       else State_Monad.return None
     }
   }"

interpretation settle_poll: polling E deadline 0 3 "\<lambda>n. settle_loop E n dir deadline" "settle_pass E dir deadline"
  for E dir deadline
  by unfold_locales
    (auto simp: settle_pass_def exists_def State_Monad.bind_def split: option.splits sum.splits prod.splits if_splits)

text \<open>C40: The wait for the first stop ends: with a clock on which each pass takes its 100 milliseconds, the
  passes allowed from the start's own deadline are all that fit; allowing more changes nothing.\<close>

theorem spawn_wait_bounded:
  assumes "ticks E (calls w + 3) 5 t SPAWN_POLL" and "start_deadline s \<le> t + secs wait"
    and "spawn_polls wait \<le> m"
  shows "run_state (wait_ready E m s) w = run_state (wait_ready E (spawn_polls wait) s) w"
proof -
  have "Suc (start_deadline s) \<le> t + (unat wait * 10 + 1) * SPAWN_POLL"
    using assms(2) by (simp add: SPAWN_POLL_def secs_def millis_def)
  from wait_poll.enough_fuel [OF assms(1) this, of m "spawn_polls wait"] assms(3) show ?thesis
    by (simp add: spawn_polls_def del: wait_ready.simps)
qed

theorem spawn_wait_bounded_witness:
  "run_state (wait_ready ((still_env brace_serde)\<lparr>clock := \<lambda>n. n * 100000000\<rparr>) 1000 demo_start) (world_of []) =
   run_state (wait_ready ((still_env brace_serde)\<lparr>clock := \<lambda>n. n * 100000000\<rparr>) (spawn_polls 5) demo_start) (world_of [])"
  by (rule spawn_wait_bounded [where t = 0])
    (simp_all add: ticks_def SPAWN_POLL_def millis_def secs_def spawn_polls_def demo_start_def)

text \<open>The settling after a failed first request: every 100 ms for two seconds.\<close>

lemma settle_wait_bounded:
  assumes "ticks E (calls w) 3 t (millis 100)" and "deadline \<le> t + SETTLE_WAIT" and "SETTLE_POLLS \<le> m"
  shows "run_state (settle_loop E m dir deadline) w = run_state (settle_loop E SETTLE_POLLS dir deadline) w"
proof -
  have "deadline \<le> t + 20 * millis 100" using assms(2) by (simp add: SETTLE_WAIT_def millis_def)
  from settle_poll.enough_fuel [of E w t "millis 100" deadline 20 m SETTLE_POLLS] assms(1,3) this
  show ?thesis by (simp add: SETTLE_POLLS_def del: settle_loop.simps)
qed

end
