(* ===== verification/Completion.thy ===== *)
theory Completion
  imports Endpoint Spawn_Lifecycle Close_Status
begin

text \<open>
  What waits end in success: the wait of a start for its bridge to publish (\<open>wait_ready\<close>), and the wait of a close for
  its daemon to go (\<open>close_when_dead\<close>). In both the other process acts at an unknown moment before the
  deadline; the polls the code allows itself are shown to be enough to notice it.
\<close>

section \<open>Reading a state that no longer changes\<close>

text \<open>No call fails and the others leave the state \<open>k\<close> as it is.\<close>

definition steady :: "env \<Rightarrow> kern \<Rightarrow> bool" where
  "steady E k = (\<forall>n. interfere E n k = k \<and> fault E n = None)"

lemma steady_simps [simp]: "steady E k \<Longrightarrow> fault E n = None" "steady E k \<Longrightarrow> interfere E n k = k"
  by (simp_all add: steady_def)

lemma steady_seen: "steady E k \<Longrightarrow> kern w = k \<Longrightarrow> seen E w = k"
  by (simp add: seen_def)

interpretation steadied: reading "\<lambda>w w'. steady E k \<longrightarrow> kern w = k \<longrightarrow> kern w' = k" E for E k
  by unfold_locales (auto simp: steady_seen)

lemma steadied_run:
  assumes "within (\<lambda>w w'. steady E k \<longrightarrow> kern w = k \<longrightarrow> kern w' = k) m" and "steady E k" and "kern w = k"
  shows "\<exists>a w'. run_state m w = (a, w') \<and> kern w' = k"
proof -
  obtain a w' where run: "run_state m w = (a, w')" by fastforce
  from withinD [OF assms(1) run] assms(2,3) run show ?thesis by blast
qed

section \<open>The first request\<close>

text \<open>A current session with a recorded port, and a bridge that answers there.\<close>

definition published :: "env \<Rightarrow> string \<Rightarrow> string \<Rightarrow> u16 \<Rightarrow> kern \<Rightarrow> bool" where
  "published E name dir port k =
     (check_name name = Inr () \<and> session_dir E name = Inr dir \<and> is_dir (files k dir) \<and>
      marked_v2 E k (path_join dir ''lang.json'') \<and> marked_v2 E k (path_join dir ''stops.json'') \<and>
      Option.bind (json_at E k (path_join dir ''session.json'')) (\<lambda>v. u16_field v ''port'') = Some port)"

definition answering :: "env \<Rightarrow> u16 \<Rightarrow> bool" where
  "answering E port = (\<forall>n body t. 0 < t \<longrightarrow> (\<exists>resp. bridge_answer E n port body t = Inr resp \<and> is_ok resp))"

lemma gate_passes:
  assumes "steady E k" and "published E name dir port k" and "kern w = k"
  shows "run_state (session_gate E name) w = (Inr dir, moved E (moved E (moved E w)))"
  using assms
  by (auto simp: published_def session_gate_def checked_session_dir_def check_dir_real_def require_schema_v2_def
      cli_markers_v2_def run_sidecar_is_v2 State_Monad.bind_def symlink_metadata_def k_lstat_def steady_seen
      elim!: is_dirE)

lemma port_read:
  assumes "steady E k" and "published E name dir port k" and "kern w = k"
  shows "\<exists>w'. run_state (session_port E name) w = (Inr port, w') \<and> kern w' = k"
  using assms
  by (auto simp: published_def session_port_def read_session_def checked_session_dir_def check_dir_real_def ok_or_def
      State_Monad.bind_def symlink_metadata_def k_lstat_def steady_seen read_to_string_def json_at_def to_option_def
      elim!: is_dirE split: option.splits sum.splits bind_splits)

lemma forward_reaches:
  assumes "steady E k" and "published E name dir port k" and "answering E port" and "kern w = k" and "0 < t"
  shows "\<exists>v w'. run_state (forward E name body t) w = (Inr v, w') \<and> kern w' = k"
proof -
  let ?w = "moved E (moved E (moved E (moved E w)))"
  have k: "kern ?w = k" using assms(1,4) by (simp add: steady_seen)
  from port_read [OF assms(1,2) k] obtain w3 where w3: "run_state (session_port E name) ?w = (Inr port, w3)" "kern w3 = k"
    by blast
  obtain resp where "bridge_answer E (calls w3) port body t = Inr resp" "is_ok resp"
    using assms(3,5) unfolding answering_def by blast
  with w3 gate_passes [OF assms(1,2,4)] show ?thesis
    using assms(1) by (simp add: forward_def forward_target_def State_Monad.bind_def normalize_target_for_lang_opt_def
        with_target_def steady_seen)
qed

lemma first_request_answers:
  assumes "steady E k" and "published E (start_name s) (start_dir s) port k" and "answering E port" and "kern w = k"
    and "clock E (Suc (calls w)) < start_deadline s"
  shows "\<exists>v w'. run_state (first_request E s) w = (Inr v, w') \<and> kern w' = k"
proof -
  let ?w = "moved E (moved E w)"
  let ?t = "min (start_deadline s - clock E (Suc (calls w))) VALIDATION_CAP"
  have k: "kern ?w = k" and t: "0 < ?t" using assms(1,4,5) by (simp_all add: steady_seen VALIDATION_CAP_def secs_def)
  obtain j where j: "run_state (read_json_opt E (path_join (start_dir s) ''session.json'')) w = (j, moved E w)"
    by (auto simp: read_json_opt_def read_to_string_def State_Monad.bind_def)
  from forward_reaches [OF assms(1-3) k t] obtain v w3
    where f: "run_state (forward E (start_name s) (first_command j) ?t) ?w = (Inr v, w3)" "kern w3 = k" by blast
  have "\<exists>a w'. run_state (cached_target_identity E (start_dir s)) w3 = (a, w') \<and> kern w' = k"
    by (rule steadied_run [OF steadied.identities(2) assms(1) f(2)])
  with f j show ?thesis
    by (auto simp: first_request_def first_forward_timeout_def State_Monad.bind_def with_identity_def)
qed


section \<open>Waiting for the bridge\<close>

text \<open>The bridge publishes: before call \<open>N\<close> the files are as the start left them, from then on as the bridge leaves them.\<close>

definition publishes :: "env \<Rightarrow> nat \<Rightarrow> kern \<Rightarrow> kern \<Rightarrow> bool" where
  "publishes E N k k' = (\<forall>n. interfere E n k = (if n < N then k else k'))"

definition awaiting :: "start \<Rightarrow> kern \<Rightarrow> bool" where
  "awaiting s k = (k_stat (path_join (start_dir s) ''error.json'') k = Inl (os NotFound) \<and>
     k_stat (path_join (start_dir s) ''session.json'') k = Inl (os NotFound))"

definition arrived :: "start \<Rightarrow> kern \<Rightarrow> bool" where
  "arrived s k = (k_stat (path_join (start_dir s) ''error.json'') k = Inl (os NotFound) \<and>
     (\<exists>nd. k_stat (path_join (start_dir s) ''session.json'') k = Inr nd))"

lemma wait_pass_arrived:
  assumes "steady E k'" and "publishes E N k k'" and "arrived s k'" and "awaiting s k"
    and "published E (start_name s) (start_dir s) port k'" and "answering E port"
    and "kern w = k' \<or> kern w = k \<and> N \<le> Suc (calls w)" and "clock E (calls w + 3) < start_deadline s"
  shows "\<exists>v w'. run_state (wait_pass E s) w = (Some (Inr v), w') \<and> kern w' = k'"
proof -
  have see: "seen E w \<in> {k, k'}" and then_see: "seen E (moved E w) = k'"
    using assms(1,2,7) by (auto simp: seen_def publishes_def)
  have "k_stat (path_join (start_dir s) ''error.json'') (seen E w) = Inl (os NotFound)"
    using see assms(3,4) by (auto simp: arrived_def awaiting_def)
  moreover obtain nd where "k_stat (path_join (start_dir s) ''session.json'') k' = Inr nd"
    using assms(3) by (auto simp: arrived_def)
  moreover have "kern (moved E (moved E w)) = k'" by (simp add: then_see)
  from first_request_answers [OF assms(1,5,6) this] assms(8)
  obtain v w' where "run_state (first_request E s) (moved E (moved E w)) = (Inr v, w')" "kern w' = k'"
    by (auto simp: eval_nat_numeral)
  ultimately show ?thesis
    using assms(1) then_see by (auto simp: wait_pass_def exists_def State_Monad.bind_def)
qed

lemma wait_pass_waits:
  assumes "steady E k'" and "publishes E N k k'" and "awaiting s k" and "kern w = k" and "Suc (calls w) < N"
    and "reaped E (calls w + 2) (start_child s) = Inr None" and "clock E (calls w + 3) < start_deadline s"
  shows "\<exists>w'. run_state (wait_pass E s) w = (None, w') \<and> calls w' = calls w + 5 \<and> kern w' \<in> {k, k'}"
proof -
  have see: "seen E w = k" "seen E (moved E w) = k"
    using assms(2,4,5) by (auto simp: seen_def publishes_def)
  have both: "seen E v \<in> {k, k'}" if "kern v \<in> {k, k'}" for v
    using that assms(1,2) by (auto simp: seen_def publishes_def)
  let ?w = "moved E (moved E (moved E (moved E (moved E w))))"
  have "kern ?w \<in> {k, k'}" by (simp only: moved_simps, (rule both, simp only: moved_simps)+) (simp add: see)
  with see assms(1,3,6,7) show ?thesis
    by (simp add: wait_pass_def exists_def State_Monad.bind_def awaiting_def eval_nat_numeral)
qed

lemma wait_ready_arrives:
  assumes "steady E k'" and "publishes E N k k'" and "arrived s k'" and "awaiting s k"
    and "published E (start_name s) (start_dir s) port k'" and "answering E port"
    and "\<forall>n. reaped E n (start_child s) = Inr None" and "\<forall>j\<le>L. clock E j < start_deadline s" and "N + 8 \<le> L"
    and "calls w + 3 \<le> L" and "kern w \<in> {k, k'}" and "N \<le> calls w + 5 * n + 1" and "n < m"
  shows "\<exists>v w'. run_state (wait_ready E m s) w = (Inr v, w') \<and> kern w' = k'"
  using assms(10-13)
proof (induction n arbitrary: w m)
  case 0
  then obtain m' where m: "m = Suc m'" by (cases m) auto
  from wait_pass_arrived [OF assms(1-6), of w] 0 assms(8) show ?case
    by (auto simp: m State_Monad.bind_def)
next
  case (Suc n)
  then obtain m' where m: "m = Suc m'" "n < m'" by (cases m) auto
  show ?case
  proof (cases "kern w = k' \<or> N \<le> Suc (calls w)")
    case True
    with wait_pass_arrived [OF assms(1-6), of w] Suc.prems assms(8) show ?thesis
      by (auto simp: m State_Monad.bind_def)
  next
    case False
    with Suc.prems wait_pass_waits [OF assms(1,2,4), of w] assms(7,8)
    obtain w' where pass: "run_state (wait_pass E s) w = (None, w')" "calls w' = calls w + 5" "kern w' \<in> {k, k'}"
      by auto
    from Suc.IH [OF _ pass(3) _ m(2)] Suc.prems False pass assms(9) show ?thesis
      by (simp add: m State_Monad.bind_def)
  qed
qed

text \<open>C8: A start completes: when the bridge publishes a current session at any time before the deadline, writes no error,
  keeps running and answers requests, and each pass takes its 100 ms, the wait answers with a success, within
  the polls the start allows itself, and leaves the files as the bridge wrote them.\<close>

theorem start_completes:
  assumes "publishes E N k k'" and "steady E k'" and "awaiting s k" and "arrived s k'"
    and "published E (start_name s) (start_dir s) port k'" and "answering E port"
    and "\<forall>n. reaped E n (start_child s) = Inr None"
    and "\<forall>j \<le> max N (calls w) + 8. clock E j < start_deadline s"
    and "ticks E (calls w + 3) 5 t SPAWN_POLL" and "start_deadline s \<le> t + secs wait" and "kern w = k"
  shows "\<exists>v w'. run_state (wait_ready E (spawn_polls wait) s) w = (Inr v, w') \<and> kern w' = k'"
proof -
  let ?n = "unat wait * 10"
  have "t + ?n * SPAWN_POLL \<le> clock E (calls w + 3 + 5 * ?n)" by (rule ticksD [OF assms(9)])
  with assms(10) have "start_deadline s \<le> clock E (calls w + 3 + 5 * ?n)"
    by (simp add: SPAWN_POLL_def millis_def secs_def algebra_simps)
  with assms(8) have "\<not> calls w + 3 + 5 * ?n \<le> max N (calls w) + 8"
    by (meson not_less)
  then have "N \<le> calls w + 5 * ?n + 1" by simp
  from wait_ready_arrives [OF assms(2,1,4,3,5-8) _ _ _ this, of "spawn_polls wait"] assms(11) show ?thesis
    by (simp add: spawn_polls_def)
qed


text \<open>The session \<open>cart\<close>, published by its bridge at the eighth call.\<close>

definition cart_start :: start where
  "cart_start = \<lparr>start_name = ''cart'', start_dir = demo_dir, start_spec = demo_spec, start_endpoint = None,
     start_listener = None, start_child = 7, start_deadline = secs 5\<rparr>"

definition unpublished :: kern where
  "unpublished = put_node (demo_dir @ ''/session.json'') None (kern demo_world)"

definition cart_env :: env where
  "cart_env = (demo_env ''py'')\<lparr>interfere := \<lambda>n k. if n < 8 \<and> k = unpublished then k else kern demo_world,
     clock := \<lambda>n. n * 100000000\<rparr>"

theorem start_completes_witness:
  "\<exists>v w'. run_state (wait_ready cart_env (spawn_polls 5) cart_start) (demo_world\<lparr>kern := unpublished\<rparr>) = (Inr v, w') \<and>
     kern w' = kern demo_world"
proof (rule start_completes)
  let ?k = unpublished and ?k' = "kern demo_world"
  have files: "files unpublished p = (if p = ''/h/.agent-debugger/sessions/cart/session.json'' then None else files ?k' p)" for p
    by (simp add: unpublished_def put_node_def demo_dir_def)
  show "publishes cart_env 8 ?k ?k'" by (simp add: publishes_def cart_env_def)
  show "steady cart_env ?k'" using files [of "''/h/.agent-debugger/sessions/cart/session.json''"]
    by (auto simp: steady_def cart_env_def demo_env_def)
  show "awaiting cart_start ?k"
    by (simp add: awaiting_def cart_start_def k_stat_none k_stat_file files path_join_def demo_dir_def starts_with_def)
      (simp add: k_stat_none k_stat_file files demo_world_def demo_files_def demo_dir_def)
  show "arrived cart_start ?k'"
    by (auto simp: arrived_def cart_start_def k_stat_none k_stat_file)
      (simp add: k_stat_none k_stat_file demo_world_def demo_files_def demo_dir_def path_join_def starts_with_def)
  have same: "json_at cart_env = json_at (demo_env ''py'')" "session_dir cart_env = session_dir (demo_env ''py'')"
      "bridge_answer cart_env = bridge_answer (demo_env ''py'')"
    by (simp_all add: fun_eq_iff json_at_def session_dir_def sessions_dir_def agent_home_def bridge_answer_def cart_env_def)
  show "published cart_env (start_name cart_start) (start_dir cart_start) 5678 ?k'"
    by (simp add: published_def cart_start_def same marked_v2_def demo_reads demo_v2)
      (simp add: demo_session_def u16_field_def u64_field_def as_u64_def num_def u16_try_from_def)
  have "is_ok demo_reply" by (simp add: demo_reply_def is_ok_def bool_field_def as_bool_def)
  then show "answering cart_env 5678" by (simp add: answering_def same)
  show "ticks cart_env (calls (demo_world\<lparr>kern := unpublished\<rparr>) + 3) 5 (3 * 100000000) SPAWN_POLL"
    by (simp add: ticks_def cart_env_def SPAWN_POLL_def millis_def demo_world_def)
qed (simp_all add: cart_start_def secs_def cart_env_def demo_env_def demo_world_def)

section \<open>Waiting for the daemon to go\<close>

lemma lands_delete:
  assumes "quiet E" and "is_dir (files k dir)"
  shows "lands k (delete_dir E dir) (\<lambda>_ l. l = without_dir dir k)"
proof -
  have real: "answers k (real_dir_for_delete E dir ctx) (Inr True)" for ctx
    unfolding real_dir_for_delete_def symlink_metadata_def
    by (rule answers_bind [OF answers_looked [OF assms(1) refl]])
      (use assms(2) in \<open>auto simp: k_lstat_def intro: answers_return elim!: is_dirE\<close>)
  have "lands k (remove_dir_all E dir) (\<lambda>_ l. l = without_dir dir k)"
    using assms by (auto simp: lands_def leads_def remove_dir_all_def quiet_simps k_remove_dir_all_def without_dir_def
        elim!: is_dirE)
  then have "lands k (map_err (\<lambda>e. Msg (''cannot remove session: '' @ io_text e)) (remove_dir_all E dir)) (\<lambda>_ l. l = without_dir dir k)"
    by (rule lands_map_err)
  then show ?thesis
    unfolding delete_dir_def try_io_def lands_def by (intro leads_after [OF real]) simp
qed

lemma k_stat_dir: "is_dir (files k p) \<Longrightarrow> \<exists>nd. k_stat p k = Inr nd"
  by (auto simp: k_stat_def follow_def eval_nat_numeral elim!: is_dirE)

lemma lands_close_tail:
  assumes "quiet E" and "is_dir (files k dir)" and "k_stat (path_join dir ''session.json'') k = Inr nd"
  shows "lands k (close_tail E root name dir False confirmed) (\<lambda>v l. v = close_reply name confirmed \<and> l = without_dir dir k)"
proof -
  have there: "answers k (exists E dir) True"
    using answers_exists [OF assms(1), of k dir] k_stat_dir [OF assms(2)] by auto
  have pub: "answers k (exists E (path_join dir ''session.json'')) True"
    using answers_exists [OF assms(1), of k "path_join dir ''session.json''"] by (simp add: assms(3))
  have "lands k (remove_unpublished_dir E root name dir False) (\<lambda>_ l. l = without_dir dir k)"
    unfolding remove_unpublished_dir_def lands_def
    by (rule leads_after [OF pub]) (use lands_delete [OF assms(1,2)] in \<open>simp add: lands_def\<close>)
  then have "lands k (try_io (remove_unpublished_dir E root name dir False) (\<lambda>_. ok (close_reply name confirmed)))
      (\<lambda>v l. v = close_reply name confirmed \<and> l = without_dir dir k)"
    by (rule lands_try) (simp add: lands_ok)
  then show ?thesis
    unfolding close_tail_def lands_def by (intro leads_after [OF there]) simp
qed

lemma await_death_dies:
  assumes "quiet E" and "\<forall>n\<ge>N. tcp_connect E n port \<noteq> None" and "\<forall>j\<le>L. clock E j < deadline" and "N + 3 \<le> L"
    and "calls w \<le> L" and "N \<le> calls w + 3 * n + 1" and "n < m"
  shows "\<exists>w'. run_state (await_death E m port deadline) w = (True, w') \<and> kern w' = kern w"
  using assms(5-7)
proof (induction n arbitrary: w m)
  case 0
  then obtain m' where m: "m = Suc m'" by (cases m) auto
  from 0 assms(2) obtain e where "tcp_connect E (Suc (calls w)) port = Some e" by fastforce
  with 0 assms(3) show ?case by (simp add: m State_Monad.bind_def quiet_simps [OF assms(1)] not_le)
next
  case (Suc n)
  then obtain m' where m: "m = Suc m'" "n < m'" by (cases m) auto
  from Suc.prems assms(3) have early: "\<not> deadline \<le> clock E (calls w)" by (simp add: not_le)
  show ?case
  proof (cases "tcp_connect E (Suc (calls w)) port")
    case (Some e)
    with early show ?thesis by (simp add: m State_Monad.bind_def quiet_simps [OF assms(1)])
  next
    case None
    with assms(2) have "Suc (calls w) < N" by (meson not_le)
    with Suc.IH [OF _ _ m(2), of "moved E (moved E (moved E w))"] Suc.prems(2) assms(4) early None show ?thesis
      by (simp add: m State_Monad.bind_def quiet_simps [OF assms(1)])
  qed
qed

lemma close_when_dies:
  assumes "quiet E" and "\<forall>n\<ge>N. tcp_connect E n port \<noteq> None" and "is_dir (files (kern w) dir)"
    and "k_stat (path_join dir ''session.json'') (kern w) = Inr nd"
    and "\<forall>n. clock E n + CLOSE_DEATH_POLL \<le> clock E (n + 3)" and "mono (clock E)"
    and "\<forall>j\<le>max N (Suc (calls w)) + 3. clock E j < clock E (calls w) + secs 15"
  shows "\<exists>w'. run_state (close_when_dead CLOSE_DEATH_POLLS E root name dir port confirmed) w =
    (Inr (close_reply name confirmed), w') \<and> kern w' = without_dir dir (kern w)"
proof -
  let ?c = "Suc (calls w)"
  have step: "clock E ?c + j * CLOSE_DEATH_POLL \<le> clock E (?c + 3 * j)" for j
  proof (induction j)
    case (Suc j)
    from assms(5) have "clock E (?c + 3 * j) + CLOSE_DEATH_POLL \<le> clock E (?c + 3 * j + 3)" by blast
    with Suc.IH show ?case by (simp add: ac_simps)
  qed simp
  have "clock E (calls w) \<le> clock E ?c" using assms(6) by (simp add: monoD)
  with step [of 75] have "clock E (calls w) + secs 15 \<le> clock E (?c + 3 * 75)"
    by (simp add: CLOSE_DEATH_POLL_def millis_def secs_def)
  with assms(7) have "\<not> ?c + 3 * 75 \<le> max N ?c + 3" by (meson not_less)
  then have N: "N \<le> calls (moved E w) + 3 * 75 + 1" by simp
  have "\<exists>w'. run_state (await_death E CLOSE_DEATH_POLLS port (clock E (calls w) + CLOSE_DEATH_WAIT)) (moved E w) = (True, w') \<and>
      kern w' = kern (moved E w)"
    by (rule await_death_dies [OF assms(1,2) _ _ _ N, of "max N ?c + 3"])
      (use assms(7) in \<open>simp_all add: CLOSE_DEATH_WAIT_def CLOSE_DEATH_POLLS_def\<close>)
  then obtain w1 where w1: "run_state (await_death E CLOSE_DEATH_POLLS port (clock E (calls w) + CLOSE_DEATH_WAIT)) (moved E w) = (True, w1)"
    "kern w1 = kern w" by (auto simp: quiet_simps [OF assms(1)])
  obtain r w2 where w2: "run_state (close_tail E root name dir False confirmed) w1 = (r, w2)" by fastforce
  from landsD [OF lands_close_tail [OF assms(1), of "kern w1" dir nd root name confirmed] w2] assms(3,4) w1(2)
  have "r = Inr (close_reply name confirmed)" "kern w2 = without_dir dir (kern w)" by auto
  with w1 w2 show ?thesis by (simp add: close_when_dead_def State_Monad.bind_def)
qed

text \<open>The way of a close up to the bridge, and what it does once the daemon goes.\<close>

lemma close_in_published:
  assumes "quiet E" and "plain_segment name" and "is_dir (files (kern w) (path_join root name))"
    and "json_at E (kern w) (path_join (path_join root name) ''session.json'') = Some v"
    and "u16_field v ''port'' = Some port"
  shows "run_state (close_in E root name) w =
    run_state (close_published E root name (path_join root name) port) (moved E (moved E (moved E w)))"
proof -
  let ?dir = "path_join root name" and ?k = "kern w"
  obtain nd where nd: "k_stat (path_join ?dir ''session.json'') ?k = Inr nd"
    using assms(4) by (auto simp: json_at_def bind_eq_Some_conv k_read_to_string_def k_read_def split: sum.splits)
  obtain raw where raw: "k_read_to_string (path_join ?dir ''session.json'') ?k = Inr raw" "from_str (codec E) raw = Inr v"
    using assms(4) by (auto simp: json_at_def bind_eq_Some_conv to_option_def split: sum.splits)
  show ?thesis
    using assms(1,3,5) raw nd check_name_plain [THEN iffD2, OF assms(2)]
    by (auto simp: Let_def close_in_def check_dir_real_def symlink_metadata_def k_lstat_def startup_close_gate_def exists_def
        close_port_def read_session_file_def read_to_string_def State_Monad.bind_def quiet_simps
        elim!: is_dirE)
qed

lemma close_dies_within:
  assumes "quiet E" and "is_dir (files k dir)" and "k_stat (path_join dir ''session.json'') k = Inr nd"
    and "\<forall>n\<ge>N. tcp_connect E n port \<noteq> None" and "\<forall>n. clock E n + CLOSE_DEATH_POLL \<le> clock E (n + 3)"
    and "mono (clock E)" and "\<forall>j\<le>max N c + 9. clock E j < clock E c + secs 15"
    and "kern v = k" and "c \<le> calls v" and "calls v \<le> c + 5"
  shows "\<exists>w'. run_state (close_when_dead CLOSE_DEATH_POLLS E root name dir port confirmed) v =
    (Inr (close_reply name confirmed), w') \<and> kern w' = without_dir dir k"
proof -
  have later: "clock E c \<le> clock E (calls v)" using assms(6,9) by (simp add: monoD)
  have "\<forall>j\<le>max N (Suc (calls v)) + 3. clock E j < clock E (calls v) + secs 15"
  proof (intro allI impI)
    fix j assume "j \<le> max N (Suc (calls v)) + 3"
    with assms(10) have "j \<le> max N c + 9" by auto
    with assms(7) later show "clock E j < clock E (calls v) + secs 15" by (meson add_le_mono1 order_less_le_trans)
  qed
  from close_when_dies [OF assms(1,4) _ _ assms(5,6) this, of dir nd root name confirmed] assms(2,3,8) show ?thesis by simp
qed

text \<open>C5: A close completes: when the daemon of a published session stops accepting connections within 15 seconds of
  the call, at whatever moment, or was gone before, \<open>close\<close> succeeds and the session's directory is gone,
  with every other file as it was, whether the bridge acknowledged, refused or said nothing.\<close>

theorem close_completes:
  assumes "quiet E" and "plain_segment name" and "is_dir (files (kern w) (path_join root name))"
    and "json_at E (kern w) (path_join (path_join root name) ''session.json'') = Some v"
    and "u16_field v ''port'' = Some port"
    and "\<forall>n\<ge>N. tcp_connect E n port \<noteq> None" and "\<forall>n. clock E n + CLOSE_DEATH_POLL \<le> clock E (n + 3)"
    and "mono (clock E)" and "\<forall>j\<le>max N (calls w) + 9. clock E j < clock E (calls w) + secs 15"
  shows "\<exists>confirmed w'. run_state (close_in E root name) w = (Inr (close_reply name confirmed), w') \<and>
    kern w' = without_dir (path_join root name) (kern w)"
proof -
  let ?dir = "path_join root name" and ?k = "kern w" and ?w3 = "moved E (moved E (moved E w))"
  let ?w4 = "snd (run_state (ask_bridge E port (jobj [(''cmd'', VString ''close'')]) (secs 65)) ?w3)"
  let ?ok = "case bridge_answer E (calls ?w3) port (jobj [(''cmd'', VString ''close'')]) (secs 65) of Inr v \<Rightarrow> is_ok v | Inl _ \<Rightarrow> False"
  let ?w5 = "snd (run_state (probe_session_bridge E port (secs 2)) ?w4)"
  let ?p = "fst (run_state (probe_session_bridge E port (secs 2)) ?w4)"
  obtain nd where "k_stat (path_join ?dir ''session.json'') ?k = Inr nd"
    using assms(4) by (auto simp: json_at_def bind_eq_Some_conv k_read_to_string_def k_read_def split: sum.splits)
  note dead = close_dies_within [OF assms(1,3) this assms(6-9)]
  have w4: "kern ?w4 = ?k" "calls ?w4 = calls w + 4" and w5: "kern ?w5 = ?k" "calls ?w5 = calls w + 5"
    using assms(1) by (simp_all add: quiet_simps probe_session_bridge_def)
  have run: "run_state (close_in E root name) w =
      (if ?ok then run_state (close_when_dead CLOSE_DEATH_POLLS E root name ?dir port True) ?w4
       else run_state (case ?p of NotOurs _ \<Rightarrow> try_io (remove_dir_after_foreign_probe E ?dir) (\<lambda>_. ok (close_reply name False))
         | _ \<Rightarrow> close_when_dead CLOSE_DEATH_POLLS E root name ?dir port False) ?w5)"
    unfolding close_in_published [OF assms(1-5)] by (simp add: close_published_def State_Monad.bind_def Let_def split: prod.split)
  show ?thesis
  proof (cases ?ok)
    case True
    from dead [OF w4(1), of root name True] w4(2) True run show ?thesis by auto
  next
    case False
    show ?thesis
    proof (cases ?p)
      case (NotOurs reason)
      obtain r w6 where del: "run_state (delete_dir E ?dir) ?w5 = (r, w6)" by fastforce
      from landsD [OF lands_delete [OF assms(1), of "kern ?w5" ?dir] del] w5 assms(3)
      have "r = Inr ()" "kern w6 = without_dir ?dir ?k" by auto
      with False NotOurs run del show ?thesis by (auto simp: remove_dir_after_foreign_probe_def)
    qed (use dead [OF w5(1), of root name False] w5(2) False run in auto)
  qed
qed

text \<open>The session \<open>cart\<close>, whose daemon stops listening at the twentieth call.\<close>

definition dying_env :: env where
  "dying_env = (demo_env ''py'')\<lparr>tcp_connect := \<lambda>n _. if n < 20 then None else Some (os ConnectionRefused),
     clock := \<lambda>n. n * 100000000\<rparr>"

theorem close_completes_witness:
  "\<exists>confirmed w'. run_state (close_in dying_env ''/h/.agent-debugger/sessions'' ''cart'') demo_world =
     (Inr (close_reply ''cart'' confirmed), w') \<and> kern w' = without_dir demo_dir (kern demo_world)"
proof -
  have joined: "path_join ''/h/.agent-debugger/sessions'' ''cart'' = demo_dir" by (rule live_session(2))
  have "json_at dying_env (kern demo_world) (path_join demo_dir ''session.json'') = Some demo_session"
    using live_session(3) by (simp add: json_at_def dying_env_def live_env_def)
  moreover have "quiet dying_env" by (simp add: quiet_def alone_def dying_env_def demo_env_def)
  moreover have "plain_segment ''cart''" by (simp add: plain_segment_def)
  moreover have "mono (clock dying_env)" by (simp add: dying_env_def mono_def)
  moreover have "\<forall>n\<ge>20. tcp_connect dying_env n 5678 \<noteq> None" by (simp add: dying_env_def)
  moreover have "\<forall>n. clock dying_env n + CLOSE_DEATH_POLL \<le> clock dying_env (n + 3)"
    by (simp add: dying_env_def CLOSE_DEATH_POLL_def millis_def)
  moreover have "\<forall>j\<le>max 20 (calls demo_world) + 9. clock dying_env j < clock dying_env (calls demo_world) + secs 15"
    by (simp add: dying_env_def demo_world_def secs_def)
  ultimately show ?thesis
    using close_completes [of dying_env "''cart''" demo_world "''/h/.agent-debugger/sessions''" demo_session 5678 20]
    by (simp add: joined live_session(4))
qed

end
