(* ===== verification/Report.thy ===== *)
theory Report
  imports Progress Close_Status
begin

text \<open>
  What \<open>status\<close> reports: one row for every session there is, sorted by name, each saying of its session
  what its files and its port say at that moment.
\<close>

section \<open>One row\<close>

text \<open>What the files of a session say: the current schema in both markers and in \<open>session.json\<close> when it can be
  read, and the recorded port, 0 when there is none.\<close>

definition current_at :: "env \<Rightarrow> kern \<Rightarrow> string \<Rightarrow> bool" where
  "current_at E k dir =
     (marked_v2 E k (path_join dir ''lang.json'') \<and> marked_v2 E k (path_join dir ''stops.json'') \<and>
      ((\<exists>raw. k_read_to_string (path_join dir ''session.json'') k = Inr raw) \<longrightarrow>
        marked_v2 E k (path_join dir ''session.json'')))"

definition live_at :: "env \<Rightarrow> kern \<Rightarrow> string \<Rightarrow> json" where
  "live_at E k dir = (case json_at E k (path_join dir ''session.json'') of None \<Rightarrow> jobj [] | Some v \<Rightarrow> v)"

definition port_at :: "env \<Rightarrow> kern \<Rightarrow> string \<Rightarrow> u16" where
  "port_at E k dir = (case u16_field (live_at E k dir) ''port'' of None \<Rightarrow> 0 | Some p \<Rightarrow> p)"

text \<open>What the port says: a row is alive when a port is recorded and the probe finds the debugger there, or
  finds nothing definite and the session has published within two minutes.\<close>

definition verdict_says :: "env \<Rightarrow> json \<Rightarrow> probe \<Rightarrow> bool \<Rightarrow> bool" where
  "verdict_says E live p alive =
     (case p of Ours \<Rightarrow> alive | NotOurs _ \<Rightarrow> \<not> alive | Unclear \<Rightarrow> \<exists>n. alive = recent_at (clock E n) live)"

definition verdict_on :: "env \<Rightarrow> u16 \<Rightarrow> probe \<Rightarrow> bool" where
  "verdict_on E port p = (\<exists>w :: world. fst (run_state (probe_session_bridge E port (millis 300)) w) = p)"

definition port_says :: "env \<Rightarrow> u16 \<Rightarrow> json \<Rightarrow> bool \<Rightarrow> bool" where
  "port_says E port live alive =
     (if port = 0 then \<not> alive else \<exists>p. verdict_on E port p \<and> verdict_says E live p alive)"

definition row_tells :: "env \<Rightarrow> kern \<Rightarrow> string \<Rightarrow> string \<Rightarrow> json \<Rightarrow> bool" where
  "row_tells E k root name row =
     (let dir = path_join root name; live = live_at E k dir; stops = json_at E k (path_join dir ''stops.json'') in
      str_field row ''lang'' = Some (case Option.bind (json_at E k (path_join dir ''lang.json'')) (\<lambda>v. str_field v ''lang'') of
        None \<Rightarrow> ''unknown'' | Some l \<Rightarrow> l) \<and>
      json_get row ''port'' = Some (port_json (port_at E k dir)) \<and>
      json_get row ''kind'' = Some (field_or_null live ''kind'') \<and>
      json_get row ''stopped'' = Some (field_or_null live ''stopped'') \<and>
      json_get row ''target'' = Some (case stops of None \<Rightarrow> VNull | Some v \<Rightarrow> field_or_null v ''target'') \<and>
      json_get row ''unsupported'' = Some (VBool (\<not> current_at E k dir)) \<and>
      json_get row ''stale'' = json_get row ''unsupported'' \<and>
      (\<exists>alive. json_get row ''alive'' = Some (VBool alive) \<and> port_says E (port_at E k dir) live alive))"

lemma session_v2_at:
  "session_v2 (to_option (k_read_to_string p k)) (json_at E k p) =
     ((\<exists>raw. k_read_to_string p k = Inr raw) \<longrightarrow> marked_v2 E k p)"
  by (auto simp: session_v2_def marked_v2_def to_option_def split: option.splits sum.splits)

lemma answers_files:
  assumes "quiet E"
  shows "answers k (read_to_string E p) (k_read_to_string p k)"
    and "answers k (read_json_opt E p) (json_at E k p)"
    and "answers k (session_lang_opt E dir) (Option.bind (json_at E k (path_join dir ''lang.json'')) (\<lambda>v. str_field v ''lang''))"
    and "answers k (symlink_metadata E p) (k_lstat p k)"
    and "answers k (cli_markers_v2 E dir)
      (marked_v2 E k (path_join dir ''lang.json'') \<and> marked_v2 E k (path_join dir ''stops.json''))"
  using quiet_simps [OF assms]
  by (simp_all add: answers_def session_lang_opt_def State_Monad.bind_def symlink_metadata_def read_to_string_def
      cli_markers_v2_def run_sidecar_is_v2)

lemma leads_kept: "quiet E \<Longrightarrow> within (\<lambda>w w'. alone E \<longrightarrow> kern w' = kern w) m \<Longrightarrow> leads k m (\<lambda>_ l. l = k)"
  unfolding leads_def quiet_def within_def by (metis surjective_pairing)

lemma leads_recent:
  assumes "quiet E"
  shows "leads k (published_recently E v (secs 120)) (\<lambda>b l. l = k \<and> (\<exists>n. b = recent_at (clock E n) v))"
proof (cases "u64_field v ''updatedAt''")
  case (Some s)
  have recent: "recent_at t v = (unat s < 2 ^ 63 \<and> secs s \<le> t \<and> t - secs s < secs 120)" for t
    by (auto simp: recent_at_def Some)
  show ?thesis
  proof (cases "unat s < 2 ^ 63")
    case True
    show ?thesis
      unfolding published_recently_def Some option.case recent if_not_P [OF linorder_not_le [THEN iffD2, OF True]]
      by (rule leads_now [OF assms], rule leads_return) (use True in auto)
  qed (simp add: published_recently_def Some recent leads_return)
qed (simp add: published_recently_def recent_at_def leads_return)

lemma leads_liveness:
  assumes E: "quiet E"
  shows "leads k (row_liveness E live port) (\<lambda>a l. l = k \<and> port_says E port live (fst a))"
proof (cases "port = 0")
  case True
  then show ?thesis by (simp add: row_liveness_def port_says_def leads_return)
next
  case False
  have probe: "leads k (probe_session_bridge E port (millis 300)) (\<lambda>p l. l = k \<and> verdict_on E port p)"
    using leads_kept [OF E kept.calls_rule(8)] unfolding leads_def verdict_on_def by blast
  have says: "port_says E port live a" if "verdict_on E port p" "verdict_says E live p a" for p a
    using that False by (auto simp: port_says_def)
  show ?thesis
    unfolding row_liveness_def if_not_P [OF False]
  proof (rule leads_bind [OF probe], elim conjE)
    fix p l assume l: "l = k" and p: "verdict_on E port p"
    show "leads l (case p of Ours \<Rightarrow> State_Monad.return (True, None)
      | NotOurs reason \<Rightarrow> State_Monad.return (False, Some (stranger_hint port reason))
      | Unclear \<Rightarrow> do { recent \<leftarrow> published_recently E live (secs 120); State_Monad.return (recent, None) })
      (\<lambda>a l. l = k \<and> port_says E port live (fst a))"
    proof (cases p)
      case Unclear
      show ?thesis
        unfolding Unclear probe.case l
        by (rule leads_bind [OF leads_recent [OF E]], elim conjE exE, rule leads_return)
          (auto intro!: says [OF p] simp: Unclear verdict_says_def)
    qed (auto intro!: leads_return says [OF p] simp: l verdict_says_def)
  qed
qed

lemma leads_entry:
  assumes E: "quiet E" and name: "plain_segment name" "valid_utf8 name"
  shows "leads k (session_entry E (path_join root name)) (\<lambda>row l. l = k \<and> row_tells E k root name row \<and> row_name row = Some name)"
proof -
  have fn: "file_name_of (path_join root name) = Some name"
    by (simp add: file_name_of_def plain_segment_join [OF name(1)])
  note files = answers_files [OF E]
  let ?dir = "path_join root name"
  have parsed: "Option.bind (to_option (k_read_to_string p k)) (\<lambda>r. to_option (from_str (codec E) r)) = json_at E k p" for p
    by (simp add: json_at_def)
  show ?thesis
    unfolding session_entry_def Let_def fn option.case from_utf8_lossy_valid [OF name(2)]
    apply (rule leads_after [OF files(1)], unfold parsed, rule leads_after [OF files(5)])
    apply (rule leads_bind [OF leads_liveness [OF E]], elim conjE, hypsubst, split prod.split, intro allI impI)
    apply (rule leads_after [OF files(2)], rule leads_bind [OF leads_kept [OF E kept.identities(1)]], hypsubst)
    apply (rule leads_after [OF files(3)], rule leads_return)
    apply (unfold session_v2_at)
    apply (simp add: status_row_def row_tells_def Let_def row_name_def str_field_def live_at_def port_at_def current_at_def as_str_def)
    done
qed

section \<open>All rows\<close>

definition is_session :: "kern \<Rightarrow> string \<Rightarrow> string \<Rightarrow> bool" where
  "is_session k root name = (plain_segment name \<and> is_dir (files k (path_join root name)))"

lemma answers_checked:
  assumes E: "quiet E" and root: "sessions_dir E = Inr root" and dir: "is_dir (files k (path_join root name))"
  shows "answers k (do { d \<leftarrow> checked_session_dir E name;
      State_Monad.return (case d of Inr _ \<Rightarrow> True | Inl _ \<Rightarrow> False) }) (plain_segment name)"
proof -
  have sd: "session_dir E name = Inr (path_join root name)"
    by (simp add: session_dir_def root and_then_def)
  have "answers k (checked_session_dir E name)
      (case check_name name of Inr _ \<Rightarrow> Inr (path_join root name) | Inl e \<Rightarrow> Inl e)"
    unfolding checked_session_dir_def sd
    by (cases "check_name name"; rule answers_try [OF answers_lift(1)])
      (simp_all add: answers_try [OF answers_lift(1)] answers_try [OF answers_check_dir [OF E dir]] answers_lift)
  then show ?thesis
    by (rule answers_bind, intro answers_return, cases "check_name name") (simp_all add: check_name_plain [symmetric])
qed

lemma leads_rows:
  assumes E: "quiet E" and root: "sessions_dir E = Inr root" and utf8: "list_all valid_utf8 names"
  shows "leads k (status_rows E root names) (\<lambda>rows l. l = k \<and>
     list_all2 (\<lambda>name row. row_tells E k root name row \<and> row_name row = Some name) (filter (is_session k root) names) rows)"
  using utf8
proof (induction names)
  case (Cons name names)
  then have name: "valid_utf8 name" by simp
  let ?R = "\<lambda>name row. row_tells E k root name row \<and> row_name row = Some name"
  have "answers k (if k_lstat (path_join root name) k = Inr TDir then do {
         d \<leftarrow> checked_session_dir E name; State_Monad.return (case d of Inr _ \<Rightarrow> True | Inl _ \<Rightarrow> False)
       } else State_Monad.return False) (is_session k root name)"
    using answers_checked [OF E root] by (auto simp: is_session_def k_lstat_dir intro!: answers_return)
  note listed = this
  have row: "leads k (if is_session k root name then do { r \<leftarrow> session_entry E (path_join root name); State_Monad.return [r] }
      else State_Monad.return []) (\<lambda>row l. l = k \<and> list_all2 ?R (if is_session k root name then [name] else []) row)"
  proof (cases "is_session k root name")
    case True
    then have "plain_segment name" by (simp add: is_session_def)
    from leads_entry [OF E this name] show ?thesis
      unfolding if_P [OF True] by (rule leads_bind) (simp add: leads_return)
  qed (simp add: leads_return)
  show ?case
    unfolding status_rows.simps from_utf8_lossy_valid [OF name]
    apply (rule leads_after [OF answers_files(4) [OF E]], rule leads_after [OF listed])
    apply (rule leads_bind [OF row], elim conjE, hypsubst)
    apply (rule leads_bind [OF Cons.IH], use Cons.prems in simp, elim conjE, hypsubst, rule leads_return)
    apply (intro conjI, rule refl, drule (1) list_all2_appendI)
    apply (cases "is_session k root name"; simp)
    done
qed (simp add: leads_return)

lemma sorted_rows:
  assumes "list_all2 (\<lambda>name row. R name row \<and> row_name row = Some name) names rows"
  shows "list_all2 (\<lambda>name row. R name row \<and> row_name row = Some name) (sort names) (sort_key row_name rows)"
  using assms by (rule list_all2_sort [where h = Some]) simp

text \<open>C23: In a quiet moment, whatever else lies in the sessions directory, \<open>status\<close> reports every session there is and
  nothing else: for the listed names that are plain segments and real directories, in the order of the names, one
  row each, carrying that name, the language, kind, stop and target its files record, the recorded port, and whether it
  is current and alive as its markers and its port say. Nothing is changed.\<close>

theorem status_lists_sessions:
  assumes "quiet E" and "sessions_dir E = Inr root" and "files (kern w) root = Some (Dir t)"
    and "list_all valid_utf8 (dir_names E (calls w) root)"
  shows "\<exists>rows w'. run_state (status E) w =
      (jobj [(''version'', VString CARGO_PKG_VERSION), (''sessions'', VArray rows)], w') \<and> kern w' = kern w \<and>
    list_all2 (\<lambda>name row. row_tells E (kern w) root name row \<and> row_name row = Some name)
      (sort (filter (is_session (kern w) root) (dir_names E (calls w) root))) rows"
proof -
  let ?k = "kern w" and ?n = "dir_names E (calls w) root"
  let ?listed = "filter (\<lambda>n. files ?k (path_join root n) \<noteq> None) ?n"
  have read: "run_state (read_dir E root) w = (Inr ?listed, moved E w)"
    using assms(1,3) follow_not_link [of "kern w" root]
    by (simp add: quiet_simps k_read_dir_def k_stat_def not_link_def)
  have same: "kern (moved E w) = ?k" using assms(1) by (simp add: quiet_simps)
  obtain rows w' where run: "run_state (status_rows E root ?listed) (moved E w) = (rows, w')" by fastforce
  have sessions: "filter (is_session ?k root) ?listed = filter (is_session ?k root) ?n"
    by (auto simp: is_session_def intro!: filter_cong elim!: is_dirE)
  have "list_all valid_utf8 ?listed" using assms(4) by (simp add: list_all_iff)
  from leadsD [OF leads_rows [OF assms(1,2) this] run, unfolded same sessions]
  show ?thesis
    using read run by (auto simp: status_def State_Monad.bind_def assms(2) intro: sorted_rows)
qed

text \<open>In the witness one session is published on a port where the debugger answers, by an old release; one has just
  been started; between them lies a file.\<close>

definition shelf_env :: env where
  "shelf_env = (demo_env ''py'')\<lparr>dir_names := \<lambda>_ _. [''new'', ''notes'', ''cart'']\<rparr>"

definition shelf_world :: world where
  "shelf_world = world_of (demo_files @ [(''/h/.agent-debugger/sessions'', Dir 0),
     (''/h/.agent-debugger/sessions/notes'', File 4 [] 0), (''/h/.agent-debugger/sessions/new'', Dir 0),
     (''/h/.agent-debugger/sessions/new/lang.json'', File 5 ''{L}'' 0),
     (''/h/.agent-debugger/sessions/new/stops.json'', File 6 ''{S}'' 0)])"

lemma shelf_files [simp]:
  "files (kern shelf_world) ''/h/.agent-debugger/sessions'' = Some (Dir 0)"
  "files (kern shelf_world) ''/h/.agent-debugger/sessions/notes'' = Some (File 4 [] 0)"
  "files (kern shelf_world) ''/h/.agent-debugger/sessions/new'' = Some (Dir 0)"
  "files (kern shelf_world) ''/h/.agent-debugger/sessions/cart'' = Some (Dir 0)"
  by (simp_all add: shelf_world_def demo_files_def demo_dir_def)

lemma shelf_files2:
  "files (kern shelf_world) ''/h/.agent-debugger/sessions/cart/lang.json'' = Some (File 1 ''{L}'' 0)"
  "files (kern shelf_world) ''/h/.agent-debugger/sessions/cart/stops.json'' = Some (File 2 ''{S}'' 0)"
  "files (kern shelf_world) ''/h/.agent-debugger/sessions/cart/session.json'' = Some (File 3 ''{P}'' 0)"
  "files (kern shelf_world) ''/h/.agent-debugger/sessions/new/lang.json'' = Some (File 5 ''{L}'' 0)"
  "files (kern shelf_world) ''/h/.agent-debugger/sessions/new/stops.json'' = Some (File 6 ''{S}'' 0)"
  "files (kern shelf_world) ''/h/.agent-debugger/sessions/new/session.json'' = None"
  by (simp_all add: shelf_world_def demo_files_def demo_dir_def)

lemma shelf_reads:
  "json_at shelf_env (kern shelf_world) ''/h/.agent-debugger/sessions/cart/lang.json'' = Some (demo_lang ''py'')"
  "json_at shelf_env (kern shelf_world) ''/h/.agent-debugger/sessions/cart/stops.json'' = Some demo_stops"
  "json_at shelf_env (kern shelf_world) ''/h/.agent-debugger/sessions/cart/session.json'' = Some demo_session"
  "json_at shelf_env (kern shelf_world) ''/h/.agent-debugger/sessions/new/lang.json'' = Some (demo_lang ''py'')"
  "json_at shelf_env (kern shelf_world) ''/h/.agent-debugger/sessions/new/stops.json'' = Some demo_stops"
  "k_read_to_string ''/h/.agent-debugger/sessions/new/session.json'' (kern shelf_world) = Inl (os NotFound)"
  "k_read_to_string ''/h/.agent-debugger/sessions/cart/session.json'' (kern shelf_world) = Inr ''{P}''"
  by (simp_all add: json_at_def shelf_files2(1-5) [THEN k_read_there] k_read_missing [OF shelf_files2(6)] shelf_env_def code_def)

lemma shelf_verdict: "verdict_on shelf_env 5678 p \<longleftrightarrow> p = Ours"
  by (auto simp: verdict_on_def probe_session_bridge_def shelf_env_def demo_env_def demo_probe)

theorem status_lists_sessions_witness:
  "\<exists>cart new w'. run_state (status shelf_env) shelf_world =
      (jobj [(''version'', VString CARGO_PKG_VERSION), (''sessions'', VArray [cart, new])], w') \<and>
    row_name cart = Some ''cart'' \<and> json_get cart ''unsupported'' = Some (VBool True) \<and>
    json_get cart ''port'' = Some (port_json 5678) \<and> json_get cart ''alive'' = Some (VBool True) \<and>
    row_name new = Some ''new'' \<and> json_get new ''unsupported'' = Some (VBool False) \<and>
    json_get new ''alive'' = Some (VBool False)"
proof -
  let ?root = "''/h/.agent-debugger/sessions''"
  have joins: "path_join ?root n = ?root @ ''/'' @ n" if "plain_segment n" for n
    using that by (cases n) (auto simp: path_join_def plain_segment_def starts_with_def)
  have "quiet shelf_env" by (simp add: quiet_def alone_def shelf_env_def demo_env_def)
  moreover have "sessions_dir shelf_env = Inr ?root"
    by (simp add: path_join_def starts_with_def sessions_dir_def agent_home_def and_then_def trim_def is_whitespace_single
        is_cont_def code_def shelf_env_def)
  moreover have "list_all valid_utf8 (dir_names shelf_env (calls shelf_world) ?root)"
    by (simp add: shelf_env_def valid_utf8_ascii code_def)
  moreover have "sort (filter (is_session (kern shelf_world) ?root) (dir_names shelf_env (calls shelf_world) ?root)) = [''cart'', ''new'']"
    by (simp add: shelf_env_def is_session_def joins plain_segment_def less_eq_char_def)
  ultimately obtain rows w' where run: "run_state (status shelf_env) shelf_world =
      (jobj [(''version'', VString CARGO_PKG_VERSION), (''sessions'', VArray rows)], w')"
    and rows: "list_all2 (\<lambda>name row. row_tells shelf_env (kern shelf_world) ?root name row \<and> row_name row = Some name)
      [''cart'', ''new''] rows"
    using status_lists_sessions [of shelf_env ?root shelf_world 0] by auto
  then obtain cart new where rows: "rows = [cart, new]"
    "row_tells shelf_env (kern shelf_world) ?root ''cart'' cart" "row_name cart = Some ''cart''"
    "row_tells shelf_env (kern shelf_world) ?root ''new'' new" "row_name new = Some ''new''"
    by (auto simp: list_all2_Cons1)
  have dirs: "path_join ?root ''cart'' = demo_dir" "path_join ?root ''new'' = ''/h/.agent-debugger/sessions/new''"
    by (simp_all add: joins plain_segment_def demo_dir_def)
  have "\<not> v2_object demo_session" by (simp add: v2_object_def demo_session_def json_access jobj_def)
  then have cart: "\<not> current_at shelf_env (kern shelf_world) demo_dir" "port_at shelf_env (kern shelf_world) demo_dir = 5678"
    by (auto simp: current_at_def marked_v2_def port_at_def live_at_def shelf_reads live_session(4))
  let ?new = "''/h/.agent-debugger/sessions/new''"
  have in_new: "path_join ?new n = ?new @ ''/'' @ n" if "plain_segment n" for n
    using that by (cases n) (auto simp: path_join_def plain_segment_def starts_with_def)
  have new: "current_at shelf_env (kern shelf_world) ?new" "port_at shelf_env (kern shelf_world) ?new = 0"
    using shelf_reads(4-6)
    by (simp_all add: current_at_def marked_v2_def port_at_def live_at_def in_new plain_segment_def demo_v2 json_at_def
        u16_field_def json_access to_option_def)
  have "json_get cart ''unsupported'' = Some (VBool True) \<and> json_get cart ''port'' = Some (port_json 5678) \<and>
      json_get cart ''alive'' = Some (VBool True)"
    using rows(2) by (auto simp: row_tells_def Let_def dirs cart port_says_def shelf_verdict verdict_says_def)
  moreover have "json_get new ''unsupported'' = Some (VBool False) \<and> json_get new ''alive'' = Some (VBool False)"
    using rows(4) by (auto simp: row_tells_def Let_def dirs new port_says_def)
  ultimately show ?thesis
    using run rows(3,5) unfolding rows(1) by blast
qed

end
