(* ===== verification/Company.thy ===== *)
theory Company
  imports Endpoint
begin

text \<open>
  The locks of \<open>src/session/locks.rs\<close> in company: between any two calls of one claimant the others take steps of the
  protocol of \<open>Starters\<close>, and so does it, call by call. What a claimant relies on is that the others play by the
  rules (\<open>company\<close>); what it guarantees in turn is that each of its calls is such a step (\<open>plays\<close>).
\<close>

section \<open>Rely and guarantee\<close>

text \<open>A step of the others leaves claimant \<open>i\<close> where it is, a step of its own leaves the others there.\<close>

definition mates_step ::
    "(string \<Rightarrow> string \<Rightarrow> bool) \<Rightarrow> string \<Rightarrow> 'p \<Rightarrow> kern \<times> ('p \<Rightarrow> starter) \<Rightarrow> kern \<times> ('p \<Rightarrow> starter) \<Rightarrow> bool" where
  "mates_step mine path i c c' = (claimant_step mine path c c' \<and> snd c' i = snd c i)"

definition own_step ::
    "(string \<Rightarrow> string \<Rightarrow> bool) \<Rightarrow> string \<Rightarrow> 'p \<Rightarrow> kern \<times> ('p \<Rightarrow> starter) \<Rightarrow> kern \<times> ('p \<Rightarrow> starter) \<Rightarrow> bool" where
  "own_step mine path i c c' = (claimant_step mine path c c' \<and> (\<forall>j. j \<noteq> i \<longrightarrow> snd c' j = snd c j))"

text \<open>From call \<open>n\<close> on the others play by the rules: what happens before the call are steps of theirs that lead to
  a \<open>fine\<close> configuration, and whatever fine configuration claimant \<open>i\<close> makes of that, they go on so.\<close>

coinductive company ::
    "env \<Rightarrow> (string \<Rightarrow> string \<Rightarrow> bool) \<Rightarrow> string \<Rightarrow> (kern \<times> ('p \<Rightarrow> starter) \<Rightarrow> bool) \<Rightarrow> 'p \<Rightarrow> nat \<Rightarrow>
     kern \<times> ('p \<Rightarrow> starter) \<Rightarrow> bool" for E mine path fine i where
  "(mates_step mine path i)\<^sup>*\<^sup>* (k, s) (interfere E n k, s') \<Longrightarrow> fine (interfere E n k, s') \<Longrightarrow>
   (\<And>c. own_step mine path i (interfere E n k, s') c \<Longrightarrow> fine c \<Longrightarrow> company E mine path fine i (Suc n) c) \<Longrightarrow>
   company E mine path fine i n (k, s)"

inductive_cases companyE: "company E mine path fine i n (k, s)"

text \<open>Claimant \<open>i\<close> guarantees: run in company, \<open>m\<close> leads from \<open>st\<close> by steps of the protocol, its own and those of the
  others, to a state that \<open>Q\<close> allows with the result, and leaves it in company.\<close>

definition plays ::
    "env \<Rightarrow> (string \<Rightarrow> string \<Rightarrow> bool) \<Rightarrow> string \<Rightarrow> (kern \<times> ('p \<Rightarrow> starter) \<Rightarrow> bool) \<Rightarrow> 'p \<Rightarrow> starter \<Rightarrow> 'a io \<Rightarrow>
     ('a \<Rightarrow> starter \<Rightarrow> bool) \<Rightarrow> bool" where
  "plays E mine path fine i st m Q =
     (\<forall>w s r w'. company E mine path fine i (calls w) (kern w, s) \<longrightarrow> s i = st \<longrightarrow> run_state m w = (r, w') \<longrightarrow>
        (\<exists>s'. claimant_steps mine path (kern w, s) (kern w', s') \<and>
           company E mine path fine i (calls w') (kern w', s') \<and> Q r (s' i)))"

lemma playsD:
  "plays E mine path fine i st m Q \<Longrightarrow> company E mine path fine i (calls w) (kern w, s) \<Longrightarrow> s i = st \<Longrightarrow>
   run_state m w = (r, w') \<Longrightarrow>
   \<exists>s'. claimant_steps mine path (kern w, s) (kern w', s') \<and>
     company E mine path fine i (calls w') (kern w', s') \<and> Q r (s' i)"
  unfolding plays_def by blast

lemma mates_steps: "(mates_step mine path i)\<^sup>*\<^sup>* c c' \<Longrightarrow> claimant_steps mine path c c' \<and> snd c' i = snd c i"
  by (induction rule: rtranclp_induct) (auto simp: mates_step_def intro: rtranclp.rtrancl_into_rtrancl)

text \<open>One call: the others move, then it takes one step.\<close>

lemma plays_call:
  assumes "\<And>w s r w'. fine (seen E w, s) \<Longrightarrow> s i = st \<Longrightarrow> run_state m w = (r, w') \<Longrightarrow>
    calls w' = Suc (calls w) \<and> (\<exists>s'. own_step mine path i (seen E w, s) (kern w', s') \<and> fine (kern w', s') \<and> Q r (s' i))"
  shows "plays E mine path fine i st m Q"
  unfolding plays_def
proof (intro allI impI)
  fix w s r w'
  assume "company E mine path fine i (calls w) (kern w, s)" and st: "s i = st" and run: "run_state m w = (r, w')"
  then obtain s1 where mates: "(mates_step mine path i)\<^sup>*\<^sup>* (kern w, s) (seen E w, s1)" and fine: "fine (seen E w, s1)"
    and on: "\<And>c. own_step mine path i (seen E w, s1) c \<Longrightarrow> fine c \<Longrightarrow> company E mine path fine i (Suc (calls w)) c"
    unfolding seen_def by (elim companyE) blast
  from mates_steps [OF mates] st have before: "claimant_steps mine path (kern w, s) (seen E w, s1)" "s1 i = st" by auto
  from assms [OF fine before(2) run] obtain s' where "calls w' = Suc (calls w)"
    and own: "own_step mine path i (seen E w, s1) (kern w', s')" "fine (kern w', s')" "Q r (s' i)" by blast
  with on [OF own(1,2)] before(1)
  show "\<exists>s'. claimant_steps mine path (kern w, s) (kern w', s') \<and>
      company E mine path fine i (calls w') (kern w', s') \<and> Q r (s' i)"
    by (auto simp: own_step_def intro: rtranclp.rtrancl_into_rtrancl)
qed

lemma plays_return: "Q a st \<Longrightarrow> plays E mine path fine i st (State_Monad.return a) Q"
  by (auto simp: plays_def)

lemma plays_ok: "Q (Inr a) st \<Longrightarrow> plays E mine path fine i st (ok a) Q"
  and plays_err: "Q (Inl e) st \<Longrightarrow> plays E mine path fine i st (err e) Q"
  and plays_lift: "Q r st \<Longrightarrow> plays E mine path fine i st (lift_result r) Q"
  unfolding ok_def err_def lift_result_def by (rule plays_return, assumption)+

lemma plays_conseq:
  assumes "plays E mine path fine i st m R" and "\<And>a st'. R a st' \<Longrightarrow> Q a st'"
  shows "plays E mine path fine i st m Q"
  unfolding plays_def using playsD [OF assms(1)] assms(2) by metis

lemma plays_bind:
  assumes "plays E mine path fine i st m R" and "\<And>a st'. R a st' \<Longrightarrow> plays E mine path fine i st' (f a) Q"
  shows "plays E mine path fine i st (State_Monad.bind m f) Q"
  unfolding plays_def
proof (intro allI impI)
  fix w s r w'
  assume c: "company E mine path fine i (calls w) (kern w, s)" "s i = st"
    and run: "run_state (State_Monad.bind m f) w = (r, w')"
  obtain a w1 where 1: "run_state m w = (a, w1)" by fastforce
  with run have 2: "run_state (f a) w1 = (r, w')" by (simp add: State_Monad.bind_def)
  from playsD [OF assms(1) c 1] obtain s1 where s1: "claimant_steps mine path (kern w, s) (kern w1, s1)"
    "company E mine path fine i (calls w1) (kern w1, s1)" "R a (s1 i)" by blast
  from playsD [OF assms(2) [OF s1(3)] s1(2) refl 2] s1(1)
  show "\<exists>s'. claimant_steps mine path (kern w, s) (kern w', s') \<and>
      company E mine path fine i (calls w') (kern w', s') \<and> Q r (s' i)"
    by (meson rtranclp_trans)
qed

lemma plays_try:
  assumes "plays E mine path fine i st m R" and "\<And>a st'. R (Inr a) st' \<Longrightarrow> plays E mine path fine i st' (f a) Q"
    and "\<And>e st'. R (Inl e) st' \<Longrightarrow> Q (Inl e) st'"
  shows "plays E mine path fine i st (try_io m f) Q"
  unfolding try_io_def
  by (rule plays_bind [OF assms(1)]) (auto split: sum.split intro: plays_return assms(2,3))

lemma plays_map_err:
  assumes "plays E mine path fine i st m R"
    and "\<And>a st'. R (Inr a) st' \<Longrightarrow> Q (Inr a) st'" and "\<And>e st'. R (Inl e) st' \<Longrightarrow> Q (Inl (h e)) st'"
  shows "plays E mine path fine i st (map_err h m) Q"
  unfolding map_err_def
  by (rule plays_bind [OF assms(1)]) (auto split: sum.split intro: plays_return assms(2,3))

lemma own_still: "own_step mine path i (k, s) (k, s)"
  by (simp add: own_step_def elsewhere)

text \<open>Calls that look: what they answer is a fault or read off a fine configuration.\<close>

definition observed :: "env \<Rightarrow> (kern \<times> ('p \<Rightarrow> starter) \<Rightarrow> bool) \<Rightarrow> (kern \<Rightarrow> io_error + 'a) \<Rightarrow> io_error + 'a \<Rightarrow> bool" where
  "observed E fine f r = ((\<exists>n e. fault E n = Some e \<and> r = Inl e) \<or> (\<exists>k s. fine (k, s) \<and> r = f k))"

lemma plays_still:
  assumes "\<And>w s r w'. fine (seen E w, s) \<Longrightarrow> s i = st \<Longrightarrow> run_state m w = (r, w') \<Longrightarrow>
    kern w' = seen E w \<and> calls w' = Suc (calls w) \<and> R r"
  shows "plays E mine path fine i st m (\<lambda>r st'. st' = st \<and> R r)"
proof (rule plays_call)
  fix w s r w'
  assume "fine (seen E w, s)" "s i = st" "run_state m w = (r, w')"
  with assms [OF this] own_still [of mine path i "seen E w" s]
  show "calls w' = Suc (calls w) \<and> (\<exists>s'. own_step mine path i (seen E w, s) (kern w', s') \<and> fine (kern w', s') \<and>
      s' i = st \<and> R r)"
    by (intro conjI exI [of _ s]) simp_all
qed

lemma plays_look: "plays E mine path fine i st (look E f) (\<lambda>r st'. st' = st \<and> observed E fine f r)"
  by (rule plays_still) (auto simp: observed_def split: option.splits)

lemma plays_now: "plays E mine path fine i st (now E) (\<lambda>t st'. st' = st \<and> t \<in> range (clock E))"
  by (rule plays_still) auto

lemma plays_sleep: "plays E mine path fine i st (sleep E) (\<lambda>_ st'. st' = st)"
  by (rule plays_conseq [OF plays_still [where R = "\<lambda>_. True"]]) auto

lemma plays_nonce: "plays E mine path fine i st (startup_nonce E) (\<lambda>_ st'. st' = st)"
  unfolding startup_nonce_def
  by (rule plays_bind [where R = "\<lambda>_ st'. st' = st"], simp add: plays_def,
      blast, rule plays_bind [OF plays_now]) (auto intro: plays_return)

lemma plays_attempts:
  assumes "plays E mine path fine i st op (\<lambda>r st'. st' = st \<and> R r)"
  shows "plays E mine path fine i st (attempts E n op l) (\<lambda>r st'. st' = st \<and> (\<forall>a. r = Inr (Some a) \<longrightarrow> R (Inr a)))"
proof (induction n arbitrary: l)
  case (Suc n)
  show ?case
    unfolding attempts.simps
  proof (rule plays_bind [OF assms], elim conjE)
    fix r st' assume r: "R r" and "st' = st"
    have again: "plays E mine path fine i st (do { _ \<leftarrow> sleep E; attempts E n op e })
        (\<lambda>r st'. st' = st \<and> (\<forall>a. r = Inr (Some a) \<longrightarrow> R (Inr a)))" for e
      by (rule plays_bind [OF plays_sleep]) (use Suc in simp)
    show "plays E mine path fine i st' (case r of Inl e \<Rightarrow> if io_kind e = NotFound then ok None
        else do { _ \<leftarrow> sleep E; attempts E n op e } | Inr a \<Rightarrow> ok (Some a))
        (\<lambda>r st'. st' = st \<and> (\<forall>a. r = Inr (Some a) \<longrightarrow> R (Inr a)))"
      using r \<open>st' = st\<close> again by (cases r) (auto intro: plays_ok)
  qed
qed (simp add: plays_err)

section \<open>The calls of a claimant\<close>

text \<open>A configuration in order: at most one claimant in possession, what it wrote or is to write its own record,
  and the path free or a record not older than \<open>since\<close> that is \<open>approved\<close> in the state of the machine.\<close>

definition in_order ::
    "nat \<Rightarrow> (kern \<Rightarrow> bool) \<Rightarrow> (kern \<Rightarrow> string \<Rightarrow> bool) \<Rightarrow> (string \<Rightarrow> bool) \<Rightarrow> string \<Rightarrow> 'p \<Rightarrow> kern \<times> ('p \<Rightarrow> starter) \<Rightarrow> bool" where
  "in_order since ground approved own path i = (\<lambda>(k, s).
     one_owner path (k, s) \<and> ground k \<and> (\<forall>ino c. s i = Opened ino c \<longrightarrow> own c) \<and>
     (case files k path of None \<Rightarrow> True | Some (File _ c t) \<Rightarrow> since \<le> t \<and> approved k c | Some _ \<Rightarrow> False))"

lemma created_files:
  "k_create_new p t k = (Inr ino, k') \<Longrightarrow> files k p = None \<and> files k' = (files k)(p \<mapsto> File ino [] t)"
  by (auto simp: k_create_new_def k_create_def put_node_def split: if_splits)

lemma in_order_record: "in_order since ground approved own path i (k, s) \<Longrightarrow> record_of (s i) (files k path)"
  by (auto simp: in_order_def one_owner_def)

lemma own_one_owner: "own_step mine path i c c' \<Longrightarrow> one_owner path c \<Longrightarrow> one_owner path c'"
  unfolding own_step_def using one_owner_step by blast

text \<open>What makes records approved: one's own are, cut short or not, on a machine where the claimant runs, and approval
  does not go away as long as directories stay.\<close>

locale approving =
  fixes ground :: "kern \<Rightarrow> bool" and approved :: "kern \<Rightarrow> string \<Rightarrow> bool" and own :: "string \<Rightarrow> bool"
  assumes own_approved: "ground k \<Longrightarrow> own c \<Longrightarrow> approved k (take j c)"
    and stays: "(\<And>p. is_dir (files k p) \<Longrightarrow> is_dir (files k' p)) \<Longrightarrow>
      (ground k \<longrightarrow> ground k') \<and> (approved k c \<longrightarrow> approved k' c)"
begin

abbreviation "fine since path i \<equiv> in_order since ground approved own path i"

lemma create_rule:
  assumes "\<And>n. since \<le> clock E n" and "own c"
  shows "plays E mine path (fine since path i) i Out (create_new E path)
    (\<lambda>r st. st = (case r of Inr ino \<Rightarrow> Opened ino c | Inl _ \<Rightarrow> Out))"
proof (rule plays_call)
  fix w s r w'
  let ?k = "seen E w" and ?t = "clock E (calls w)"
  assume fine: "fine since path i (?k, s)" and out: "s i = Out" and run: "run_state (create_new E path) w = (r, w')"
  show "calls w' = Suc (calls w) \<and> (\<exists>s'. own_step mine path i (?k, s) (kern w', s') \<and> fine since path i (kern w', s') \<and>
      s' i = (case r of Inr ino \<Rightarrow> Opened ino c | Inl _ \<Rightarrow> Out))"
  proof (cases r)
    case (Inl e)
    with run have "kern w' = ?k" "calls w' = Suc (calls w)"
      by (auto simp: create_new_def k_create_new_def k_create_def split: option.splits if_splits)
    with Inl fine out own_still [of mine path i ?k s] show ?thesis by (intro conjI exI [of _ s]) simp_all
  next
    case (Inr ino)
    with run have made: "k_create_new path ?t ?k = (Inr ino, kern w')" and n: "calls w' = Suc (calls w)"
      by (auto simp: create_new_def prod_eq_iff split: option.splits)
    then have there: "files (kern w') path = Some (File ino [] ?t)"
      and others: "\<And>p. p \<noteq> path \<Longrightarrow> files (kern w') p = files ?k p"
      and free: "files ?k path = None"
      using created_files [OF made] by auto
    have step: "own_step mine path i (?k, s) (kern w', s(i := Opened ino c))"
      unfolding own_step_def using claim [of s i, OF out made] by simp
    have dirs: "is_dir (files (kern w') p)" if "is_dir (files ?k p)" for p
      using that free by (cases "p = path") (simp_all add: others)
    have "fine since path i (kern w', s(i := Opened ino c))"
      using own_one_owner [OF step] fine stays [of ?k "kern w'" "[]", OF dirs] own_approved [of "kern w'" c 0] assms there
      by (simp add: in_order_def)
    with step n Inr show ?thesis by (intro conjI exI [of _ "s(i := Opened ino c)"]) simp_all
  qed
qed

lemma append_dirs: "is_dir (files k p) \<Longrightarrow> is_dir (files (append_ino j c t k) p)"
  by (auto simp: append_ino_def elim!: is_dirE)

lemma write_all_rule:
  assumes "\<And>n. since \<le> clock E n"
  shows "plays E mine path (fine since path i) i (Opened ino c) (write_all E ino c)
    (\<lambda>r st. st = (case r of Inr _ \<Rightarrow> Owner c | Inl _ \<Rightarrow> Failed))"
proof (rule plays_call)
  fix w s r w'
  let ?k = "seen E w" and ?t = "clock E (calls w)"
  assume fine: "fine since path i (?k, s)" and st: "s i = Opened ino c" and run: "run_state (write_all E ino c) w = (r, w')"
  then obtain t where there: "files ?k path = Some (File ino [] t)" and c: "own c"
    using in_order_record [OF fine] by (auto simp: in_order_def)
  have after: "fine since path i (append_ino ino (take j c) ?t ?k, s(i := st'))"
    if "own_step mine path i (?k, s) (append_ino ino (take j c) ?t ?k, s(i := st'))" "\<And>ino c. st' \<noteq> Opened ino c" for j st'
  proof -
    have "ground (append_ino ino (take j c) ?t ?k)"
      using stays [of ?k _ "[]", OF append_dirs] fine by (simp add: in_order_def)
    with own_approved [OF this c, of j] own_one_owner [OF that(1)] fine that(2) assms append_ino_self [OF there] show ?thesis
      by (simp add: in_order_def)
  qed
  show "calls w' = Suc (calls w) \<and> (\<exists>s'. own_step mine path i (?k, s) (kern w', s') \<and> fine since path i (kern w', s') \<and>
      s' i = (case r of Inr _ \<Rightarrow> Owner c | Inl _ \<Rightarrow> Failed))"
  proof (cases "fault E (calls w)")
    case None
    have "own_step mine path i (?k, s) (append_ino ino (take (length c) c) ?t ?k, s(i := Owner c))"
      unfolding own_step_def using record_nonce [of s i, OF st, of mine path ?k ?t] by simp
    with after [OF this] None run show ?thesis by (intro conjI exI [of _ "s(i := Owner c)"]) auto
  next
    case (Some e)
    let ?j = "written_before_fault E (calls w)"
    have "own_step mine path i (?k, s) (append_ino ino (take ?j c) ?t ?k, s(i := Failed))"
      unfolding own_step_def using write_fails [of s i, OF st, of mine path ?k ?j ?t] by simp
    with after [OF this] Some run show ?thesis by (intro conjI exI [of _ "s(i := Failed)"]) auto
  qed
qed

lemma remove_rule:
  assumes "st \<in> {Failed, Leaving c}"
  shows "plays E mine path (fine since path i) i st (remove_file E path) (\<lambda>_ st. st = Out)"
proof (rule plays_call)
  fix w s r w'
  let ?k = "seen E w"
  assume fine: "fine since path i (?k, s)" and st: "s i = st" and run: "run_state (remove_file E path) w = (r, w')"
  from fine st assms obtain j c' t where there: "files ?k path = Some (File j c' t)"
    using in_order_record [OF fine] by (auto elim!: is_fileE)
  have after: "fine since path i (kern w', s(i := Out))" if "own_step mine path i (?k, s) (kern w', s(i := Out))"
    "kern w' = ?k \<or> kern w' = put_node path None ?k"
  proof -
    have "is_dir (files (kern w') p)" if "is_dir (files ?k p)" for p
      using \<open>kern w' = ?k \<or> kern w' = put_node path None ?k\<close> that there by (cases "p = path") (auto simp: put_node_def)
    from stays [of ?k "kern w'" c', OF this] fine own_one_owner [OF that(1)] that(2) there show ?thesis
      by (auto simp: in_order_def put_node_def)
  qed
  show "calls w' = Suc (calls w) \<and> (\<exists>s'. own_step mine path i (?k, s) (kern w', s') \<and> fine since path i (kern w', s') \<and> s' i = Out)"
  proof (cases "fault E (calls w)")
    case None
    then have k: "kern w' = put_node path None ?k" "calls w' = Suc (calls w)" "kern w' = snd (k_remove_file path ?k)"
      using run there by (auto simp: remove_file_def k_remove_file_def)
    have "own_step mine path i (?k, s) (kern w', s(i := Out))"
      unfolding own_step_def k(3) using unlink [of s i c mine path ?k] st assms by simp
    with after [OF this] k show ?thesis by (intro conjI exI [of _ "s(i := Out)"]) simp_all
  next
    case (Some e)
    then have k: "kern w' = ?k" "calls w' = Suc (calls w)" using run by (auto simp: remove_file_def)
    have "own_step mine path i (?k, s) (kern w', s(i := Out))"
      unfolding own_step_def k(1) using walk_away [of s i c mine path ?k] st assms by auto
    with after [OF this] k show ?thesis by (intro conjI exI [of _ "s(i := Out)"]) simp_all
  qed
qed

lemma write_rule:
  assumes "\<And>n. since \<le> clock E n"
  shows "plays E mine path (fine since path i) i (Opened ino c) (write_lock_record E ino path c)
    (\<lambda>r st. st = (case r of Inr _ \<Rightarrow> Owner c | Inl _ \<Rightarrow> Out))"
  unfolding write_lock_record_def
proof (rule plays_bind [OF write_all_rule [OF assms]])
  fix r st' assume st': "st' = (case r of Inr _ \<Rightarrow> Owner c | Inl _ \<Rightarrow> Failed)"
  have "plays E mine path (fine since path i) i Failed (do { _ \<leftarrow> remove_file E path; err e })
      (\<lambda>r st. st = (case r of Inr _ \<Rightarrow> Owner c | Inl _ \<Rightarrow> Out))" for e
    by (rule plays_bind [OF remove_rule]) (auto intro: plays_err)
  with st' show "plays E mine path (fine since path i) i st' (case r of Inl e \<Rightarrow> do { _ \<leftarrow> remove_file E path; err e } | Inr _ \<Rightarrow> ok ())
      (\<lambda>r st. st = (case r of Inr _ \<Rightarrow> Owner c | Inl _ \<Rightarrow> Out))"
    by (cases r) (auto intro: plays_ok)
qed

text \<open>Creating the record and writing it; the guard answered is the one prepared.\<close>

lemma claim_rule:
  assumes "\<And>n. since \<le> clock E n" and "own c"
  shows "plays E mine path (fine since path i) i Out (try_io (map_err h (create_new E path)) (\<lambda>f.
      try_io (map_err h' (write_lock_record E f path c)) (\<lambda>_. ok g)))
    (\<lambda>r st. st = (case r of Inr _ \<Rightarrow> Owner c | Inl _ \<Rightarrow> Out) \<and> (\<forall>a. r = Inr a \<longrightarrow> a = g))"
proof (rule plays_try [where R = "\<lambda>r st. st = (case r of Inr ino \<Rightarrow> Opened ino c | Inl _ \<Rightarrow> Out)"], goal_cases)
  case (2 f st')
  then have st': "st' = Opened f c" by simp
  show ?case
    unfolding st'
    by (rule plays_try [where R = "\<lambda>r st. st = (case r of Inr _ \<Rightarrow> Owner c | Inl _ \<Rightarrow> Out)"],
        rule plays_map_err [OF write_rule [OF assms(1)]]) (auto intro: plays_ok)
qed (auto intro: plays_map_err [OF create_rule [OF assms]])

text \<open>Reading the record of an owner: it is its own, or nothing is done about it.\<close>

lemma release_rule:
  assumes "\<And>w b w'. run_state chk w = (b, w') \<Longrightarrow> w' = moved E w \<and>
      (b \<longrightarrow> (\<exists>c'. k_read_to_string path (seen E w) = Inr c' \<and> mine c' c))"
  shows "plays E mine path (fine since path i) i (Owner c) (do { b \<leftarrow> chk;
      if b then do { _ \<leftarrow> remove_file E path; State_Monad.return () } else State_Monad.return () }) (\<lambda>_ st. st = Out)"
proof (rule plays_bind [where R = "\<lambda>b st. st = (if b then Leaving c else Out)"])
  show "plays E mine path (fine since path i) i (Owner c) chk (\<lambda>b st. st = (if b then Leaving c else Out))"
  proof (rule plays_call)
    fix w s b w'
    let ?k = "seen E w" and ?st = "if b then Leaving c else Out"
    assume fine: "fine since path i (?k, s)" and st: "s i = Owner c" and run: "run_state chk w = (b, w')"
    note checked = assms [OF run]
    have step: "own_step mine path i (?k, s) (?k, s(i := ?st))"
    proof (cases b)
      case True
      with checked obtain c' where c': "k_read_to_string path ?k = Inr c'" "mine c' c" by blast
      from verify [of s i, OF st c'(1), of mine] c'(2) True show ?thesis by (simp add: own_step_def)
    next
      case False
      with walk_away [of s i c mine path ?k] st show ?thesis by (simp add: own_step_def)
    qed
    have "fine since path i (?k, s(i := ?st))"
      using own_one_owner [OF step] fine by (auto simp: in_order_def)
    with step checked show "calls w' = Suc (calls w) \<and> (\<exists>s'. own_step mine path i (?k, s) (kern w', s') \<and>
        fine since path i (kern w', s') \<and> s' i = ?st)"
      by (intro conjI exI [of _ "s(i := ?st)"]) simp_all
  qed
qed (auto intro: plays_return plays_bind [OF remove_rule [of "Leaving c" c]])

end

section \<open>Startup locks\<close>

interpretation plain: approving "\<lambda>_. True" "\<lambda>_ _. True" "\<lambda>_. True"
  by unfold_locales simp_all

abbreviation started_since :: "nat \<Rightarrow> string \<Rightarrow> 'p \<Rightarrow> kern \<times> ('p \<Rightarrow> starter) \<Rightarrow> bool" where
  "started_since since path i \<equiv> in_order since (\<lambda>_. True) (\<lambda>_ _. True) (\<lambda>_. True) path i"

text \<open>A record in order is dated when it was written.\<close>

lemma plays_record:
  "plays E mine path fine i st (read_lock_bytes E path) (\<lambda>_ st'. st' = st)"
  unfolding read_lock_bytes_def read_to_string_def
  by (rule plays_conseq [OF plays_attempts [OF plays_look]]) simp

lemma plays_mtime:
  assumes fine_def: "fine = in_order since ground approved own path i"
  shows "plays E mine path fine i st (lock_mtime E path) (\<lambda>r st'. st' = st \<and> (\<forall>m. r = Inr (Some m) \<longrightarrow> since \<le> m))"
proof -
  have dated: "since \<le> m" if "fine (k, s)" "(case k_stat path k of Inl e \<Rightarrow> Inl e | Inr n \<Rightarrow> Inr (mtime_of n)) = Inr m" for k s m
  proof (cases "files k path")
    case (Some nd)
    with that(1) obtain j c t where "nd = File j c t" "since \<le> t"
      by (auto simp: fine_def in_order_def split: node.splits)
    with Some that(2) show ?thesis by (simp add: k_stat_def follow_file)
  qed (use that(2) in \<open>simp add: k_stat_def follow_def eval_nat_numeral\<close>)
  show ?thesis
    unfolding lock_mtime_def modified_def
    by (rule plays_conseq [OF plays_attempts [OF plays_look]]) (auto simp: observed_def dest: dated [OF _ sym])
qed

lemma plays_young:
  assumes "since \<le> m" and "\<And>n. clock E n < since + secs 300"
  shows "plays E mine path fine i st (stale_startup_mtime E m) (\<lambda>stale st'. st' = st \<and> \<not> stale)"
  unfolding stale_startup_mtime_def
proof (rule plays_bind [OF plays_now], elim conjE, rule plays_return)
  fix t st' assume "st' = st" "t \<in> range (clock E)"
  moreover from this(2) obtain n where "t = clock E n" by blast
  ultimately show "st' = st \<and> \<not> (m \<le> t \<and> STARTUP_LOCK_STALE \<le> t - m)"
    using assms(1) assms(2) [of n] by (auto simp: STARTUP_LOCK_STALE_def)
qed

text \<open>The whole of an attempt.\<close>

lemma plays_acquire:
  assumes window: "\<And>n. since \<le> clock E n" "\<And>n. clock E n < since + secs 300"
  shows "plays E (=) path (started_since since path i) i Out (acquire_startup_lock E path) startup_outcome"
proof -
  let ?plays = "\<lambda>m :: lock_guard result io. plays E (=) path (started_since since path i) i Out m startup_outcome"
  have starting: "?plays (lift_result (starting path))"
    by (rule plays_lift) (simp add: startup_outcome_def starting_def bail_def)
  have claim: "?plays (try_io (map_err h (create_new E path)) (\<lambda>f.
      try_io (map_err h' (write_lock_record E f path n)) (\<lambda>_. ok \<lparr>guard_path = path, guard_nonce = n\<rparr>)))" for h h' n
    by (rule plays_conseq [OF plain.claim_rule [OF window(1) TrueI]]) (auto simp: startup_outcome_def split: sum.splits)
  have again: "?plays (claim_stale_startup_lock E path)"
    unfolding claim_stale_startup_lock_def by (rule plays_bind [OF plays_nonce]) (simp add: claim)
  have reclaim: "?plays (reclaim_and_claim E path raw)" for raw
    unfolding reclaim_and_claim_def
  proof (rule plays_bind [OF plays_mtime [OF refl]], elim conjE, hypsubst)
    fix m assume m: "\<forall>t. m = Inr (Some t) \<longrightarrow> since \<le> t"
    have young: "?plays (do { stale \<leftarrow> stale_startup_mtime E t; if \<not> stale then lift_result (starting path) else f })"
      if "since \<le> t" for t f
      by (rule plays_bind [OF plays_young [OF that window(2)]]) (simp add: starting)
    show "?plays (case m of Inl _ \<Rightarrow> lift_result (starting path) | Inr None \<Rightarrow> claim_stale_startup_lock E path
        | Inr (Some mtime) \<Rightarrow> do { stale \<leftarrow> stale_startup_mtime E mtime;
            if \<not> stale then lift_result (starting path)
            else do { gone \<leftarrow> quarantine_verified E path raw;
              if \<not> gone then lift_result (starting path) else claim_stale_startup_lock E path } })"
      using m starting again by (auto intro: young split: sum.split option.split)
  qed
  have held: "?plays (do { raw \<leftarrow> read_lock_bytes E path; (case raw of Inl _ \<Rightarrow> lift_result (starting path)
      | Inr None \<Rightarrow> claim_stale_startup_lock E path | Inr (Some r) \<Rightarrow> reclaim_and_claim E path r) })"
    by (rule plays_bind [OF plays_record]) (auto simp: starting again reclaim split: sum.split option.split)
  show ?thesis
    unfolding acquire_startup_lock_def
  proof (rule plays_bind [OF plays_nonce], hypsubst, rule plays_bind [OF plain.create_rule [OF window(1) TrueI]], hypsubst)
    fix n f
    show "plays E (=) path (started_since since path i) i (case f of Inr ino \<Rightarrow> Opened ino n | Inl _ \<Rightarrow> Out)
      (case f of Inl e \<Rightarrow> if io_kind e \<noteq> AlreadyExists then err (Msg (''cannot create startup lock: '' @ io_text e))
          else do { raw \<leftarrow> read_lock_bytes E path; (case raw of Inl _ \<Rightarrow> lift_result (starting path)
            | Inr None \<Rightarrow> claim_stale_startup_lock E path | Inr (Some r) \<Rightarrow> reclaim_and_claim E path r) }
        | Inr f \<Rightarrow> try_io (map_err (cannot_write_lock ''startup'') (write_lock_record E f path n))
            (\<lambda>_. ok \<lparr>guard_path = path, guard_nonce = n\<rparr>)) startup_outcome"
    proof (cases f)
      case (Inl e)
      with held show ?thesis by (auto simp: startup_outcome_def intro: plays_err)
    next
      case (Inr ino)
      show ?thesis
        unfolding Inr sum.case
        by (rule plays_try [where R = "\<lambda>r st. st = (case r of Inr _ \<Rightarrow> Owner n | Inl _ \<Rightarrow> Out)"],
            rule plays_map_err [OF plain.write_rule [OF window(1)]]) (auto simp: startup_outcome_def intro: plays_ok)
    qed
  qed
qed

lemma plays_release:
  "plays E (=) path (started_since since path i) i (Owner n) (release_startup_lock E path n) (\<lambda>_ st. st = Out)"
  unfolding release_startup_lock_def
  by (rule plain.release_rule)
    (auto simp: startup_lock_is_mine_def read_to_string_def State_Monad.bind_def split: option.splits)

section \<open>Endpoint locks\<close>

text \<open>Processes \<open>A\<close> run throughout, and every record names one of them, if it names one; those of the claimant do so
  even when they are cut short.\<close>

definition running :: "u32 set \<Rightarrow> kern \<Rightarrow> bool" where
  "running A k = (\<forall>pid\<in>A. is_dir (files k (''/proc/'' @ show_nat (unat pid))))"

definition names_one_of :: "env \<Rightarrow> u32 set \<Rightarrow> string \<Rightarrow> bool" where
  "names_one_of E A c = (\<forall>pid. record_pid E c = Some pid \<longrightarrow> pid \<in> A)"

definition own_record :: "env \<Rightarrow> u32 set \<Rightarrow> string \<Rightarrow> bool" where
  "own_record E A c = (\<forall>j. names_one_of E A (take j c))"

interpretation live: approving "running A" "\<lambda>_. names_one_of E A" "own_record E A" for E A
  by unfold_locales (auto simp: running_def own_record_def)

abbreviation attached_since :: "env \<Rightarrow> u32 set \<Rightarrow> nat \<Rightarrow> string \<Rightarrow> 'p \<Rightarrow> kern \<times> ('p \<Rightarrow> starter) \<Rightarrow> bool" where
  "attached_since E A since path i \<equiv> in_order since (running A) (\<lambda>_. names_one_of E A) (own_record E A) path i"

lemma plays_named:
  assumes fine_def: "fine = attached_since E A since path i"
  shows "plays E mine path fine i st (read_lock_bytes E path)
    (\<lambda>r st'. st' = st \<and> (\<forall>raw. r = Inr (Some raw) \<longrightarrow> names_one_of E A raw))"
proof -
  have named: "names_one_of E A c" if "fine (k, s)" "k_read_to_string path k = Inr c" for k s c
  proof (cases "files k path")
    case (Some nd)
    with that(1) obtain j c' t where "nd = File j c' t" "names_one_of E A c'"
      by (auto simp: fine_def in_order_def split: node.splits)
    with Some that(2) show ?thesis by (simp add: k_read_to_string_def k_read_def k_stat_def follow_file split: if_splits)
  qed (use that(2) in \<open>simp add: k_read_to_string_def k_read_def k_stat_def follow_def eval_nat_numeral\<close>)
  show ?thesis
    unfolding read_lock_bytes_def read_to_string_def
    by (rule plays_conseq [OF plays_attempts [OF plays_look]]) (auto simp: observed_def dest: named [OF _ sym])
qed

lemma plays_holder:
  assumes "fine = attached_since E A since path i" and "honest E" and "pid \<in> A"
  shows "plays E mine path fine i st (holder_alive E pid) (\<lambda>l st'. st' = st \<and> l \<noteq> Dead)"
proof -
  have there: False if "fine (k, s)" "Inl e = k_lstat (''/proc/'' @ show_nat (unat pid)) k" for k s e
    using that assms(3) by (auto simp: assms(1) in_order_def running_def k_lstat_def elim!: is_dirE split: option.splits dest!: bspec)
  show ?thesis
    unfolding holder_alive_def symlink_metadata_def
    by (rule plays_bind [OF plays_look], elim conjE, rule plays_return)
      (use assms(2) in \<open>auto simp: observed_def honest_def split: sum.splits file_type.splits dest: there\<close>)
qed

lemma plays_attached:
  assumes fine: "fine = attached_since E A since path i" and "honest E" and "since \<le> m" and "names_one_of E A raw"
    and "\<And>n. clock E n < since + secs 7200"
  shows "plays E mine path fine i st (lock_snapshot_is_stale E raw m) (\<lambda>stale st'. st' = st \<and> \<not> stale)"
proof -
  have probe: "plays E mine path fine i st (do { l \<leftarrow> holder_alive E pid; State_Monad.return (l = Dead) })
      (\<lambda>stale st'. st' = st \<and> \<not> stale)" if "record_pid E raw = Some pid" for pid
    by (rule plays_bind [OF plays_holder [OF fine assms(2)]])
      (use that assms(4) in \<open>auto simp: names_one_of_def intro: plays_return\<close>)
  show ?thesis
    unfolding lock_snapshot_is_stale_by_def
  proof (rule plays_bind [OF plays_now], elim conjE, hypsubst)
    fix t assume "t \<in> range (clock E)"
    then obtain n where "t = clock E n" by blast
    then have "\<not> ENDPOINT_LOCK_STALE \<le> t - m" if "m \<le> t"
      using that assms(3) assms(5) [of n] by (simp add: ENDPOINT_LOCK_STALE_def)
    then show "plays E mine path fine i st (if t < m then State_Monad.return False
        else if ENDPOINT_LOCK_STALE \<le> t - m then State_Monad.return True
        else if t - m < ENDPOINT_LOCK_GRACE then State_Monad.return False
        else case record_pid E raw of None \<Rightarrow> State_Monad.return False
          | Some pid \<Rightarrow> do { l \<leftarrow> holder_alive E pid; State_Monad.return (l = Dead) }) (\<lambda>stale st'. st' = st \<and> \<not> stale)"
      using probe by (auto intro: plays_return split: option.split)
  qed
qed

lemma plays_reclaim:
  assumes fine: "fine = attached_since E A since path i" and "honest E" and "\<And>n. clock E n < since + secs 7200"
  shows "plays E mine path fine i st (reclaim_stale_lock E path) (\<lambda>_ st'. st' = st)"
proof -
  have dated: "plays E mine path fine i st (do { stale \<leftarrow> lock_snapshot_is_stale E raw m;
      if \<not> stale then State_Monad.return False else f }) (\<lambda>_ st'. st' = st)" if "since \<le> m" "names_one_of E A raw" for raw m f
    by (rule plays_bind [OF plays_attached [OF fine assms(2) that assms(3)]]) (auto intro: plays_return)
  have named: "plays E mine path fine i st (do { m \<leftarrow> lock_mtime E path; (case m of Inl _ \<Rightarrow> State_Monad.return False
      | Inr None \<Rightarrow> State_Monad.return True
      | Inr (Some mtime) \<Rightarrow> do { stale \<leftarrow> lock_snapshot_is_stale E raw mtime;
          if \<not> stale then State_Monad.return False else quarantine_verified E path raw }) }) (\<lambda>_ st'. st' = st)"
    if "names_one_of E A raw" for raw
    by (rule plays_bind [OF plays_mtime [OF fine]]) (use dated that in \<open>auto intro: plays_return split: sum.split option.split\<close>)
  show ?thesis
    unfolding reclaim_stale_lock_def
    by (rule plays_bind [OF plays_named [OF fine]]) (use named in \<open>auto intro: plays_return split: sum.split option.split\<close>)
qed

lemma k_mkdirs_dirs: "is_dir (files k p) \<Longrightarrow> is_dir (files (snd (k_mkdirs ps t k)) p)"
  by (auto simp: k_mkdirs_keeps elim!: is_dirE)

lemma plays_mkdirs:
  assumes fine: "fine = attached_since E A since path i" and "path \<notin> set (path_prefixes locks)"
  shows "plays E mine path fine i st (create_dir_all E locks) (\<lambda>_ st'. st' = st)"
proof (rule plays_call)
  fix w s r w'
  let ?k = "seen E w" and ?k' = "snd (k_mkdirs (path_prefixes locks) (clock E (calls w)) (seen E w))"
  assume now: "fine (?k, s)" "s i = st" and run: "run_state (create_dir_all E locks) w = (r, w')"
  then have n: "calls w' = Suc (calls w)" and k: "kern w' \<in> {?k, ?k'}"
    by (auto simp: create_dir_all_def split: option.splits)
  have same: "files ?k' path = files ?k path" by (rule k_mkdirs_elsewhere [OF assms(2)])
  then have "own_step mine path i (?k, s) (kern w', s)"
    using k elsewhere [of ?k' path ?k mine s] own_still [of mine path i ?k s] by (auto simp: own_step_def)
  moreover have "fine (?k', s)"
    using now(1) same live.stays [where k = ?k and k' = ?k' and A = A and c = "[]", OF k_mkdirs_dirs] by (simp add: fine in_order_def one_owner_def)
  ultimately show "calls w' = Suc (calls w) \<and> (\<exists>s'. own_step mine path i (?k, s) (kern w', s') \<and> fine (kern w', s') \<and> s' i = st)"
    using n k now by (intro conjI exI [of _ s]) auto
qed

lemma plays_claim_endpoint:
  assumes "\<And>n. since \<le> clock E n" and "\<And>n t. own_record E A (to_text (codec E) (endpoint_record E n name t))"
  shows "plays E mine path (attached_since E A since path i) i Out (claim_endpoint E path name)
    (\<lambda>r st. \<exists>t. st = (case r of Inr g \<Rightarrow> Owner (to_text (codec E) (endpoint_record E (guard_nonce g) name t)) | Inl _ \<Rightarrow> Out))"
  unfolding claim_endpoint_def
proof (rule plays_bind [OF plays_nonce], hypsubst, rule plays_bind [OF plays_now], elim conjE, hypsubst)
  fix n t
  show "plays E mine path (attached_since E A since path i) i Out (try_io (map_err Io (create_new E path)) (\<lambda>f.
      try_io (map_err (cannot_write_lock ''endpoint'')
        (write_lock_record E f path (to_text (codec E) (endpoint_record E n name t)))) (\<lambda>_.
      ok \<lparr>guard_path = path, guard_nonce = n\<rparr>)))
    (\<lambda>r st. \<exists>t. st = (case r of Inr g \<Rightarrow> Owner (to_text (codec E) (endpoint_record E (guard_nonce g) name t)) | Inl _ \<Rightarrow> Out))"
    by (rule plays_conseq [OF live.claim_rule [OF assms]]) (auto split: sum.splits)
qed

lemma plays_busy:
  "plays E mine path fine i Out (endpoint_busy_report E p root) (endpoint_outcome E name)"
proof -
  have name: "plays E mine path fine i Out (endpoint_lock_session_name E p) (\<lambda>_ st. st = Out)"
    unfolding endpoint_lock_session_name_def read_json_opt_def read_to_string_def
    by (rule plays_bind, rule plays_bind [OF plays_look]) (auto intro: plays_return)
  have there: "plays E mine path fine i Out (exists E q) (\<lambda>_ st. st = Out)" for q
    unfolding exists_def by (rule plays_bind [OF plays_look]) (auto intro: plays_return)
  show ?thesis
    unfolding endpoint_busy_report_def Let_def
    by (rule plays_bind [OF name], hypsubst, rule plays_bind [OF there], hypsubst, rule plays_ok)
      (simp add: endpoint_outcome_def claim_of_def)
qed

lemma plays_acquire_endpoint:
  assumes "honest E" and window: "\<And>n. since \<le> clock E n" "\<And>n. clock E n < since + secs 7200"
    and own: "\<And>n t. own_record E A (to_text (codec E) (endpoint_record E n name t))"
    and path: "path = endpoint_lock_path locks lang host port" and "\<not> starts_with lang ''/''"
  shows "plays E mine path (attached_since E A since path i) i Out
    (acquire_endpoint_lock E locks root name lang host port) (endpoint_outcome E name)"
proof -
  let ?plays = "\<lambda>m :: endpoint_claim result io.
    plays E mine path (attached_since E A since path i) i Out m (endpoint_outcome E name)"
  have claim: "?plays (do { c \<leftarrow> claim_endpoint E path name; (case c of Inr g \<Rightarrow> ok (Held g)
      | Inl e \<Rightarrow> if downcast_io e \<noteq> Some AlreadyExists then err e else f) })" if "?plays f" for f
  proof (rule plays_bind [OF plays_claim_endpoint [OF window(1) own]], elim exE)
    fix c :: "lock_guard result" and st t
    assume st: "st = (case c of Inr g \<Rightarrow> Owner (to_text (codec E) (endpoint_record E (guard_nonce g) name t)) | Inl _ \<Rightarrow> Out)"
    show "plays E mine path (attached_since E A since path i) i st (case c of Inr g \<Rightarrow> ok (Held g)
      | Inl e \<Rightarrow> if downcast_io e \<noteq> Some AlreadyExists then err e else f) (endpoint_outcome E name)"
      using st that by (cases c) (auto intro!: plays_ok plays_err simp: endpoint_outcome_def claim_of_def)
  qed
  have reclaim: "?plays (do { gone \<leftarrow> reclaim_stale_lock E path; if gone then f else endpoint_busy_report E path root })"
    if "?plays f" for f
    by (rule plays_bind [OF plays_reclaim [OF refl assms(1) window(2)]]) (auto intro: that plays_busy)
  show ?thesis
    unfolding acquire_endpoint_lock_def Let_def path [symmetric]
  proof (rule plays_try [where R = "\<lambda>_ st. st = Out"])
    show "plays E mine path (attached_since E A since path i) i Out
        (map_err (\<lambda>e. Msg (''cannot create endpoint locks dir '' @ locks @ '': '' @ io_text e)) (create_dir_all E locks))
        (\<lambda>_ st. st = Out)"
      by (rule plays_map_err [OF plays_mkdirs [OF refl]]) (use lock_not_prefix [OF assms(6)] in \<open>simp_all add: path\<close>)
  qed (auto simp: endpoint_outcome_def claim_of_def intro!: claim reclaim plays_busy)
qed

lemma plays_release_endpoint:
  assumes "nonce_in E c = Some n"
  shows "plays E (same_nonce E) path (attached_since E A since path i) i (Owner c) (release_endpoint_lock E path n)
    (\<lambda>_ st. st = Out)"
proof -
  let ?chk = "do { v \<leftarrow> read_json_opt E path; State_Monad.return (Option.bind v (\<lambda>v. str_field v ''nonce'') = Some n) }"
  have split: "release_endpoint_lock E path n = do { b \<leftarrow> ?chk;
      if b then do { _ \<leftarrow> remove_file E path; State_Monad.return () } else State_Monad.return () }"
    by (rule state_ext) (simp add: release_endpoint_lock_def State_Monad.bind_def split: prod.split)
  show ?thesis
    unfolding split
    by (rule live.release_rule)
      (use assms in \<open>auto simp: State_Monad.bind_def json_at_def same_nonce_def nonce_in_def to_option_def
        split: option.splits sum.splits bind_splits\<close>)
qed

section \<open>Exclusive in company\<close>

text \<open>An operation that leads to ownership was made while nobody else was in possession.\<close>

lemma plays_exclusive:
  assumes "plays E mine path fine i Out m Q" and "claimant_steps mine path (k, \<lambda>_. Out) (kern w, s)"
    and "company E mine path fine i (calls w) (kern w, s)" and "s i = Out" and "run_state m w = (r, w')"
    and "\<And>st. Q r st \<Longrightarrow> \<exists>c. st = Owner c"
  shows "\<exists>s' c. claimant_steps mine path (kern w, s) (kern w', s') \<and> company E mine path fine i (calls w') (kern w', s') \<and>
    Q r (Owner c) \<and> s' i = Owner c \<and> (\<forall>j. j \<noteq> i \<longrightarrow> s' j = Out) \<and>
    (\<exists>ino t. files (kern w') path = Some (File ino c t))"
proof -
  from playsD [OF assms(1,3,4,5)] obtain s' where s': "claimant_steps mine path (kern w, s) (kern w', s')"
    "company E mine path fine i (calls w') (kern w', s')" "Q r (s' i)" by blast
  with assms(6) obtain c where c: "s' i = Owner c" by blast
  from assms(2) s'(1) have "claimant_steps mine path (k, \<lambda>_. Out) (kern w', s')" by (rule rtranclp_trans)
  note one = one_starter [OF this]
  have "s' j = Out" if "j \<noteq> i" for j
    using conjunct1 [OF one, rule_format, of j i] that c by auto
  moreover have "\<exists>ino t. files (kern w') path = Some (File ino c t)"
    using conjunct2 [OF one] c by blast
  ultimately show ?thesis using s' c by metis
qed





section \<open>A claimant that leaves at the last moment\<close>

text \<open>An environment in which somebody else owns the lock and gives it back just before call \<open>N\<close>.\<close>

definition with_leaver :: "env \<Rightarrow> string \<Rightarrow> nat \<Rightarrow> env" where
  "with_leaver E path N = E\<lparr>interfere := \<lambda>n k. if n = N then snd (k_remove_file path k) else k\<rparr>"

context approving
begin

lemma leaver_company:
  assumes "fine since path i (k, s)" and "n \<le> N \<longrightarrow> s j = Owner c" and "j \<noteq> i" and "mine c c" and "valid_utf8 c"
  shows "company (with_leaver E path N) mine path (fine since path i) i n (k, s)"
proof -
  have "fine since path i (k, s) \<and> (n \<le> N \<longrightarrow> s j = Owner c)" using assms(1,2) by simp
  then show ?thesis
  proof (coinduction arbitrary: n k s rule: company.coinduct)
    case (company n k s)
    show ?case
    proof (cases "n = N")
      case False
      then have idle: "interfere (with_leaver E path N) n k = k" by (simp add: with_leaver_def)
      show ?thesis
        using company False assms(3) by (auto simp: idle own_step_def intro!: exI [of _ k] exI [of _ s])
    next
      case True
      let ?k = "snd (k_remove_file path k)"
      from company True have fine: "fine since path i (k, s)" and own: "s j = Owner c" by auto
      from fine have "\<forall>j. record_of (s j) (files k path)" by (simp add: in_order_def one_owner_def)
      from this [rule_format, of j] own obtain ino t where there: "files k path = Some (File ino c t)" by auto
      then have gone: "?k = put_node path None k" by (simp add: k_remove_file_def)
      have "k_read_to_string path k = Inr c"
        using there assms(5) by (simp add: k_read_to_string_def k_read_def k_stat_def follow_file del: valid_utf8.simps)
      then have check: "mates_step mine path i (k, s) (k, s(j := Leaving c))"
        using verify [of s j c path k c mine, OF own _ assms(4)] assms(3) by (auto simp: mates_step_def)
      have leave: "mates_step mine path i (k, s(j := Leaving c)) (?k, s(j := Out))"
        using unlink [of "s(j := Leaving c)" j c mine path k] assms(3) by (auto simp: mates_step_def)
      have "one_owner path (?k, s(j := Out))"
        using one_owner_step check leave fine unfolding mates_step_def in_order_def by blast
      moreover have "is_dir (files ?k p)" if "is_dir (files k p)" for p
        using that there by (cases "p = path") (simp_all add: gone put_node_def)
      from stays [of k ?k "[]", OF this] have "ground ?k" using fine by (simp add: in_order_def)
      ultimately have "fine since path i (?k, s(j := Out))"
        using fine assms(3) by (simp add: in_order_def gone put_node_def)
      moreover from check leave have "(mates_step mine path i)\<^sup>*\<^sup>* (k, s) (?k, s(j := Out))" by auto
      ultimately show ?thesis
        using True by (auto simp: with_leaver_def own_step_def intro!: exI [of _ k] exI [of _ s] exI [of _ "s(j := Out)"])
    qed
  qed
qed

end

text \<open>In the witness starter 1 owns the name, gives it back before the second call of starter 0, and that one takes it.\<close>

definition relay_env :: env where
  "relay_env = with_leaver ((still_env brace_serde)\<lparr>clock := \<lambda>_. 6\<rparr>) ''/s/x.lock'' 2"

definition relay_world :: world where
  "relay_world = world_of [(''/s'', Dir 0), (''/s/x.lock'', File 2 ''8-1'' 6)]"

definition relay_start :: "nat \<Rightarrow> starter" where
  "relay_start = (\<lambda>_. Out)(1 := Owner ''8-1'')"

lemma relay_valid: "valid_utf8 ''8-1''"
  by (rule valid_utf8_ascii) (auto simp: code_def)

lemma relay_company:
  "company relay_env (=) ''/s/x.lock'' (started_since 6 ''/s/x.lock'' 0) 0 (calls relay_world) (kern relay_world, relay_start)"
proof -
  have "started_since 6 ''/s/x.lock'' 0 (kern relay_world, relay_start)"
    by (simp add: in_order_def one_owner_def relay_start_def relay_world_def)
  then show ?thesis
    unfolding relay_env_def
    by (rule plain.leaver_company [where j = 1 and c = "''8-1''"]) (simp_all add: relay_start_def relay_world_def relay_valid del: valid_utf8.simps)
qed

lemma taken_reached:
  assumes "files k path = Some (File ino c t)" and "parent_of path = Some d" and "d \<noteq> []" and "d \<noteq> path" and "files k d = Some (Dir u)"
  shows "\<exists>k0. claimant_steps mine path (k0, \<lambda>_ :: nat. Out) (k, (\<lambda>_. Out)(j := Owner c))"
proof -
  let ?k = "put_node path None k\<lparr>next_ino := ino\<rparr>"
  let ?k1 = "snd (k_create_new path t ?k)"
  have "follow ?k d = Some d"
    using assms(4,5) by (simp add: follow_def eval_nat_numeral put_node_def)
  with assms have "parent_ok ?k path" by (simp add: parent_ok_def put_node_def)
  then have made: "k_create_new path t ?k = (Inr ino, ?k1)"
    by (simp add: k_create_new_def k_create_def put_node_def)
  have "claimant_step mine path (?k, \<lambda>_ :: nat. Out) (?k1, (\<lambda>_. Out)(j := Opened ino c))"
    by (rule claim [of "\<lambda>_. Out" j, OF refl made])
  moreover have "claimant_step mine path (?k1, (\<lambda>_ :: nat. Out)(j := Opened ino c))
      (append_ino ino c t ?k1, ((\<lambda>_. Out)(j := Opened ino c))(j := Owner c))"
    by (rule record_nonce) simp
  moreover have "files k path = files (append_ino ino c t ?k1) path"
    using created_files [OF made] assms(1) by (simp add: append_ino_def)
  from elsewhere [OF this, of mine "(\<lambda>_ :: nat. Out)(j := Owner c)"]
  have "claimant_step mine path (append_ino ino c t ?k1, (\<lambda>_. Out)(j := Owner c)) (k, (\<lambda>_. Out)(j := Owner c))" .
  ultimately show ?thesis
    by (auto intro!: exI [of _ ?k] intro: converse_rtranclp_into_rtranclp)
qed

lemma relay_reached: "\<exists>k. starter_steps ''/s/x.lock'' (k, \<lambda>_. Out) (kern relay_world, relay_start)"
  unfolding relay_start_def
  by (rule taken_reached [of _ _ 2 _ 6 "''/s''" 0]) (simp_all add: relay_world_def parent_of_def)

lemma relay_run:
  "\<exists>g w'. run_state (acquire_startup_lock relay_env ''/s/x.lock'') relay_world = (Inr g, w')"
proof -
  have "parent_ok (snd (k_remove_file ''/s/x.lock'' (kern relay_world))) ''/s/x.lock''"
    by (simp add: parent_ok_def parent_of_def follow_def numeral_eq_Suc relay_world_def k_remove_file_def put_node_def)
  then show ?thesis
    by (simp add: acquire_startup_lock_def startup_nonce_def State_Monad.bind_def create_new_def k_create_new_def
        k_create_def write_lock_record_def seen_def relay_env_def with_leaver_def relay_world_def k_remove_file_def
        read_lock_bytes_def attempts.simps eval_nat_numeral read_to_string_def k_read_to_string_def k_read_def k_stat_def
        put_node_def follow_def claim_stale_startup_lock_def)
qed

lemma relay_window: "\<forall>n. 6 \<le> clock relay_env n \<and> clock relay_env n < 6 + secs 300"
  by (simp add: relay_env_def with_leaver_def secs_def)



definition handover_env :: env where
  "handover_env = with_leaver (endpoint_env 60000000005) (endpoint_lock_path ''/e'' ''js'' ''h'' 9229) 4"

definition handover_start :: "nat \<Rightarrow> starter" where
  "handover_start = (\<lambda>_. Out)(1 := Owner ''{E}'')"

lemma handover_simps [simp]:
  "clock handover_env n = 60000000005" "codec handover_env = endpoint_codec" "fault handover_env n = None"
  "process_id handover_env = 42"
  by (simp_all add: handover_env_def with_leaver_def)

lemma handover_window: "\<forall>n. 5 \<le> clock handover_env n \<and> clock handover_env n < 5 + secs 7200" "honest handover_env"
  by (simp_all add: secs_def honest_def)

lemma endpoint_codec_pids: "record_pid handover_env s \<in> {None, Some 7}"
  using endpoint_demo_record(1) [of 0]
  by (cases "s = ''{E}''") (simp_all add: record_pid_def endpoint_codec_def table_serde_def to_option_def)

lemma handover_names: "names_one_of handover_env {7} s"
  using endpoint_codec_pids [of s] by (auto simp: names_one_of_def)

lemma handover_company:
  assumes "n \<le> 4 \<longrightarrow> s (1 :: nat) = Owner ''{E}''" and "s = (\<lambda>_. Out)(j := Owner ''{E}'')"
  shows "company handover_env (same_nonce handover_env) (endpoint_lock_path ''/e'' ''js'' ''h'' 9229)
    (attached_since handover_env {7} 5 (endpoint_lock_path ''/e'' ''js'' ''h'' 9229) 0) 0 n
    (kern (endpoint_world [(''/proc/7'', Dir 0)]), s)"
proof -
  have valid: "valid_utf8 ''{E}''" by (rule valid_utf8_ascii) (auto simp: code_def)
  have same: "same_nonce handover_env ''{E}'' ''{E}''"
    using endpoint_demo_record(2) [of 0] by (simp add: same_nonce_def nonce_in_def)
  have "attached_since handover_env {7} 5 (endpoint_lock_path ''/e'' ''js'' ''h'' 9229) 0
      (kern (endpoint_world [(''/proc/7'', Dir 0)]), s)"
    using assms(2) handover_names
    by (simp add: in_order_def one_owner_def endpoint_world_def running_def endpoint_demo_path show_nat.simps digit_char_values)
  then show ?thesis
    unfolding handover_env_def
    by (rule live.leaver_company [where j = 1 and c = "''{E}''"])
      (use assms(1) valid same in \<open>simp_all add: handover_env_def del: valid_utf8.simps\<close>)
qed

lemma handover_own: "\<forall>n t. own_record handover_env {7} (to_text (codec handover_env) (endpoint_record handover_env n name t))"
  by (simp add: own_record_def handover_names)

lemma handover_run:
  "\<exists>g w'. run_state (acquire_endpoint_lock handover_env ''/e'' ''/s'' ''x'' ''js'' ''h'' 9229)
     (endpoint_world [(''/proc/7'', Dir 0)]) = (Inr (Held g), w')"
proof -
  let ?p = "endpoint_lock_path ''/e'' ''js'' ''h'' 9229" and ?w = "endpoint_world [(''/proc/7'', Dir 0)]"
  let ?k = "snd (k_remove_file ?p (kern ?w))"
  have sib: "sibling ?p ''/e'' (endpoint_lock_name ''js'' ''h'' 9229)" by (rule lock_sibling) auto
  have there: "files (kern ?w) ?p = Some (File 2 ''{E}'' 5)" "files (kern ?w) ''/e'' = Some (Dir 0)"
    by (simp_all add: endpoint_world_def endpoint_demo_path)
  then have gone: "?k = put_node ?p None (kern ?w)" by (simp add: k_remove_file_def)
  have apart: "?p \<noteq> ''/e''" using sibling_parent [OF sib there(2)] by simp
  then have "files ?k ''/e'' = Some (Dir 0)" using there by (simp add: gone put_node_def)
  from sibling_parent [OF sib this] have parent: "parent_ok (put_node ?p None (kern ?w)) ?p" by (simp add: gone)
  have dirs: "k_mkdirs (path_prefixes ''/e'') t (kern ?w) = (Inr (), kern ?w)" for t
    by (rule k_mkdirs_present) (use there in \<open>simp add: path_prefixes_def\<close>)
  have none: "k_read_to_string ?p (put_node ?p None (kern ?w)) = Inl (os NotFound)"
    by (simp add: k_read_to_string_def k_read_def k_stat_def follow_def eval_nat_numeral put_node_def)
  have free: "files (put_node ?p None k) ?p = None" for k by (simp add: put_node_def)
  obtain q where q: "q = ?p" by simp
  have start: "calls ?w = 0" by (simp add: endpoint_world_def)
  show ?thesis
    using there gone parent none free dirs start unfolding q [symmetric] handover_env_def
    by (simp add: acquire_endpoint_lock_def Let_def q [symmetric] create_dir_all_def claim_endpoint_def startup_nonce_def
        State_Monad.bind_def create_new_def k_create_new_def k_create_def write_lock_record_def seen_def with_leaver_def
        read_lock_bytes_def numeral_3_eq_3 read_to_string_def reclaim_stale_lock_def)
qed

lemma handover_reached:
  "\<exists>k. claimant_steps mine (endpoint_lock_path ''/e'' ''js'' ''h'' 9229) (k, \<lambda>_. Out)
     (kern (endpoint_world [(''/proc/7'', Dir 0)]), handover_start)"
proof -
  let ?p = "endpoint_lock_path ''/e'' ''js'' ''h'' 9229" and ?w = "endpoint_world [(''/proc/7'', Dir 0)]"
  have sib: "sibling ?p ''/e'' (endpoint_lock_name ''js'' ''h'' 9229)" by (rule lock_sibling) auto
  have there: "files (kern ?w) ?p = Some (File 2 ''{E}'' 5)" "files (kern ?w) ''/e'' = Some (Dir 0)"
    by (simp_all add: endpoint_world_def endpoint_demo_path)
  have "parent_of ?p = Some ''/e''" using sib parent_of_child [of "endpoint_lock_name ''js'' ''h'' 9229" "''/e''"] by (simp add: sibling_def)
  moreover have "''/e'' \<noteq> ?p" using sibling_parent [OF sib there(2)] by auto
  ultimately show ?thesis
    unfolding handover_start_def using taken_reached [OF there(1) _ _ _ there(2)] by simp
qed



end
