(* ===== verification/Mac.thy ===== *)
theory Mac
  imports Process Identity Locks
begin

text \<open>
  The parts of \<open>src/session/identity.rs\<close> and \<open>src/session/locks.rs\<close> compiled where there is no \<open>/proc\<close> (macOS): the
  listener of a port looked up through \<open>lsof\<close> and \<open>ps\<close>, and the liveness of a lock's holder through \<open>ps\<close>. On Linux their
  places are taken by \<open>port_lookup\<close>, \<open>listener_source_readable\<close> and \<open>holder_alive\<close>, on which the rest of the
  development builds.
\<close>

section \<open>The operations\<close>

definition RUN_BOUNDED_TIMEOUT :: nat where "RUN_BOUNDED_TIMEOUT = secs 5"

text \<open>What a program printed when it ended well within five seconds; one that did not is killed.\<close>

definition run_bounded :: "env \<Rightarrow> string \<Rightarrow> string list \<Rightarrow> string option io" where
  "run_bounded E cmd args = do {
     r \<leftarrow> run_program E (cmd # args) (Some RUN_BOUNDED_TIMEOUT);
     (case r of
        NotStarted _ \<Rightarrow> State_Monad.return None
      | Finished out \<Rightarrow> State_Monad.return
          (if exit_ok (out_status out) \<and> valid_utf8 (out_stdout out) then Some (out_stdout out) else None)
      | NotWaited _ \<Rightarrow> State_Monad.return None
      | Overran child \<Rightarrow> do { _ \<leftarrow> run_program E [''kill'', pid_text child] None; State_Monad.return None })
   }"

definition lsof_listeners :: "u16 \<Rightarrow> string list" where
  "lsof_listeners port = [''-iTCP:'' @ show_nat (unat port), ''-sTCP:LISTEN'', ''-t'', ''-P'', ''-n'']"

definition lsof_vnode :: "u32 \<Rightarrow> string \<Rightarrow> string list" where
  "lsof_vnode pid kind = [''-p'', pid_text pid, ''-a'', ''-d'', kind, ''-F'', ''n'']"

definition lsof_field :: "env \<Rightarrow> string list \<Rightarrow> string option io" where
  "lsof_field E args = do {
     out \<leftarrow> run_bounded E ''lsof'' args;
     State_Monad.return (Option.bind out (\<lambda>out. first_some (\<lambda>l. strip_prefix l ''n'') (str_lines out)))
   }"

definition ps_command_line :: "env \<Rightarrow> u32 \<Rightarrow> string option io" where
  "ps_command_line E pid = do {
     out \<leftarrow> run_bounded E ''ps'' [''-p'', pid_text pid, ''-o'', ''args=''];
     State_Monad.return (Option.bind out (\<lambda>s. if trim s = [] then None else Some (trim s)))
   }"

definition argv_approximate :: string where
  "argv_approximate = ''argv-approximate: macOS ps reports a single command string''"

definition port_lookup_mac :: "env \<Rightarrow> u16 \<Rightarrow> proc_info option io" where
  "port_lookup_mac E port = do {
     pids \<leftarrow> run_bounded E ''lsof'' (lsof_listeners port);
     (case Option.bind pids (\<lambda>out. first_some parse_pid (str_lines out)) of
        None \<Rightarrow> State_Monad.return None
      | Some pid \<Rightarrow> do {
          exe \<leftarrow> lsof_field E (lsof_vnode pid ''txt'');
          cwd \<leftarrow> lsof_field E (lsof_vnode pid ''cwd'');
          cmdline \<leftarrow> ps_command_line E pid;
          State_Monad.return (Some \<lparr>pi_pid = unat pid, pi_source = ''os-lsof-ps'', pi_exe = exe,
            pi_exe_reason = ''lsof reports no executable vnode'',
            pi_argv = (case cmdline of Some s \<Rightarrow> split_whitespace s | None \<Rightarrow> []),
            pi_argv_reason = ''ps reports no command string'', pi_cwd = cwd,
            pi_cwd_reason = ''lsof reports no cwd vnode'',
            pi_warnings = (case cmdline of Some _ \<Rightarrow> [argv_approximate] | None \<Rightarrow> [])\<rparr>)
        })
   }"

definition listener_source_readable_mac :: "env \<Rightarrow> bool io" where
  "listener_source_readable_mac E = State_Monad.return True"

text \<open>The exit status of \<open>ps\<close> is the answer; a \<open>ps\<close> that did not run, or not to its end in time, is none.\<close>

definition ps_has_pid :: "env \<Rightarrow> u32 \<Rightarrow> liveness io" where
  "ps_has_pid E pid = do {
     r \<leftarrow> run_program E [''ps'', ''-p'', pid_text pid, ''-o'', ''pid=''] (Some (secs 5));
     State_Monad.return (case r of
         Finished out \<Rightarrow>
           if exit_ok (out_status out)
           then (if list_ex (\<lambda>l. trim l = pid_text pid) (str_lines (from_utf8_lossy (out_stdout out))) then Alive else Dead)
           else Dead
       | _ \<Rightarrow> Unknown)
   }"

definition holder_alive_mac :: "env \<Rightarrow> u32 \<Rightarrow> liveness io" where
  "holder_alive_mac E pid = ps_has_pid E pid"

section \<open>What they run, and what they answer\<close>

text \<open>The commands of a lookup: \<open>lsof\<close> and \<open>ps\<close>, and \<open>kill\<close> for one of its own that did not end in time.\<close>

definition probe_command :: "env \<Rightarrow> string list \<Rightarrow> bool" where
  "probe_command E c \<longleftrightarrow> hd c \<in> {''lsof'', ''ps''} \<or>
     (\<exists>n argv k child. hd argv \<in> {''lsof'', ''ps''} \<and>
       fst (runs E n argv (Some RUN_BOUNDED_TIMEOUT) k) = Overran child \<and> c = [''kill'', pid_text child])"

definition probing :: "env \<Rightarrow> world \<Rightarrow> world \<Rightarrow> bool" where
  "probing E w w' = (\<exists>new. commands w' = commands w @ new \<and> list_all (probe_command E) new)"

interpretation probes: keeping "probing E"
  by unfold_locales (auto simp: probing_def)

text \<open>What a bounded run answers is what the program printed.\<close>

lemma run_bounded_probes:
  assumes "cmd \<in> {''lsof'', ''ps''}"
  shows "within (probing E) (run_bounded E cmd args)"
  unfolding within_def
proof
  fix w :: world
  let ?r = "fst (runs E (calls w) (cmd # args) (Some RUN_BOUNDED_TIMEOUT) (seen E w))"
  have "probe_command E [''kill'', pid_text child]" if "?r = Overran child" for child
    unfolding probe_command_def using assms that by (metis list.sel(1))
  moreover have "probe_command E (cmd # args)" using assms by (simp add: probe_command_def)
  ultimately show "probing E w (snd (run_state (run_bounded E cmd args) w))"
    by (cases ?r) (auto simp: run_bounded_def State_Monad.bind_def probing_def)
qed

lemma run_bounded_says:
  assumes "run_state (run_bounded E cmd args) w = (Some s, w')"
  shows "\<exists>out. fst (runs E (calls w) (cmd # args) (Some RUN_BOUNDED_TIMEOUT) (seen E w)) = Finished out \<and>
    exit_ok (out_status out) \<and> out_stdout out = s"
  using assms
  by (cases "fst (runs E (calls w) (cmd # args) (Some RUN_BOUNDED_TIMEOUT) (seen E w))")
    (auto simp: run_bounded_def State_Monad.bind_def split: if_splits)

lemma lookup_probes: "within (probing E) (port_lookup_mac E port)"
  unfolding port_lookup_mac_def lsof_field_def ps_command_line_def
  by (intro probes.bind run_bounded_probes) (auto split: option.split intro!: probes.composed run_bounded_probes)

text \<open>A looked-up process is one \<open>lsof\<close> listed: on macOS, an answered pid is the first one a successful \<open>lsof\<close> printed
  for the listeners of this port; an argument list, which \<open>ps\<close> gives as one text, comes with a warning that
  it is approximate; and whatever the programs do, the lookup runs only \<open>lsof\<close> and \<open>ps\<close>, and kills none but
  those of them that overran.\<close>

theorem mac_lookup_faithful:
  assumes "run_state (port_lookup_mac E port) w = (r, w')"
  shows "(case r of None \<Rightarrow> True
    | Some info \<Rightarrow>
        (case fst (runs E (calls w) (''lsof'' # lsof_listeners port) (Some RUN_BOUNDED_TIMEOUT) (seen E w)) of
           Finished out \<Rightarrow> exit_ok (out_status out) \<and>
             map_option unat (first_some parse_pid (str_lines (out_stdout out))) = Some (pi_pid info)
         | _ \<Rightarrow> False) \<and>
        (pi_argv info = [] \<or> pi_warnings info = [argv_approximate])) \<and>
    probing E w w'"
proof
  show "probing E w w'" by (rule withinD [OF lookup_probes assms])
  obtain pids w1 where pids: "run_state (run_bounded E ''lsof'' (lsof_listeners port)) w = (pids, w1)" by fastforce
  show "case r of None \<Rightarrow> True
    | Some info \<Rightarrow>
        (case fst (runs E (calls w) (''lsof'' # lsof_listeners port) (Some RUN_BOUNDED_TIMEOUT) (seen E w)) of
           Finished out \<Rightarrow> exit_ok (out_status out) \<and>
             map_option unat (first_some parse_pid (str_lines (out_stdout out))) = Some (pi_pid info)
         | _ \<Rightarrow> False) \<and>
        (pi_argv info = [] \<or> pi_warnings info = [argv_approximate])"
  proof (cases "Option.bind pids (\<lambda>out. first_some parse_pid (str_lines out))")
    case None
    with assms pids show ?thesis by (auto simp: port_lookup_mac_def State_Monad.bind_def)
  next
    case (Some pid)
    then obtain s where s: "pids = Some s" "first_some parse_pid (str_lines s) = Some pid"
      by (cases pids) auto
    from run_bounded_says [OF pids [unfolded s(1)]] s(2) assms pids Some show ?thesis
      by (auto simp: port_lookup_mac_def State_Monad.bind_def split: prod.splits option.splits)
  qed
qed

definition lsof_env :: env where
  "lsof_env = (still_env brace_serde)\<lparr>runs := \<lambda>_ argv _ k.
     (if argv = ''lsof'' # lsof_listeners 5678 then Finished \<lparr>out_status = ExitStatus True [], out_stdout = ''7'', out_stderr = []\<rparr>
      else NotStarted (os NotFound), k)\<rparr>"

theorem mac_lookup_faithful_witness:
  "\<exists>info w'. run_state (port_lookup_mac lsof_env 5678) (world_of []) = (Some info, w') \<and> pi_pid info = 7 \<and>
     probing lsof_env (world_of []) w'"
proof -
  have seven: "str_lines ''7'' = [''7'']" "parse_pid ''7'' = Some 7"
    by (simp_all add: str_simps parse_pid_def trim_def is_whitespace_single code_def is_ascii_digit_def
        parse_uint_def strip_plus_def radix_value_def digit_value_def)
  have "valid_utf8 ''7''" by (rule valid_utf8_ascii) (auto simp: code_def)
  with seven have "fst (run_state (port_lookup_mac lsof_env 5678) (world_of [])) \<noteq> None"
    by (simp add: port_lookup_mac_def run_bounded_def State_Monad.bind_def lsof_env_def split: prod.split del: valid_utf8.simps)
  then obtain info w' where run: "run_state (port_lookup_mac lsof_env 5678) (world_of []) = (Some info, w')"
    by (metis option.exhaust prod.collapse)
  from mac_lookup_faithful [OF run] run seven show ?thesis by (simp add: lsof_env_def)
qed

text \<open>A failed probe is never a death: on macOS a lock that is not two hours old is judged stale only past its ten
  seconds of grace, and when \<open>ps\<close> ran to its end in time and either reported no such process or did not list the
  one the record names.\<close>

theorem mac_stale_only_if_seen_dead:
  assumes "fst (run_state (lock_snapshot_is_stale_by (holder_alive_mac E) E raw mtime) w)"
    and "clock E (calls w) < mtime + secs 7200"
  shows "mtime + secs 10 \<le> clock E (calls w) \<and>
    (\<exists>pid out. record_pid E raw = Some pid \<and>
      fst (runs E (Suc (calls w)) [''ps'', ''-p'', pid_text pid, ''-o'', ''pid=''] (Some (secs 5)) (seen E (moved E w))) = Finished out \<and>
      (exit_ok (out_status out) \<longrightarrow> \<not> list_ex (\<lambda>l. trim l = pid_text pid) (str_lines (from_utf8_lossy (out_stdout out)))))"
  using assms
  by (auto simp: lock_snapshot_is_stale_by_def holder_alive_mac_def ps_has_pid_def State_Monad.bind_def ENDPOINT_LOCK_STALE_def
      ENDPOINT_LOCK_GRACE_def not_less split: option.splits ran.splits if_splits)

end
