(* ===== verification/Cli.thy ===== *)
theory Cli
  imports World
begin

text \<open>
  \<open>src/cli.rs\<close>: what the command line means once it is parsed. The parser itself is the crate clap;
  what it guarantees of a parsed command line, the declared ranges, choices and conflicts, is \<open>parsed\<close>.
\<close>

section \<open>Commands\<close>

record stops =
  source_paths :: "string list"
  breakpoints :: "string list"
  logpoints :: "string list"
  watches :: "string list"
  exits :: "string list"
  stop_timeout :: u64

datatype java_cmd =
    JavaStart string "string option" stops "string list"
  | JavaAttachCmd u16 string stops

datatype py_cmd =
    PyStart "string option" "string option" "string option" bool stops "string list"
  | PyAttachCmd u16 string stops

datatype node_cmd =
    NodeStart string "string option" bool stops "string list"
  | NodeAttachCmd u16 string stops

datatype browser_cmd =
    BrowserAttachCmd "string option" u16 string stops

datatype breaks_cmd =
    BreaksAdd "string list" "string option"
  | BreaksRemove "string list" "string option"
  | BreaksClear "string option"

text \<open>\<open>usize\<close> is 64 bits wide on the supported systems.\<close>

datatype command =
    Java java_cmd
  | Py py_cmd
  | Node node_cmd
  | Browser browser_cmd
  | Continue u64 "string option"
  | Wait u64 "string option"
  | Capture u64 u64 "string option" "string option" u64 u64
  | Step string u64 "string option"
  | Reload u64
  | Context "string option"
  | Eval string u64 "string option"
  | Vars u64 "string option"
  | Stack "string option"
  | Threads "string option"
  | Breaks "breaks_cmd option"
  | Logs u64
  | Status
  | Targets
  | Close
  | Doctor

record cli =
  human :: bool
  session :: string
  cli_command :: command

section \<open>What the parser guarantees\<close>

definition timeout_parsed :: "u64 \<Rightarrow> bool" where
  "timeout_parsed t = (1 \<le> t \<and> t \<le> 3600)"

definition stops_parsed :: "stops \<Rightarrow> bool" where
  "stops_parsed s = timeout_parsed (stop_timeout s)"

fun command_parsed :: "command \<Rightarrow> bool" where
  "command_parsed (Java (JavaStart main cp s args)) = stops_parsed s"
| "command_parsed (Java (JavaAttachCmd port host s)) = stops_parsed s"
| "command_parsed (Py (PyStart program m python sub s args)) = (stops_parsed s \<and> (m = None \<or> program = None))"
| "command_parsed (Py (PyAttachCmd port host s)) = stops_parsed s"
| "command_parsed (Node (NodeStart program node workers s args)) = stops_parsed s"
| "command_parsed (Node (NodeAttachCmd port host s)) = stops_parsed s"
| "command_parsed (Browser (BrowserAttachCmd tab port host s)) = stops_parsed s"
| "command_parsed (Continue t target) = timeout_parsed t"
| "command_parsed (Wait t target) = timeout_parsed t"
| "command_parsed (Capture t pause target spec frames vars) =
     (timeout_parsed t \<and> 1 \<le> pause \<and> pause \<le> 10000 \<and> 1 \<le> frames \<and> frames \<le> 10 \<and> 1 \<le> vars \<and> vars \<le> 20)"
| "command_parsed (Step mode t target) = (mode \<in> {''over'', ''into'', ''out''} \<and> timeout_parsed t)"
| "command_parsed (Reload t) = timeout_parsed t"
| "command_parsed (Breaks (Some (BreaksAdd breaks target))) = (breaks \<noteq> [])"
| "command_parsed (Breaks (Some (BreaksRemove breaks target))) = (breaks \<noteq> [])"
| "command_parsed _ = True"

end
