(* ===== verification/Spawn.thy ===== *)
theory Spawn
  imports Spawn_Lifecycle Cli
begin

text \<open>
  \<open>src/spawn.rs\<close>: from a parsed start or attach command to the specification of a spawn: the bridge's
  arguments, the intent kept for a later resume, and the identity known before anything runs.
\<close>

section \<open>Targets\<close>

datatype target =
    JavaLaunch string "string option"
  | JavaAttach string u16
  | PyLaunch "string option" "string option" "string option" bool
  | PyAttach string u16
  | NodeLaunch string "string option" bool
  | NodeAttach string u16
  | BrowserAttach string u16 "string option"

definition or_text :: "string option \<Rightarrow> string \<Rightarrow> string" where
  "or_text s d = (case s of None \<Rightarrow> d | Some x \<Rightarrow> x)"

definition is_identifier :: "string \<Rightarrow> bool" where
  "is_identifier seg =
     (case seg of
        [] \<Rightarrow> False
      | c # cs \<Rightarrow> (is_ascii_alphabetic c \<or> c = CHR ''_'') \<and> list_all (\<lambda>c. is_ascii_alphanumeric c \<or> c = CHR ''_'') cs)"

definition check_module :: "string \<Rightarrow> unit result" where
  "check_module m =
     (if m \<noteq> [] \<and> list_all is_identifier (split_by (\<lambda>c. c = CHR ''.'') m) then Inr ()
      else bail (''bad --module '' @ quoted m @ '' (want dotted.name like mypkg.mod)''))"

section \<open>What was asked for\<close>

definition opt_entry :: "string \<Rightarrow> string option \<Rightarrow> (string \<times> json) list \<Rightarrow> (string \<times> json) list" where
  "opt_entry k s m = (case s of None \<Rightarrow> m | Some x \<Rightarrow> map_insert k (VString x) m)"

definition flag_entry :: "string \<Rightarrow> bool \<Rightarrow> (string \<times> json) list \<Rightarrow> (string \<times> json) list" where
  "flag_entry k b m = (if b then map_insert k (VBool True) m else m)"

definition endpoint_entries :: "string \<Rightarrow> u16 \<Rightarrow> (string \<times> json) list" where
  "endpoint_entries host port = [(''host'', VString host), (''port'', port_json port)]"

fun requested_target :: "target \<Rightarrow> json" where
  "requested_target (JavaLaunch main cp) =
     jobj [(''main'', VString main), (''classpath'', VString (or_text cp ''.'')), (''pid'', VNull)]"
| "requested_target (JavaAttach host port) = jobj (endpoint_entries host port @ [(''pid'', VNull)])"
| "requested_target (PyLaunch program m python subprocess) =
     VObject (map_insert ''pid'' VNull (flag_entry ''subprocess'' subprocess
       (opt_entry ''python'' python (opt_entry ''module'' m (opt_entry ''program'' program [])))))"
| "requested_target (PyAttach host port) = jobj (endpoint_entries host port @ [(''pid'', VNull)])"
| "requested_target (NodeLaunch program node workers) =
     VObject (map_insert ''pid'' VNull (flag_entry ''workers'' workers
       (opt_entry ''node'' node (map_insert ''program'' (VString program) []))))"
| "requested_target (NodeAttach host port) = jobj (endpoint_entries host port @ [(''pid'', VNull)])"
| "requested_target (BrowserAttach host port tab) =
     jobj (endpoint_entries host port @ [(''tab'', opt_string tab), (''pid'', VNull)])"

fun seed_target_identity :: "env \<Rightarrow> target \<Rightarrow> json io" where
  "seed_target_identity E (PyLaunch program m python subprocess) =
     (let exe = or_text python ''python3'' in
      launch_seed E exe (exe # (case (program, m) of
          (Some p, _) \<Rightarrow> [p] | (None, Some n) \<Rightarrow> [''-m'', n] | (None, None) \<Rightarrow> [])))"
| "seed_target_identity E (NodeLaunch program node workers) =
     launch_seed E (or_text node ''node'') [or_text node ''node'', program]"
| "seed_target_identity E (JavaLaunch main cp) =
     launch_seed E ''java'' [''java'', ''-cp'', or_text cp ''.'', main]"
| "seed_target_identity E (PyAttach host port) = attach_seed E host port"
| "seed_target_identity E (NodeAttach host port) = attach_seed E host port"
| "seed_target_identity E (JavaAttach host port) = attach_seed E host port"
| "seed_target_identity E (BrowserAttach host port tab) = State_Monad.return VNull"

section \<open>The arguments of the bridge\<close>

definition port_text :: "u16 \<Rightarrow> string" where
  "port_text port = show_nat (unat port)"

definition endpoint_args :: "string \<Rightarrow> u16 \<Rightarrow> string list" where
  "endpoint_args host port = [''--host'', host, ''--port'', port_text port]"

definition opt_arg :: "string \<Rightarrow> string option \<Rightarrow> string list" where
  "opt_arg flag s = (case s of None \<Rightarrow> [] | Some x \<Rightarrow> [flag, x])"

fun target_args :: "target \<Rightarrow> string list result" where
  "target_args (JavaLaunch main cp) = Inr [''--main'', main, ''--cp'', or_text cp ''.'']"
| "target_args (JavaAttach host port) = Inr (endpoint_args host port)"
| "target_args (PyLaunch program m python subprocess) =
     and_then (case (program, m) of
         (Some p, None) \<Rightarrow> Inr [''--program'', p]
       | (None, Some n) \<Rightarrow> and_then (check_module n) (\<lambda>_. Inr [''--module'', n])
       | _ \<Rightarrow> bail ''py start needs exactly one of PROGRAM and --module (got neither or both)'')
     (\<lambda>what. Inr (what @ opt_arg ''--python'' python @ (if subprocess then [''--subprocess''] else [])))"
| "target_args (PyAttach host port) = Inr (endpoint_args host port)"
| "target_args (NodeLaunch program node workers) =
     Inr ([''--program'', program] @ opt_arg ''--node'' node @ (if workers then [''--workers''] else []))"
| "target_args (NodeAttach host port) = Inr (endpoint_args host port)"
| "target_args (BrowserAttach host port tab) = Inr (endpoint_args host port @ opt_arg ''--tab'' tab)"

definition flagged :: "string \<Rightarrow> string list \<Rightarrow> string list" where
  "flagged flag xs = concat (map (\<lambda>x. [flag, x]) xs)"

definition stop_args :: "stops \<Rightarrow> string list" where
  "stop_args s =
     flagged ''--break'' (breakpoints s) @ flagged ''--src'' (source_paths s) @
     flagged ''--logpoint'' (logpoints s) @ flagged ''--watch'' (watches s) @ flagged ''--exit'' (exits s) @
     [''--timeout'', show_nat (unat (stop_timeout s))]"

definition program_part :: "string list \<Rightarrow> string list" where
  "program_part program_args = (if program_args = [] then [] else ''--'' # program_args)"

definition strings :: "string list \<Rightarrow> json" where
  "strings xs = VArray (map VString xs)"

definition spawn_intent :: "stops \<Rightarrow> string list \<Rightarrow> json \<Rightarrow> json" where
  "spawn_intent s args requested =
     jobj [(''schemaVersion'', u64_json SCHEMA_VERSION), (''breaks'', strings (breakpoints s)),
       (''logpoints'', strings (logpoints s)), (''watches'', strings (watches s)), (''exits'', strings (exits s)),
       (''sources'', strings (source_paths s)), (''timeout'', u64_json (stop_timeout s)),
       (''target'', target_summary args), (''requestedTarget'', requested)]"

definition spec_of :: "string \<Rightarrow> string \<Rightarrow> target \<Rightarrow> stops \<Rightarrow> string list \<Rightarrow> json \<Rightarrow> spawn_spec result" where
  "spec_of lang kind target s program_args seed =
     and_then (target_args target) (\<lambda>what.
     (let args = what @ stop_args s @ program_part program_args in
      Inr \<lparr>spec_lang = lang, spec_kind = kind, bridge_args = args,
        wait_secs = saturating_add (stop_timeout s) 10,
        spec_stops = spawn_intent s args (requested_target target), spec_requested = requested_target target,
        spec_target_identity = seed, spec_identity_hint = identity_hint seed\<rparr>))"

definition cmd_spawn ::
    "env \<Rightarrow> string \<Rightarrow> string \<Rightarrow> string \<Rightarrow> target \<Rightarrow> stops \<Rightarrow> string list \<Rightarrow> (json result) io" where
  "cmd_spawn E name lang kind target s program_args = do {
     seed \<leftarrow> seed_target_identity E target;
     try_io (lift_result (spec_of lang kind target s program_args seed)) (\<lambda>spec. spawn E name spec)
   }"

section \<open>What the bridge is started with\<close>

lemma run_start_bridge:
  "run_state (start_bridge E spec program first_args) w = (Inr pid, w') \<Longrightarrow>
   commands w' = commands w @ [program # insert_before_separator
     [''--target-identity'', to_text (codec E) (spec_target_identity spec)] (first_args @ bridge_args spec)]"
  by (auto simp: start_bridge_def Let_def split: option.splits sum.splits)

lemma insert_before:
  assumes "''--'' \<notin> set own"
  shows "insert_before_separator extra (own @ program_part args) = own @ extra @ program_part args"
proof -
  have "takeWhile (\<lambda>a. a \<noteq> ''--'') (own @ ''--'' # args) = own" "dropWhile (\<lambda>a. a \<noteq> ''--'') (own @ ''--'' # args) = ''--'' # args"
    using assms by (auto intro: takeWhile_append_stop dropWhile_append_stop)
  with assms show ?thesis by (simp add: insert_before_separator_def program_part_def)
qed

text \<open>C36: The debugged program gets exactly the arguments the user gave it: the bridge is started with its own
  arguments, the target's, the stops and the identity, and after the separator with the program's
  arguments as they were given, when none of the words before is itself the separator.\<close>

theorem program_args_untouched:
  assumes "target_args tgt = Inr what" and "spec_of lang kind tgt s program_args seed = Inr spec"
    and "''--'' \<notin> set (first_args @ what @ stop_args s)"
    and "run_state (start_bridge E spec program first_args) w = (Inr pid, w')"
  shows "commands w' = commands w @ [program # first_args @ what @ stop_args s @
    [''--target-identity'', to_text (codec E) seed] @ program_part program_args]"
proof -
  have spec: "bridge_args spec = what @ stop_args s @ program_part program_args" "spec_target_identity spec = seed"
    using assms(1,2) by (auto simp: spec_of_def Let_def)
  have "insert_before_separator [''--target-identity'', to_text (codec E) seed]
      ((first_args @ what @ stop_args s) @ program_part program_args) =
      (first_args @ what @ stop_args s) @ [''--target-identity'', to_text (codec E) seed] @ program_part program_args"
    by (rule insert_before [OF assms(3)])
  with run_start_bridge [OF assms(4)] spec show ?thesis by simp
qed

definition twenty_seconds :: stops where
  "twenty_seconds = \<lparr>source_paths = [], breakpoints = [''a.py:3''], logpoints = [], watches = [], exits = [], stop_timeout = 20\<rparr>"

definition launch_env :: env where
  "launch_env = (still_env brace_serde)\<lparr>launches := \<lambda>n argv. Inr 7\<rparr>"

theorem program_args_untouched_witness:
  "case spec_of ''node'' ''launch'' (NodeLaunch ''a.js'' None False) twenty_seconds [''-x'', ''--''] VNull of Inl _ \<Rightarrow> False
   | Inr spec \<Rightarrow> commands (snd (run_state (start_bridge launch_env spec ''node'' [''b.js'']) (world_of []))) =
       [''node'' # [''b.js''] @ [''--program'', ''a.js''] @ stop_args twenty_seconds @
         [''--target-identity'', to_text (codec launch_env) VNull] @ program_part [''-x'', ''--'']]"
proof -
  obtain spec where spec: "spec_of ''node'' ''launch'' (NodeLaunch ''a.js'' None False) twenty_seconds [''-x'', ''--''] VNull = Inr spec"
    by (simp add: spec_of_def Let_def opt_arg_def)
  have args: "target_args (NodeLaunch ''a.js'' None False) = Inr [''--program'', ''a.js'']"
    by (simp add: opt_arg_def)
  have "show_nat 20 = ''20''" by (simp add: show_nat.simps digit_char_values)
  then have no_sep: "''--'' \<notin> set ([''b.js''] @ [''--program'', ''a.js''] @ stop_args twenty_seconds)"
    by (simp add: stop_args_def flagged_def twenty_seconds_def)
  obtain w' where "run_state (start_bridge launch_env spec ''node'' [''b.js'']) (world_of []) = (Inr 7, w')"
    by (simp add: start_bridge_def Let_def launch_env_def split: prod.splits)
  from program_args_untouched [OF args spec no_sep this] this show ?thesis by (simp add: spec)
qed

section \<open>The endpoint kept\<close>

fun endpoint_of :: "target \<Rightarrow> (string \<times> u16) option" where
  "endpoint_of (JavaAttach host port) = Some (host, port)"
| "endpoint_of (PyAttach host port) = Some (host, port)"
| "endpoint_of (NodeAttach host port) = Some (host, port)"
| "endpoint_of (BrowserAttach host port tab) = Some (host, port)"
| "endpoint_of _ = None"

lemma port_field: "u16_field (jobj (endpoint_entries host port @ rest)) ''port'' = Some port"
  if "map_of (rev rest) ''port'' = None"
  using that by (simp add: u16_field_def u64_field_def endpoint_entries_def port_json_def map_add_def as_u64_def)



end
