(* ===== verification/Output.thy ===== *)
theory Output
  imports Identity
begin

text \<open>
  \<open>src/output.rs\<close> and \<open>src/fmt.rs\<close>: what a finished command prints and the exit code. What the standard
  output answers to the one write is a parameter; writes to the standard error are not checked by the
  code. Rendering a JSON value does not fail.
\<close>

section \<open>Texts\<close>

definition MAX_STRING_LEN :: nat where "MAX_STRING_LEN = 200"
definition MAX_ARRAY_ITEMS :: nat where "MAX_ARRAY_ITEMS = 3"

definition truncate_str :: "string \<Rightarrow> nat \<Rightarrow> string" where
  "truncate_str s limit =
     (let total = chars_count s in
      if total \<le> limit then s
      else take_chars limit s @ ellipsis @ '' (+'' @ show_nat (total - limit) @ '' more chars)'')"

definition newline :: string where "newline = [CHR 0x0A]"

section \<open>The envelopes\<close>

definition opt_field :: "string \<Rightarrow> json option \<Rightarrow> (string \<times> json) list" where
  "opt_field k v = (case v of None \<Rightarrow> [] | Some x \<Rightarrow> [(k, x)])"

definition build_error_envelope ::
    "string \<Rightarrow> string \<Rightarrow> string option \<Rightarrow> json option \<Rightarrow> json option \<Rightarrow> json option \<Rightarrow> json option \<Rightarrow> json" where
  "build_error_envelope command error cause wait_context diagnosis identity requested =
     jobj ([(''ok'', VBool False), (''command'', VString command), (''error'', VString error)] @
       opt_field ''cause'' (map_option VString cause) @ opt_field ''waitContext'' wait_context @
       opt_field ''diagnosis'' diagnosis @ opt_field ''targetIdentity'' identity @
       opt_field ''requestedTarget'' requested)"

definition success_envelope :: "string \<Rightarrow> json \<Rightarrow> json" where
  "success_envelope command data =
     jobj [(''ok'', VBool True), (''command'', VString command), (''data'', data)]"

definition should_show_cause :: "string \<Rightarrow> string option \<Rightarrow> bool" where
  "should_show_cause error cause =
     (case cause of Some c \<Rightarrow> trim c \<noteq> [] \<and> c \<noteq> error | None \<Rightarrow> False)"

section \<open>Printing\<close>

text \<open>A closed pipe is a consumer that has what it needs.\<close>

definition write_stdout :: "io_error option \<Rightarrow> int \<Rightarrow> int" where
  "write_stdout answer exit_code =
     (case answer of None \<Rightarrow> exit_code | Some e \<Rightarrow> if io_kind e = BrokenPipe then 0 else 1)"

record emission =
  exit_code :: int
  printed :: "string option"
  complained :: "string list"

definition failure_field :: "anyhow \<Rightarrow> (bridge_failure \<Rightarrow> 'a option) \<Rightarrow> 'a option" where
  "failure_field e f = Option.bind (downcast_bridge e) f"

definition pretty_field :: "serde \<Rightarrow> string \<Rightarrow> json option \<Rightarrow> string list" where
  "pretty_field sj k v = (case v of None \<Rightarrow> [] | Some x \<Rightarrow> [to_pretty sj (jobj [(k, x)]) @ newline])"

definition compact_field :: "serde \<Rightarrow> string \<Rightarrow> json option \<Rightarrow> string list" where
  "compact_field sj k v = (case v of None \<Rightarrow> [] | Some x \<Rightarrow> [to_text sj (jobj [(k, x)]) @ newline])"

definition human_error :: "serde \<Rightarrow> anyhow \<Rightarrow> string list" where
  "human_error sj e =
     (let message = display e; cause = failure_field e bf_cause in
      [''error: '' @ message @ newline] @
      (if should_show_cause message cause then [''cause: '' @ the cause @ newline] else []) @
      pretty_field sj ''waitContext'' (failure_field e bf_wait_context) @
      pretty_field sj ''diagnosis'' (failure_field e bf_diagnosis) @
      compact_field sj ''targetIdentity'' (failure_field e bf_target_identity) @
      compact_field sj ''requestedTarget'' (failure_field e bf_requested_target))"

definition error_envelope :: "string \<Rightarrow> anyhow \<Rightarrow> json" where
  "error_envelope command e =
     build_error_envelope command (display e) (failure_field e bf_cause) (failure_field e bf_wait_context)
       (failure_field e bf_diagnosis) (failure_field e bf_target_identity) (failure_field e bf_requested_target)"

definition emit :: "serde \<Rightarrow> io_error option \<Rightarrow> string \<Rightarrow> json result \<Rightarrow> bool \<Rightarrow> emission" where
  "emit sj answer command result human =
     (case result of
        Inr data \<Rightarrow>
          if human then
            \<lparr>exit_code = write_stdout answer 0,
             printed = Some ((if data = VNull then ''ok ('' @ command @ '')'' else to_pretty sj data) @ newline),
             complained = []\<rparr>
          else \<lparr>exit_code = write_stdout answer 0,
                printed = Some (to_text sj (success_envelope command data) @ newline), complained = []\<rparr>
      | Inl e \<Rightarrow>
          if human then \<lparr>exit_code = 1, printed = None, complained = human_error sj e\<rparr>
          else \<lparr>exit_code = write_stdout answer 1,
                printed = Some (to_text sj (error_envelope command e) @ newline), complained = []\<rparr>)"

section \<open>What an agent reads\<close>

lemma map_of_opt_field: "map_of (rev (opt_field k v @ rest)) k' =
    (case map_of (rev rest) k' of Some x \<Rightarrow> Some x | None \<Rightarrow> if k' = k then v else None)"
  by (auto simp: opt_field_def map_add_def split: option.split)

lemma map_of_opt_field_last: "map_of (rev (opt_field k v)) k' = (if k' = k then v else None)"
  by (simp add: opt_field_def split: option.split)

lemma envelope_fields:
  "bool_field (error_envelope c e) ''ok'' = Some False" "str_field (error_envelope c e) ''command'' = Some c"
  "str_field (error_envelope c e) ''error'' = Some (display e)"
  "json_get (error_envelope c e) ''diagnosis'' = failure_field e bf_diagnosis"
  "str_field (error_envelope c e) ''cause'' = failure_field e bf_cause"
  "json_get (error_envelope c e) ''data'' = None"
  by (simp_all add: error_envelope_def build_error_envelope_def json_access map_add_def map_of_opt_field
      map_of_opt_field_last split: option.split del: rev_append)

text \<open>An agent always gets one parseable line: without \<open>--human\<close> a command prints one JSON object and nothing
  on the error output; the object says whether the command succeeded and which it was, and holds the
  data or the error with its diagnosis and cause. The exit code is 0 on success and 1 on failure,
  unless the output was closed early (0) or could not be written (1).\<close>

theorem envelope_contract:
  "\<exists>v. printed (emit sj answer c r False) = Some (to_text sj v @ newline) \<and>
     complained (emit sj answer c r False) = [] \<and>
     bool_field v ''ok'' = Some (\<not> isl r) \<and> str_field v ''command'' = Some c \<and>
     (case r of
        Inr data \<Rightarrow> json_get v ''data'' = Some data
      | Inl e \<Rightarrow> json_get v ''data'' = None \<and> str_field v ''error'' = Some (display e) \<and>
          json_get v ''diagnosis'' = failure_field e bf_diagnosis \<and> str_field v ''cause'' = failure_field e bf_cause) \<and>
     exit_code (emit sj answer c r False) =
       (case answer of None \<Rightarrow> if isl r then 1 else 0 | Some e \<Rightarrow> if io_kind e = BrokenPipe then 0 else 1)"
proof (cases r)
  case (Inl e)
  then show ?thesis
    by (intro exI [of _ "error_envelope c e"]) (simp add: emit_def envelope_fields write_stdout_def split: option.split)
next
  case (Inr data)
  then show ?thesis
    by (intro exI [of _ "success_envelope c data"])
      (simp add: emit_def write_stdout_def success_envelope_def json_access split: option.split)
qed

end
