(* ===== verification/Doctor.thy ===== *)
theory Doctor
  imports Bridge
begin

text \<open>
  \<open>src/doctor.rs\<close>: the report of which toolchains are there.
\<close>

definition PROBE_TIMEOUT :: nat where "PROBE_TIMEOUT = secs 15"

definition absent :: "(string \<times> json) list" where
  "absent = [(''found'', VBool False), (''version'', VString [])]"

definition probe_report :: "run_output result \<Rightarrow> json" where
  "probe_report r =
     (case r of
        Inr out \<Rightarrow> jobj [(''found'', VBool (exit_ok (out_status out))), (''version'', VString (first_line out))]
      | Inl e \<Rightarrow> jobj (absent @ [(''error'', VString (display e))]))"

definition probe_tool :: "env \<Rightarrow> string \<Rightarrow> string list \<Rightarrow> json io" where
  "probe_tool E program args = do {
     r \<leftarrow> run_with_timeout E program args PROBE_TIMEOUT;
     State_Monad.return (probe_report r)
   }"

definition found :: "json \<Rightarrow> bool" where
  "found v = (case bool_field v ''found'' of None \<Rightarrow> False | Some b \<Rightarrow> b)"

definition chrome_report :: "(string \<times> string) option \<Rightarrow> json" where
  "chrome_report r =
     (case r of
        Some (bin, version) \<Rightarrow> jobj [(''found'', VBool True), (''version'', VString version), (''bin'', VString bin)]
      | None \<Rightarrow> jobj (absent @ [(''hint'', VString
          ''install Chrome/Chromium or start it with --remote-debugging-port=9222'')]))"

definition ws_report :: "env \<Rightarrow> string \<Rightarrow> json io" where
  "ws_report E ws_pkg = do {
     there \<leftarrow> exists E ws_pkg;
     if there then do {
       v \<leftarrow> read_json_opt E ws_pkg;
       State_Monad.return (jobj [(''found'', VBool True),
         (''version'', VString (case Option.bind v (\<lambda>v. str_field v ''version'') of None \<Rightarrow> [] | Some x \<Rightarrow> x))])
     }
     else State_Monad.return (jobj absent)
   }"

text \<open>The virtual environment's interpreter, where there is one.\<close>

definition venv_there :: "env \<Rightarrow> (string option) io" where
  "venv_there E =
     (case venv_python E of
        Inl _ \<Rightarrow> State_Monad.return None
      | Inr p \<Rightarrow> do { there \<leftarrow> exists E p; State_Monad.return (if there then Some p else None) })"

definition adapter_line :: "string \<Rightarrow> json \<Rightarrow> json" where
  "adapter_line via ready = jobj [(''via'', VString via), (''ready'', ready)]"

definition found_value :: "json \<Rightarrow> json" where
  "found_value v = (case json_get v ''found'' of None \<Rightarrow> VNull | Some b \<Rightarrow> b)"

definition doctor_report :: "json \<Rightarrow> json \<Rightarrow> json \<Rightarrow> json \<Rightarrow> json \<Rightarrow> json \<Rightarrow> json \<Rightarrow> json" where
  "doctor_report java javac python debugpy node ws chrome =
     jobj [(''java'', java), (''javac'', javac), (''python'', python), (''debugpy'', debugpy), (''node'', node),
       (''ws'', ws), (''chrome'', chrome),
       (''adapters'', jobj [
          (''java'', adapter_line ''embedded JDI bridge (persistent session)'' (VBool (found javac))),
          (''python'', adapter_line ''embedded pybridge + debugpy (isolated venv)'' (found_value debugpy)),
          (''node'', adapter_line ''embedded nodebridge + CDP'' (found_value node)),
          (''browser'', adapter_line ''embedded browserbridge + CDP'' (VBool (found node \<and> found chrome)))])]"

definition doctor :: "env \<Rightarrow> (json result) io" where
  "doctor E =
     try_io (lift_result (agent_home E)) (\<lambda>_. do {
       java \<leftarrow> probe_tool E ''java'' [''-version''];
       javac \<leftarrow> probe_tool E ''javac'' [''-version''];
       launcher \<leftarrow> find_python_launcher E;
       (let py = (case launcher of None \<Rightarrow> ''python3'' | Some p \<Rightarrow> p) in do {
         python \<leftarrow> probe_tool E py [''--version''];
         venv \<leftarrow> venv_there E;
         debugpy \<leftarrow> probe_tool E (case venv of None \<Rightarrow> py | Some p \<Rightarrow> p) [''-c'', ''import debugpy''];
         node \<leftarrow> probe_tool E ''node'' [''--version''];
         chrome \<leftarrow> find_chrome E;
         try_io (lift_result (node_dir E)) (\<lambda>nd. do {
           ws \<leftarrow> ws_report E (path_join (path_join (path_join nd ''node_modules'') ''ws'') ''package.json'');
           ok (doctor_report java javac python debugpy node ws (chrome_report chrome))
         })
       })
     })"

end
