(* ===== verification/Dispatch.thy ===== *)
theory Dispatch
  imports Spawn Output Doctor
begin

text \<open>
  \<open>src/main.rs\<close>: one parsed command line runs one operation and prints its result.
\<close>

definition called :: "string \<Rightarrow> 'a io \<Rightarrow> (string \<times> 'a) io" where
  "called c m = do { r \<leftarrow> m; State_Monad.return (c, r) }"

text \<open>The socket waits five seconds longer than the bridge is told to.\<close>

definition patience :: "u64 \<Rightarrow> nat" where
  "patience t = secs (saturating_add t 5)"

definition timed_body :: "string \<Rightarrow> (string \<times> json) list \<Rightarrow> u64 \<Rightarrow> json" where
  "timed_body c extra t = jobj ((''cmd'', VString c) # extra @ [(''timeout'', u64_json t)])"

definition capture_body :: "u64 \<Rightarrow> u64 \<Rightarrow> string option \<Rightarrow> u64 \<Rightarrow> u64 \<Rightarrow> json" where
  "capture_body t pause spec frames vars =
     jobj ([(''cmd'', VString ''capture''), (''timeout'', u64_json t), (''pauseBudgetMs'', u64_json pause),
       (''frames'', u64_json frames), (''vars'', u64_json vars)] @ opt_field ''break'' (map_option VString spec))"

definition frame_body :: "string \<Rightarrow> (string \<times> json) list \<Rightarrow> u64 \<Rightarrow> json" where
  "frame_body c extra frame = jobj ((''cmd'', VString c) # extra @ [(''frame'', u64_json frame)])"

definition plain_body :: "string \<Rightarrow> json" where
  "plain_body c = jobj [(''cmd'', VString c)]"

fun dispatch_java :: "env \<Rightarrow> string \<Rightarrow> java_cmd \<Rightarrow> (string \<times> json result) io" where
  "dispatch_java E name (JavaStart main cp s args) =
     called ''start'' (cmd_spawn E name ''java'' ''launch'' (JavaLaunch main cp) s args)"
| "dispatch_java E name (JavaAttachCmd port host s) =
     called ''attach'' (cmd_spawn E name ''java'' ''attach'' (JavaAttach host port) s [])"

fun dispatch_py :: "env \<Rightarrow> string \<Rightarrow> py_cmd \<Rightarrow> (string \<times> json result) io" where
  "dispatch_py E name (PyStart program m python subprocess s args) =
     called ''start'' (cmd_spawn E name ''py'' ''launch'' (PyLaunch program m python subprocess) s args)"
| "dispatch_py E name (PyAttachCmd port host s) =
     called ''attach'' (cmd_spawn E name ''py'' ''attach'' (PyAttach host port) s [])"

fun dispatch_node :: "env \<Rightarrow> string \<Rightarrow> node_cmd \<Rightarrow> (string \<times> json result) io" where
  "dispatch_node E name (NodeStart program node workers s args) =
     called ''start'' (cmd_spawn E name ''node'' ''launch'' (NodeLaunch program node workers) s args)"
| "dispatch_node E name (NodeAttachCmd port host s) =
     called ''attach'' (cmd_spawn E name ''node'' ''attach'' (NodeAttach host port) s [])"

fun dispatch_browser :: "env \<Rightarrow> string \<Rightarrow> browser_cmd \<Rightarrow> (string \<times> json result) io" where
  "dispatch_browser E name (BrowserAttachCmd tab port host s) =
     called ''attach'' (cmd_spawn E name ''browser'' ''attach'' (BrowserAttach host port tab) s [])"

fun dispatch_breaks :: "env \<Rightarrow> string \<Rightarrow> breaks_cmd option \<Rightarrow> (json result) io" where
  "dispatch_breaks E name None = forward E name (plain_body ''breaks'') (secs 10)"
| "dispatch_breaks E name (Some (BreaksAdd breaks tgt)) = cmd_breaks_add E name breaks tgt"
| "dispatch_breaks E name (Some (BreaksRemove breaks tgt)) = cmd_breaks_remove E name breaks tgt"
| "dispatch_breaks E name (Some (BreaksClear tgt)) = cmd_breaks_clear E name tgt"

fun dispatch :: "env \<Rightarrow> string \<Rightarrow> command \<Rightarrow> (string \<times> json result) io" where
  "dispatch E name Status = called ''status'' (do { v \<leftarrow> status E; State_Monad.return (Inr v) })"
| "dispatch E name Doctor = called ''doctor'' (doctor E)"
| "dispatch E name Close = called ''close'' (close E name)"
| "dispatch E name (Java c) = dispatch_java E name c"
| "dispatch E name (Py c) = dispatch_py E name c"
| "dispatch E name (Node c) = dispatch_node E name c"
| "dispatch E name (Browser c) = dispatch_browser E name c"
| "dispatch E name (Continue t tgt) =
     called ''continue'' (forward_target E name (timed_body ''continue'' [] t) (patience t) tgt)"
| "dispatch E name (Wait t tgt) =
     called ''wait'' (forward_target E name (timed_body ''wait'' [] t) (patience t) tgt)"
| "dispatch E name (Capture t pause tgt spec frames vars) =
     called ''capture'' (forward_target E name (capture_body t pause spec frames vars) (patience t) tgt)"
| "dispatch E name (Step mode t tgt) =
     called ''step'' (forward_target E name (timed_body ''step'' [(''mode'', VString mode)] t) (patience t) tgt)"
| "dispatch E name (Reload t) = called ''reload'' (cmd_reload E name t)"
| "dispatch E name (Context tgt) = called ''context'' (cmd_context_target E name tgt)"
| "dispatch E name (Stack tgt) = called ''stack'' (forward_target E name (plain_body ''stack'') (secs 10) tgt)"
| "dispatch E name (Threads tgt) = called ''threads'' (forward_target E name (plain_body ''threads'') (secs 15) tgt)"
| "dispatch E name Targets = called ''targets'' (cmd_targets E name)"
| "dispatch E name (Breaks c) = called ''breaks'' (dispatch_breaks E name c)"
| "dispatch E name (Vars frame tgt) =
     called ''vars'' (forward_target E name (frame_body ''vars'' [] frame) (secs 10) tgt)"
| "dispatch E name (Eval expression frame tgt) =
     called ''eval'' (forward_target E name (frame_body ''eval'' [(''expr'', VString expression)] frame) (secs 15) tgt)"
| "dispatch E name (Logs tail) = called ''logs'' (cmd_logs E name tail)"

definition run_cli :: "env \<Rightarrow> io_error option \<Rightarrow> cli \<Rightarrow> emission io" where
  "run_cli E answer c = do {
     (name, result) \<leftarrow> dispatch E (session c) (cli_command c);
     State_Monad.return (emit (codec E) answer name result (human c))
   }"

section \<open>Which commands only look\<close>

fun only_looks :: "command \<Rightarrow> bool" where
  "only_looks (Java c) = False"
| "only_looks (Py c) = False"
| "only_looks (Node c) = False"
| "only_looks (Browser c) = False"
| "only_looks Close = False"
| "only_looks (Breaks (Some (BreaksAdd breaks tgt))) = is_ephemeral_target tgt"
| "only_looks (Breaks (Some (BreaksRemove breaks tgt))) = is_ephemeral_target tgt"
| "only_looks (Breaks (Some (BreaksClear tgt))) = is_ephemeral_target tgt"
| "only_looks _ = True"

context reading
begin

lemma forward_target_rule: "within R (forward_target E name body t tgt)"
  by (auto simp: forward_target_def intro!: composed reads)

lemma session_commands: "within R (cmd_reload E name t)" "within R (cmd_context_target E name tgt)"
  "within R (cmd_targets E name)" "within R (cmd_logs E name tail)"
  by (auto simp: cmd_reload_def cmd_context_target_def cmd_targets_def cmd_targets_in_def
      targets_use_local_roster_def cmd_logs_def Let_def intro!: composed reads forward_target_rule)

lemma called_rule: "within R m \<Longrightarrow> within R (called c m)"
  by (auto simp: called_def intro!: composed)

lemma status_rule: "within R (status E)"
proof -
  have live: "within R (row_liveness E live port)" for live port
    by (auto simp: row_liveness_def intro!: composed reads split: probe.split)
  have entry: "within R (session_entry E dir)" for dir
    by (auto simp: session_entry_def Let_def intro!: composed reads live split: prod.split)
  have "within R (status_rows E root entries)" for root entries
    by (induction entries) (auto intro!: composed reads entry split: file_type.split)
  then show ?thesis
    by (auto simp: status_def intro!: composed reads split: sum.split)
qed

lemma breaks_rule:
  assumes "is_ephemeral_target target" and "within R count"
  shows "within R (breaks_command E name op body count target confirmed persist)"
proof -
  have eph: "is_ephemeral_target t" if "normalize_target_for_lang_opt lang target = Inr t" for lang t
    using that assms(1)
    by (auto simp: normalize_target_for_lang_opt_def is_ephemeral_target_def split: option.splits if_splits)
  have tail: "within R (try_io (lift_result (normalize_target_for_lang_opt lang target)) f)"
    if "\<And>t. is_ephemeral_target t \<Longrightarrow> within R (f t)" for lang and f :: "string option \<Rightarrow> (json result) io"
    using that eph by (cases "normalize_target_for_lang_opt lang target") (auto simp: within_def refl)
  show ?thesis
    unfolding breaks_command_def by (auto intro!: composed reads tail assms(2))
qed

lemma persisted_count: "within R (persisted_line_breaks E name)"
  by (auto simp: persisted_line_breaks_def persisted_line_breaks_in_def intro!: composed reads split: sum.split)

lemma breaks_only_look: "only_looks (Breaks b) \<Longrightarrow> within R (dispatch_breaks E name b)"
proof (cases b)
  case None
  then show ?thesis by (simp add: reads)
next
  case (Some x)
  assume "only_looks (Breaks b)"
  with Some show ?thesis
    by (cases x) (auto simp: cmd_breaks_add_def cmd_breaks_remove_def cmd_breaks_clear_def
      intro!: breaks_rule composed persisted_count)
qed

lemma looking: "only_looks c \<Longrightarrow> c \<noteq> Doctor \<Longrightarrow> within R (dispatch E name c)"
  by (cases c) (auto intro!: called_rule forward_target_rule session_commands composed status_rule breaks_only_look)

end

lemma tame_doctor: "within (tame E) (doctor E)"
proof -
  note rules = tame.composed tame.reads tame_programs
  have run: "within (tame E) (run_with_timeout E program args t)" for program args t
    by (auto simp: run_with_timeout_def intro!: rules tame_kill_tree split: ran.split)
  have tool: "within (tame E) (probe_tool E program args)" for program args
    by (auto simp: probe_tool_def intro!: rules run)
  have "within (tame E) (launcher_on E ps)" for ps
    by (induction ps) (auto simp: path_is_file_def intro!: rules)
  then have launcher: "within (tame E) (find_python_launcher E)"
    by (auto simp: find_python_launcher_def find_python_launcher_in_def intro!: rules split: option.split)
  have "within (tame E) (find_chrome_in E bins)" for bins
    by (induction bins) (auto intro!: rules run split: sum.split)
  then have chrome: "within (tame E) (find_chrome E)" by (simp add: find_chrome_def)
  show ?thesis
    by (auto simp: doctor_def ws_report_def venv_there_def Let_def intro!: rules tool launcher chrome split: sum.split)
qed

text \<open>C24: Every command but the starts, \<open>close\<close> and the edits of the global breaks only looks: however it ends,
  and whatever the bridge answers, no file is changed and, but for \<open>doctor\<close>, no program is run.\<close>

theorem queries_change_nothing:
  assumes "alone E" and "harmless_programs E" and "only_looks c" and "run_state (dispatch E name c) w = (r, w')"
  shows "kern w' = kern w \<and> (c = Doctor \<or> commands w' = commands w)"
proof (cases "c = Doctor")
  case True
  have "within (tame E) (dispatch E name c)"
    by (simp add: True tame.called_rule tame_doctor)
  from withinD [OF this assms(4)] show ?thesis using True assms(1,2) by (simp add: tame_def)
next
  case False
  from withinD [OF kept.looking [OF assms(3) False] assms(4)] withinD [OF idle.looking [OF assms(3) False] assms(4)]
  show ?thesis using assms(1) by simp
qed

theorem queries_change_nothing_witness:
  "kern (snd (run_state (dispatch (demo_env ''py'') ''cart'' (Breaks (Some (BreaksAdd [''a.py:9''] (Some ''child:7''))))) demo_world))
     = kern demo_world"
proof -
  have "harmless_programs (demo_env ''py'')" "alone (demo_env ''py'')"
    by (simp_all add: harmless_programs_def alone_def demo_env_def still_env_def)
  moreover have "only_looks (Breaks (Some (BreaksAdd [''a.py:9''] (Some ''child:7''))))"
    by (simp add: is_ephemeral_target_def)
  ultimately show ?thesis
    using queries_change_nothing [OF _ _ _ surjective_pairing, of "demo_env ''py''" _ "''cart''" demo_world] by blast
qed

section \<open>Waiting\<close>

fun waits :: "command \<Rightarrow> u64 option" where
  "waits (Continue t tgt) = Some t"
| "waits (Wait t tgt) = Some t"
| "waits (Capture t pause tgt spec frames vars) = Some t"
| "waits (Step mode t tgt) = Some t"
| "waits (Reload t) = Some t"
| "waits _ = None"

lemma timeout_kept: "u64_field (with_target tgt (jobj kvs)) ''timeout'' = u64_field (jobj kvs) ''timeout''"
  by (simp add: with_target_def u64_field_def split: option.split)

lemma timed_fields:
  "u64_field (timed_body c extra t) ''timeout'' = Some t"
  "u64_field (capture_body t pause spec frames vars) ''timeout'' = Some t"
  by (auto simp: timed_body_def capture_body_def u64_field_def u64_json_def as_u64_def opt_field_def
      map_add_def split: option.split)

lemma forward_sends:
  assumes "run_state (forward_target E name body timeout tgt) w = (r, w')"
  shows "\<exists>new. requests w' = requests w @ new \<and> length new \<le> 1 \<and>
    (\<forall>(port, b, t)\<in>set new. t = timeout \<and> (\<exists>t. b = with_target t body))"
  using forward_target_run [OF assms] by force

lemma reload_sends:
  assumes "run_state (cmd_reload E name t) w = (r, w')"
  shows "\<exists>new. requests w' = requests w @ new \<and> length new \<le> 1 \<and>
    (\<forall>(port, b, p)\<in>set new. p = patience t \<and> (\<exists>tgt. b = with_target tgt (timed_body ''reload'' [] t)))"
proof -
  obtain a w1 where 1: "run_state (session_gate E name) w = (a, w1)" by fastforce
  from silentD [OF silent_gate(5) 1] have q: "requests w1 = requests w" .
  show ?thesis
  proof (cases a)
    case (Inl e)
    with assms 1 q show ?thesis by (simp add: cmd_reload_def)
  next
    case (Inr dir)
    show ?thesis
    proof (cases "reload_gate (lang_seen E w1 dir)")
      case (Inl e)
      with assms 1 q Inr have "requests w' = requests w" by (auto simp: cmd_reload_def State_Monad.bind_def)
      then show ?thesis by simp
    next
      case (Inr u)
      with assms 1 \<open>a = Inr dir\<close>
      have "run_state (forward_target E name (timed_body ''reload'' [] t) (patience t) None) (moved E w1) = (r, w')"
        by (simp add: cmd_reload_def State_Monad.bind_def forward_def timed_body_def patience_def)
      from forward_sends [OF this] q show ?thesis by simp
    qed
  qed
qed

text \<open>C38: The bridge always gives up before the socket does: a command that waits sends at most one request, and
  that request names the seconds the user gave, while the socket waits five seconds longer.\<close>

theorem socket_outlasts_bridge:
  assumes "command_parsed c" and "waits c = Some t" and "run_state (dispatch E name c) w = (r, w')"
  shows "\<exists>new. requests w' = requests w @ new \<and> length new \<le> 1 \<and>
    (\<forall>(port, body, limit)\<in>set new. u64_field body ''timeout'' = Some t \<and> limit = secs t + secs 5)"
proof -
  have t: "timeout_parsed t" using assms(1,2) by (cases c) auto
  then have "unat t \<le> 3600" by (simp add: timeout_parsed_def word_le_nat_alt)
  then have limit: "patience t = secs t + secs 5"
    by (simp add: patience_def secs_def unat_saturating_add)
  have wrap: "\<exists>r. run_state m w = (r, w')" if "run_state (called x m) w = (r', w')" for x r' and m :: "(json result) io"
    using that by (auto simp: called_def State_Monad.bind_def split: prod.splits)
  have fields: "u64_field (with_target tgt (timed_body x extra t)) ''timeout'' = Some t"
    "u64_field (with_target tgt (capture_body t pause spec frames vars)) ''timeout'' = Some t"
    for tgt x extra pause spec frames vars
    using timed_fields by (simp_all add: timed_body_def capture_body_def timeout_kept)
  have sent: ?thesis if body: "\<And>t'. u64_field (with_target t' body) ''timeout'' = Some t"
      and run: "run_state (called x (forward_target E name body (patience t) tgt)) w = (r, w')" for body tgt x
  proof -
    from wrap [OF run] obtain a where "run_state (forward_target E name body (patience t) tgt) w = (a, w')" by blast
    from forward_sends [OF this] body limit show ?thesis by fastforce
  qed
  show ?thesis
  proof (cases c)
    case (Reload t')
    with assms(2,3) have "run_state (called ''reload'' (cmd_reload E name t)) w = (r, w')" by simp
    from wrap [OF this] obtain a where "run_state (cmd_reload E name t) w = (a, w')" by blast
    from reload_sends [OF this] fields limit show ?thesis by fastforce
  next
    case (Continue t' tgt)
    with assms(2,3) show ?thesis by (intro sent [OF fields(1)]) simp
  next
    case (Wait t' tgt)
    with assms(2,3) show ?thesis by (intro sent [OF fields(1)]) simp
  next
    case (Step m t' tgt)
    with assms(2,3) show ?thesis by (intro sent [OF fields(1)]) simp
  next
    case (Capture t' p tgt spec f v)
    with assms(2,3) show ?thesis by (intro sent [OF fields(2)]) simp
  qed (use assms(2) in simp_all)
qed

theorem socket_outlasts_bridge_witness:
  "list_all (\<lambda>(port, body, limit). u64_field body ''timeout'' = Some 20 \<and> limit = secs 20 + secs 5)
     (requests (snd (run_state (dispatch (demo_env ''py'') ''cart'' (Continue 20 None)) demo_world)))"
proof -
  have "command_parsed (Continue 20 None)" by (simp add: timeout_parsed_def)
  from socket_outlasts_bridge [OF this _ surjective_pairing, of 20 "demo_env ''py''" "''cart''" demo_world]
  show ?thesis by (auto simp: demo_world_def list_all_iff)
qed

section \<open>The whole program\<close>

text \<open>C22: However a command ends, an agent gets one JSON line: without \<open>--human\<close> the program prints one JSON object
  and nothing on the error output; the object says whether the command succeeded and which it was, and
  holds the data, or the error with its diagnosis and cause. The exit code is 0 on success and 1 on
  failure, unless the output was closed early (0) or could not be written (1).\<close>

theorem agent_contract:
  "\<exists>v c r w'. run_state (dispatch E (session l) (cli_command l)) w = ((c, r), w') \<and>
     (let out = fst (run_state (run_cli E answer (l\<lparr>human := False\<rparr>)) w) in
      printed out = Some (to_text (codec E) v @ newline) \<and> complained out = [] \<and>
      bool_field v ''ok'' = Some (\<not> isl r) \<and> str_field v ''command'' = Some c \<and>
      (case r of
         Inr data \<Rightarrow> json_get v ''data'' = Some data
       | Inl e \<Rightarrow> json_get v ''data'' = None \<and> str_field v ''error'' = Some (display e) \<and>
           json_get v ''diagnosis'' = failure_field e bf_diagnosis \<and> str_field v ''cause'' = failure_field e bf_cause) \<and>
      exit_code out =
        (case answer of None \<Rightarrow> if isl r then 1 else 0 | Some e \<Rightarrow> if io_kind e = BrokenPipe then 0 else 1))"
proof -
  obtain c r w' where run: "run_state (dispatch E (session l) (cli_command l)) w = ((c, r), w')"
    by (metis surj_pair)
  then have out: "fst (run_state (run_cli E answer (l\<lparr>human := False\<rparr>)) w) = emit (codec E) answer c r False"
    by (simp add: run_cli_def State_Monad.bind_def)
  from envelope_contract [of "codec E" answer c r] show ?thesis
    unfolding out Let_def using run by blast
qed

end
