(* ===== verification/Fence.thy ===== *)
theory Fence
  imports Dispatch
begin

text \<open>
  What the program may touch. The locale \<open>fence\<close> is the interface between the file system and the operations that
  change it: an assertion \<open>K\<close> on the kernel's state, the paths \<open>D\<close> whose nodes may be made, replaced and removed,
  the paths \<open>N\<close> among them that are opened by name, the directories \<open>M\<close> that may be made with their parents, and
  the inodes (\<open>ours\<close>) that may be written through. Its laws say that a call that keeps to them keeps \<open>K\<close>; its
  lemmas follow the code from those calls to the commands, and ask of each operation that its paths are in the
  fence.
\<close>

section \<open>The interface\<close>

definition without :: "string set \<Rightarrow> kern \<Rightarrow> kern" where
  "without S k = k\<lparr>files := (\<lambda>q. if q \<in> S then None else files k q)\<rparr>"

locale fence =
  fixes E :: env and K :: "kern \<Rightarrow> bool" and D N M :: "string set" and ours :: "nat \<Rightarrow> bool"
  assumes shelter: "sheltered E K"
    and programs: "K k \<Longrightarrow> K (snd (runs E n argv limit k))"
    and locking: "K k \<Longrightarrow> K (k\<lparr>flocks := f\<rparr>)" and numbering: "K k \<Longrightarrow> K (k\<lparr>next_fd := n\<rparr>)"
    and creating: "q \<in> D \<Longrightarrow> K k \<Longrightarrow> K (snd (k_create_new q t k))"
    and created: "q \<in> D \<Longrightarrow> K k \<Longrightarrow> fst (k_create_new q t k) = Inr i \<Longrightarrow> ours i"
    and truncating: "q \<in> N \<Longrightarrow> K k \<Longrightarrow> K (snd (k_create_trunc q t k))"
    and truncated: "q \<in> N \<Longrightarrow> K k \<Longrightarrow> fst (k_create_trunc q t k) = Inr i \<Longrightarrow> ours i"
    and naming: "q \<in> N \<Longrightarrow> K k \<Longrightarrow> K (snd (k_open_create q t k))"
    and appending: "ours i \<Longrightarrow> K k \<Longrightarrow> K (append_ino i s t k)"
    and renaming: "p \<in> D \<Longrightarrow> q \<in> D \<Longrightarrow> (q \<in> N \<Longrightarrow> p \<in> N) \<Longrightarrow> K k \<Longrightarrow> K (snd (k_rename p q k))"
    and removing: "S \<subseteq> D \<Longrightarrow> K k \<Longrightarrow> K (without S k)"
    and making: "q \<in> D \<Longrightarrow> K k \<Longrightarrow> K (snd (k_create_dir q t k))"
    and making_all: "d \<in> M \<Longrightarrow> K k \<Longrightarrow> K (snd (k_mkdirs (path_prefixes d) t k))"
    and named: "N \<subseteq> D"
begin

definition keeps :: "world \<Rightarrow> world \<Rightarrow> bool" where
  "keeps w w' = (K (kern w) \<longrightarrow> K (kern w') \<and> (\<exists>new. history w' = history w @ new \<and> (\<forall>k\<in>set new. K k)))"

lemma sees: "K (kern w) \<Longrightarrow> K (seen E w)"
  by (rule sheltered_seen [OF shelter])

end

sublocale fence \<subseteq> reading keeps E
proof
  show "keeps w w" for w by (simp add: keeps_def)
  show "keeps u w" if "keeps u v" "keeps v w" for u v w
  proof (cases "K (kern u)")
    case True
    with that obtain a b where "K (kern w)" "history v = history u @ a" "history w = history v @ b"
      "\<forall>k\<in>set a. K k" "\<forall>k\<in>set b. K k" unfolding keeps_def by blast
    then show ?thesis by (auto simp: keeps_def intro!: exI [of _ "a @ b"])
  qed (simp add: keeps_def)
  show "keeps w (moved E w)" "keeps w ((moved E w)\<lparr>requests := q\<rparr>)" for w q
    by (auto simp: keeps_def sees)
qed

text \<open>Who gets a lock gets a guard of its path.\<close>

lemma ends_in_try: "(\<And>a. ends_in (f a) Q) \<Longrightarrow> (\<And>e w. Q (Inl e) w) \<Longrightarrow> ends_in (try_io m f) Q"
  by (auto simp: ends_in_def split: prod.split sum.split)

lemma ends_in_answer: "(\<And>w. Q (Inr a) w) \<Longrightarrow> ends_in (ok a) Q" "(\<And>w. Q (Inl e) w) \<Longrightarrow> ends_in (err e) Q"
  by (simp_all add: ends_in_def)

lemma guards: "ends_in (acquire_startup_lock E p) (\<lambda>r w. \<forall>g. r = Inr g \<longrightarrow> guard_path g = p)"
  "ends_in (claim_endpoint E p name) (\<lambda>r w. \<forall>g. r = Inr g \<longrightarrow> guard_path g = p)"
proof -
  have pure: "ends_in (ok \<lparr>guard_path = p, guard_nonce = n\<rparr>) (\<lambda>r w. \<forall>g. r = Inr g \<longrightarrow> guard_path g = p)"
    "ends_in (err e) (\<lambda>r w. \<forall>g. r = Inr g \<longrightarrow> guard_path g = p)"
    "ends_in (lift_result (starting p)) (\<lambda>r w. \<forall>g. r = Inr g \<longrightarrow> guard_path g = p)" for n and e :: anyhow
    by (auto simp: ends_in_def starting_def bail_def)
  have claim: "ends_in (claim_stale_startup_lock E p) (\<lambda>r w. \<forall>g. r = Inr g \<longrightarrow> guard_path g = p)"
    by (auto simp: claim_stale_startup_lock_def intro!: ends_in_bind ends_in_try pure)
  have reclaim: "ends_in (reclaim_and_claim E p raw) (\<lambda>r w. \<forall>g. r = Inr g \<longrightarrow> guard_path g = p)" for raw
    by (auto simp: reclaim_and_claim_def intro!: ends_in_bind pure claim split: sum.split option.split)
  show "ends_in (acquire_startup_lock E p) (\<lambda>r w. \<forall>g. r = Inr g \<longrightarrow> guard_path g = p)"
    by (auto simp: acquire_startup_lock_def intro!: ends_in_bind ends_in_try pure claim reclaim split: sum.split option.split)
  show "ends_in (claim_endpoint E p name) (\<lambda>r w. \<forall>g. r = Inr g \<longrightarrow> guard_path g = p)"
    by (auto simp: claim_endpoint_def intro!: ends_in_bind ends_in_try pure)
qed

section \<open>Calls\<close>

context fence
begin

lemma within_holds: "within keeps m = holds K m (\<lambda>_. True)"
proof -
  have "keeps w (snd (run_state m w)) = (\<forall>r w'. K (kern w) \<longrightarrow> run_state m w = (r, w') \<longrightarrow>
      (K (kern w') \<and> True) \<and> (\<exists>new. history w' = history w @ new \<and> (\<forall>k\<in>set new. K k)))" for w
    by (cases "run_state m w") (simp add: keeps_def)
  then show ?thesis by (simp add: within_def holds_def passes_def)
qed

text \<open>What a program answers matters where it says which file is ours.\<close>

lemma result: "within keeps m \<Longrightarrow> (\<And>w a w'. run_state m w = (a, w') \<Longrightarrow> G a) \<Longrightarrow> holds K m G"
  unfolding within_holds holds_def passes_def by blast

lemma forget: "holds K m G \<Longrightarrow> within keeps m"
  unfolding within_holds by (erule holds_weaken) simp

lemma bind_result: "holds K m G \<Longrightarrow> (\<And>a. G a \<Longrightarrow> within keeps (f a)) \<Longrightarrow> within keeps (State_Monad.bind m f)"
  unfolding within_holds by (rule holds_bind)

lemma try_result: "holds K m G \<Longrightarrow> (\<And>a. G (Inr a) \<Longrightarrow> within keeps (f a)) \<Longrightarrow> within keeps (try_io m f)"
  unfolding within_holds by (erule holds_try) simp_all

lemma try_lift: "(\<And>a. x = Inr a \<Longrightarrow> within keeps (f a)) \<Longrightarrow> within keeps (try_io (lift_result x) f)"
  by (cases x) (simp_all add: within_def refl)

lemma map_err_result: "holds K m (\<lambda>r. \<forall>a. r = Inr a \<longrightarrow> G a) \<Longrightarrow> holds K (map_err h m) (\<lambda>r. \<forall>a. r = Inr a \<longrightarrow> G a)"
  by (rule holds_map_err) (auto elim!: holds_weaken split: sum.split)

text \<open>A call is followed by the state it leaves.\<close>

lemma call:
  assumes "\<And>k t. K k \<Longrightarrow> K (snd (f t k)) \<and> G (fst (f t k))" and "\<And>e. G (Inl e)"
  shows "holds K (syscall E f) G"
  unfolding holds_def by (rule passes_syscall) (auto simp: sees assms)

lemma steps: "within keeps m" if "\<And>w :: world. K (kern w) \<Longrightarrow> \<exists>k. K k \<and> kern (snd (run_state m w)) = k \<and>
    history (snd (run_state m w)) = history w @ [seen E w, k]"
  unfolding within_def
proof
  fix w
  show "keeps w (snd (run_state m w))"
  proof (cases "K (kern w)")
    case True
    from that [OF this] obtain k where "K k" "kern (snd (run_state m w)) = k"
      "history (snd (run_state m w)) = history w @ [seen E w, k]" by blast
    with sees [OF True] show ?thesis by (auto simp: keeps_def)
  qed (simp add: keeps_def)
qed

lemma create_new_rule: "q \<in> D \<Longrightarrow> holds K (create_new E q) (\<lambda>r. \<forall>i. r = Inr i \<longrightarrow> ours i)"
  unfolding create_new_def by (rule call) (auto intro: creating created)

lemma create_trunc_rule: "q \<in> N \<Longrightarrow> holds K (create_trunc E q) (\<lambda>r. \<forall>i. r = Inr i \<longrightarrow> ours i)"
  unfolding create_trunc_def by (rule call) (auto intro: truncating truncated)

lemma write_rule: "ours i \<Longrightarrow> within keeps (write_all E i s)"
  by (rule steps) (auto simp: sees appending split: option.split)

lemma rename_rule: "p \<in> D \<Longrightarrow> q \<in> D \<Longrightarrow> (q \<in> N \<Longrightarrow> p \<in> N) \<Longrightarrow> within keeps (rename E p q)"
  unfolding rename_def by (rule forget, rule call [where G = "\<lambda>_. True"]) (auto intro: renaming)

lemma removed_file: "snd (k_remove_file q k) = k \<or> snd (k_remove_file q k) = without {q} k"
  by (auto simp: k_remove_file_def without_def put_node_def fun_upd_def split: option.split node.split)

lemma remove_file_rule: "q \<in> D \<Longrightarrow> within keeps (remove_file E q)"
proof -
  assume "q \<in> D"
  then have "K (snd (k_remove_file q k))" if "K k" for k
    using removed_file [of q k] that by (auto intro: removing)
  then show ?thesis
    unfolding remove_file_def by (intro forget [OF call [where G = "\<lambda>_. True"]]) auto
qed

lemma removed_dir: "snd (k_remove_dir_all d k) = k \<or> (\<exists>S. S \<subseteq> {q. below d q} \<and> snd (k_remove_dir_all d k) = without S k)"
proof -
  have link: "put_node d None k = without {d} k" by (simp add: put_node_def without_def fun_upd_def)
  have dir: "k\<lparr>files := (\<lambda>q. if below d q then None else files k q)\<rparr> = without {q. below d q} k"
    by (simp add: without_def)
  have "{d} \<subseteq> {q. below d q}" by (simp add: below_def)
  then show ?thesis
    using link dir by (auto simp: k_remove_dir_all_def split: option.split node.split simp del: singleton_insert_inj_eq)
qed

lemma remove_dir_rule:
  assumes "{q. below d q} \<subseteq> D"
  shows "within keeps (remove_dir_all E d)"
proof (rule steps)
  fix w :: world assume "K (kern w)"
  then have k: "K (seen E w)" by (rule sees)
  let ?S = "{q. below d q \<and> q \<noteq> d \<and> is_dir (files (seen E w) d) \<and> \<not> kept_on_fault E (calls w) q}"
  have "K (without ?S (seen E w))" using k assms by (intro removing) auto
  then have "K ((seen E w)\<lparr>files := (\<lambda>q.
      if below d q \<and> q \<noteq> d \<and> is_dir (files (seen E w) d) \<and> \<not> kept_on_fault E (calls w) q then None
      else files (seen E w) q)\<rparr>)" by (simp add: without_def)
  moreover have "K (snd (k_remove_dir_all d (seen E w)))"
    using removed_dir [of d "seen E w"] assms k by (metis removing order_trans)
  ultimately show "\<exists>k. K k \<and> kern (snd (run_state (remove_dir_all E d) w)) = k \<and>
      history (snd (run_state (remove_dir_all E d) w)) = history w @ [seen E w, k]"
    by (auto simp: remove_dir_all_def split: option.split)
qed

lemma create_dir_all_rule: "d \<in> M \<Longrightarrow> within keeps (create_dir_all E d)"
  unfolding create_dir_all_def by (rule forget, rule call [where G = "\<lambda>_. True"]) (auto intro: making_all)

lemma create_dir_rule: "q \<in> D \<Longrightarrow> within keeps (create_dir E q)"
  unfolding create_dir_def by (rule forget, rule call [where G = "\<lambda>_. True"]) (auto intro: making)

lemma open_handle_rule: "q \<in> N \<Longrightarrow> within keeps (open_handle E q)"
proof -
  assume q: "q \<in> N"
  have "K (snd (k_open_handle q t k))" if "K k" for t k
    using naming [OF q that, of t] by (auto simp: k_open_handle_def numbering split: prod.split sum.split)
  then show ?thesis
    unfolding open_handle_def by (intro forget [OF call [where G = "\<lambda>_. True"]]) auto
qed

lemma lock_rules: "within keeps (try_lock E h)" "within keeps (close_handle E h)"
proof -
  have "K (snd (k_try_lock h k))" if "K k" for k
    using that by (auto simp: k_try_lock_def locking split: option.split)
  then show "within keeps (try_lock E h)"
    unfolding try_lock_def by (intro forget [OF call [where G = "\<lambda>_. True"]]) auto
  show "within keeps (close_handle E h)"
    by (rule steps) (auto simp: k_close_def locking sees)
qed

lemma program_rules: "within keeps (run_program E argv limit)" "within keeps (launch E argv)"
  "within keeps next_nonce" "within keeps next_tmp" "within keeps next_provision"
  "within keeps get_node_path" "within keeps (set_node_path v)" "within keeps (sync_all E i)"
proof -
  show "within keeps (run_program E argv limit)" by (rule steps) (auto simp: sees programs)
  show "within keeps (launch E argv)" "within keeps next_nonce" "within keeps next_tmp" "within keeps next_provision"
    "within keeps get_node_path" "within keeps (set_node_path v)" "within keeps (sync_all E i)"
    by (auto simp: within_def keeps_def sees sync_all_def)
qed

lemmas rules = composed reads program_rules lock_rules

section \<open>Processes\<close>

lemma process_rules: "within keeps (kill_tree E depth pid)" "within keeps (reap_child E c)"
  "within keeps (run_with_timeout E program args t)"
proof -
  have each: "within keeps (each_io f xs)" if "\<And>x. within keeps (f x)" for f and xs :: "u32 list"
    using that by (induction xs) (auto intro!: rules)
  show kill: "within keeps (kill_tree E depth pid)" for depth pid
    by (induction depth arbitrary: pid) (auto intro!: rules each)
  have await: "within keeps (await_exit E n p deadline)" for n p deadline
    by (induction n) (auto intro!: rules split: sum.split option.split)
  show "within keeps (reap_child E c)"
    by (auto simp: reap_child_def terminate_child_def intro!: rules kill await split: option.split)
  show "within keeps (run_with_timeout E program args t)"
    by (auto simp: run_with_timeout_def intro!: rules kill split: ran.split)
qed

lemma flock_rules: "within keeps (poll_lock E n h deadline busy failed)" "within keeps m \<Longrightarrow> within keeps (guarded E h m)"
  "within keeps (handle_is_file E h)"
proof -
  show "within keeps (poll_lock E n h deadline busy failed)"
    by (induction n) (auto intro!: rules split: sum.split)
  show "within keeps m \<Longrightarrow> within keeps (guarded E h m)"
    by (auto simp: guarded_def intro!: rules)
  show "within keeps (handle_is_file E h)"
    by (auto simp: handle_is_file_def intro!: rules)
qed

section \<open>Sidecar files\<close>

lemma write_then_rename_rule:
  assumes "tmp \<in> N" and "dest \<in> D"
  shows "within keeps (write_then_rename E tmp dest content msg)"
proof -
  have tmp: "tmp \<in> D" using assms(1) named by blast
  have "within keeps (fs_write E tmp content)"
    unfolding fs_write_def by (rule try_result [OF create_trunc_rule [OF assms(1)]]) (auto intro: write_rule)
  then show ?thesis
    unfolding write_then_rename_def
    by (auto intro!: rules remove_file_rule [OF tmp] rename_rule [OF tmp assms(2)] assms(1) split: sum.split)
qed

text \<open>A session's directory: everything below it may be replaced, and is opened by name.\<close>

definition session_at :: "string \<Rightarrow> bool" where
  "session_at dir = (dir \<noteq> [] \<and> last dir \<noteq> CHR ''/'' \<and> {q. below dir q} \<subseteq> N)"

lemma below_join:
  "d \<noteq> [] \<Longrightarrow> last d \<noteq> CHR ''/'' \<Longrightarrow> \<not> starts_with s ''/'' \<Longrightarrow> below d (path_join d s)"
  by (simp add: below_def path_join_def starts_with_def)

lemma in_session: "session_at dir \<Longrightarrow> \<not> starts_with s ''/'' \<Longrightarrow> path_join dir s \<in> N"
  "session_at dir \<Longrightarrow> \<not> starts_with s ''/'' \<Longrightarrow> path_join dir s \<in> D"
  "session_at dir \<Longrightarrow> {q. below dir q} \<subseteq> D" "session_at dir \<Longrightarrow> dir \<in> D"
proof -
  show N: "path_join dir s \<in> N" if "session_at dir" "\<not> starts_with s ''/''" for s
    using that below_join [of dir s] by (auto simp: session_at_def)
  show "path_join dir s \<in> D" if "session_at dir" "\<not> starts_with s ''/''"
    using N [OF that] named by blast
  show D: "{q. below dir q} \<subseteq> D" if "session_at dir" using that named by (auto simp: session_at_def)
  show "dir \<in> D" if "session_at dir" using D [OF that] by (auto simp: below_def)
qed

lemma tmp_rule:
  assumes "session_at dir" and "x \<noteq> CHR ''/''"
  shows "holds K (atomic_tmp_name E dir (x # xs)) (\<lambda>tmp. tmp \<in> N)"
proof (rule result)
  have s: "\<not> starts_with (x # s) ''/''" for s using assms(2) by (simp add: starts_with_def)
  show "within keeps (atomic_tmp_name E dir (x # xs))" by (auto simp: atomic_tmp_name_def intro!: rules)
  show "a \<in> N" if "run_state (atomic_tmp_name E dir (x # xs)) w = (a, w')" for w a w'
    using that in_session(1) [OF assms(1) s]
    by (auto simp: atomic_tmp_name_def State_Monad.bind_def tmp_file_name_def)
qed

lemma sidecar_rule:
  assumes "session_at dir" and "x \<noteq> CHR ''/''"
  shows "within keeps (write_sidecar_atomic E dir (x # xs) content)"
proof -
  have "\<not> starts_with (x # xs) ''/''" using assms(2) by (simp add: starts_with_def)
  from in_session(2) [OF assms(1) this] show ?thesis
    unfolding write_sidecar_atomic_def
    by (intro bind_result [OF tmp_rule [OF assms]] write_then_rename_rule)
qed

section \<open>Locks\<close>

text \<open>A path that is claimed, and quarantined beside itself.\<close>

definition lockable :: "string \<Rightarrow> bool" where
  "lockable path = (path \<in> N \<and> (\<forall>n. with_file_name path (quarantine_name (process_id E) n) \<in> D))"

lemma lockable_removed: "lockable p \<Longrightarrow> p \<in> D"
  using named by (auto simp: lockable_def)

lemma nonce_rule: "within keeps (startup_nonce E)"
  by (auto simp: startup_nonce_def intro!: rules)

lemma attempts_rule: "within keeps m \<Longrightarrow> within keeps (attempts E n m e)"
  by (induction n arbitrary: e) (auto intro!: rules split: sum.split)

lemma lock_reads: "within keeps (read_lock_bytes E p)" "within keeps (lock_mtime E p)"
  "within keeps (stale_startup_mtime E t)" "within keeps (holder_alive E pid)" "within keeps (lock_snapshot_is_stale E raw t)"
  "within keeps (endpoint_lock_session_name E p)" "within keeps (still_holds_endpoint E g)"
proof -
  show "within keeps (read_lock_bytes E p)" "within keeps (lock_mtime E p)"
    by (auto simp: read_lock_bytes_def lock_mtime_def intro!: attempts_rule reads)
  show "within keeps (stale_startup_mtime E t)" by (auto simp: stale_startup_mtime_def intro!: rules)
  show alive: "within keeps (holder_alive E pid)" for pid by (auto simp: holder_alive_def intro!: rules)
  show "within keeps (lock_snapshot_is_stale E raw t)"
    by (auto simp: lock_snapshot_is_stale_by_def intro!: rules alive split: option.split)
  show "within keeps (endpoint_lock_session_name E p)" by (auto simp: endpoint_lock_session_name_def intro!: rules)
  have "within keeps (holds_attempts E n g)" for n
    by (induction n) (auto intro!: rules split: sum.split)
  then show "within keeps (still_holds_endpoint E g)" by (simp add: still_holds_endpoint_def)
qed

lemma write_record_rule: "ours f \<Longrightarrow> p \<in> D \<Longrightarrow> within keeps (write_lock_record E f p c)"
  by (auto simp: write_lock_record_def intro!: rules write_rule remove_file_rule split: sum.split)

lemma opened:
  assumes "q \<in> D" and "\<And>i. ours i \<Longrightarrow> within keeps (f i)"
  shows "within keeps (try_io (map_err h (create_new E q)) f)"
  by (rule try_result [OF map_err_result [OF create_new_rule [OF assms(1)]]]) (simp add: assms(2))

lemma claims: "p \<in> D \<Longrightarrow> within keeps (claim_stale_startup_lock E p)" "p \<in> D \<Longrightarrow> within keeps (claim_endpoint E p name)"
  by (auto simp: claim_stale_startup_lock_def claim_endpoint_def
      intro!: rules nonce_rule opened write_record_rule)

lemma quarantine_rule:
  assumes "lockable p"
  shows "within keeps (quarantine_verified E p expected)"
proof -
  have p: "p \<in> D" using assms by (rule lockable_removed)
  have restore: "within keeps (restore_quarantine_bytes E p q)" for q
    unfolding restore_quarantine_bytes_def
  proof (rule rules, rule rules, goal_cases)
    case (1 b)
    have "within keeps (do { f \<leftarrow> create_new E p; (case f of
        Inl _ \<Rightarrow> State_Monad.return False
      | Inr f \<Rightarrow> do { r \<leftarrow> write_all E f c; (case r of
            Inl _ \<Rightarrow> do { _ \<leftarrow> remove_file E p; State_Monad.return False }
          | Inr _ \<Rightarrow> do { _ \<leftarrow> sync_all E f; State_Monad.return True }) }) })" for c
      by (rule bind_result [OF create_new_rule [OF p]])
        (auto intro!: rules write_rule remove_file_rule [OF p] split: sum.split)
    then show ?case by (auto intro!: rules split: sum.split)
  qed
  have reconcile: "within keeps (reconcile_quarantine E p q c)" if "q \<in> D" for q c
    by (auto simp: reconcile_quarantine_def intro!: rules restore remove_file_rule that split: sum.split)
  let ?G = "\<lambda>r. \<forall>q. r = Inr q \<longrightarrow> q \<in> D"
  have detach: "holds K (detach_to_quarantine E p) ?G"
  proof (rule result)
    show "within keeps (detach_to_quarantine E p)"
      unfolding detach_to_quarantine_def Let_def
      using assms by (intro rules nonce_rule rename_rule p) (auto simp: lockable_def)
    show "?G a" if "run_state (detach_to_quarantine E p) w = (a, w')" for w a w'
      using that assms by (auto simp: detach_to_quarantine_def State_Monad.bind_def lockable_def Let_def
          split: prod.splits sum.splits)
  qed
  have "within keeps (detach_attempts E n p c)" for n c
  proof (induction n)
    case (Suc n)
    show ?case
      unfolding detach_attempts.simps
      by (rule bind_result [OF detach])
        (auto intro!: rules reconcile lock_reads Suc.IH split: sum.split option.split)
  qed (auto intro!: rules)
  then show ?thesis
    by (auto simp: quarantine_verified_def intro!: rules lock_reads split: sum.split option.split)
qed

lemma startup_lock_rules:
  assumes "lockable p"
  shows "within keeps (acquire_startup_lock E p)"
    and "within keeps (release_startup_lock E p nonce)"
proof -
  have p: "p \<in> D" using assms by (rule lockable_removed)
  have reclaim: "within keeps (reclaim_and_claim E p raw)" for raw
    by (auto simp: reclaim_and_claim_def intro!: rules lock_reads claims p quarantine_rule assms split: sum.split option.split)
  show "within keeps (acquire_startup_lock E p)"
    unfolding acquire_startup_lock_def
    by (intro bind [OF nonce_rule], rule bind_result [OF create_new_rule [OF p]])
      (auto intro!: rules write_record_rule lock_reads claims reclaim p split: sum.split option.split)
  show "within keeps (release_startup_lock E p nonce)"
    by (auto simp: release_startup_lock_def startup_lock_is_mine_def intro!: rules remove_file_rule [OF p])
qed

lemma try_guard:
  assumes "within keeps m" and "ends_in m (\<lambda>r w. \<forall>g. r = Inr g \<longrightarrow> guard_path g = p)"
    and "\<And>g. guard_path g = p \<Longrightarrow> within keeps (f g)"
  shows "within keeps (try_io m f)"
proof (rule try_result [where G = "\<lambda>r. \<forall>g. r = Inr g \<longrightarrow> guard_path g = p"])
  show "holds K m (\<lambda>r. \<forall>g. r = Inr g \<longrightarrow> guard_path g = p)"
    using assms(2) by (intro result [OF assms(1)]) (simp add: ends_in_def, metis fst_conv)
qed (simp add: assms(3))

definition endpoints_at :: "string \<Rightarrow> bool" where
  "endpoints_at locks = (locks \<in> M \<and>
     (\<forall>lang host port. plain_segment lang \<longrightarrow> lockable (endpoint_lock_path locks lang host port)))"

lemma reclaim_rule: "lockable p \<Longrightarrow> within keeps (reclaim_stale_lock E p)"
  by (auto simp: reclaim_stale_lock_def intro!: rules lock_reads quarantine_rule split: sum.split option.split)

lemma release_endpoint_rule: "lockable p \<Longrightarrow> within keeps (release_endpoint_lock E p nonce)"
  by (auto simp: release_endpoint_lock_def intro!: rules remove_file_rule lockable_removed)

lemma busy_rule: "within keeps (endpoint_busy_report E p root)"
  by (auto simp: endpoint_busy_report_def Let_def intro!: rules lock_reads)

lemma endpoint_lock_rule:
  assumes "endpoints_at locks" and "plain_segment lang"
  shows "within keeps (acquire_endpoint_lock E locks root name lang host port)"
proof -
  let ?p = "endpoint_lock_path locks lang host port"
  have l: "lockable ?p" "locks \<in> M" using assms by (auto simp: endpoints_at_def)
  then have p: "?p \<in> D" by (simp add: lockable_removed)
  show ?thesis
    by (auto simp: acquire_endpoint_lock_def Let_def
        intro!: rules create_dir_all_rule claims reclaim_rule busy_rule l p split: sum.split)
qed

end

lemma held_guard: "run_state (acquire_endpoint_lock E locks root name lang host port) w = (Inr (Held g), w') \<Longrightarrow>
  guard_path g = endpoint_lock_path locks lang host port"
proof -
  let ?p = "endpoint_lock_path locks lang host port"
  let ?G = "\<lambda>r w. \<forall>g. r = Inr (Held g) \<longrightarrow> guard_path g = ?p"
  have claim: "ends_in (do { c \<leftarrow> claim_endpoint E ?p name;
      (case c of Inr g \<Rightarrow> ok (Held g) | Inl e \<Rightarrow> f e) }) ?G" if "\<And>e. ends_in (f e) ?G" for f
  proof -
    have "?G (fst (run_state (f e) v)) ()" for e v using that by (simp add: ends_in_def)
    moreover have "guard_path g = ?p" if "run_state (claim_endpoint E ?p name) v = (Inr g, v')" for v v' g
      using guards(2) [of E ?p name] that unfolding ends_in_def by (metis fst_conv)
    ultimately show ?thesis
      by (fastforce simp: ends_in_def State_Monad.bind_def split: prod.split sum.split)
  qed
  have busy: "ends_in (endpoint_busy_report E ?p root) ?G"
    unfolding endpoint_busy_report_def Let_def by (intro ends_in_bind) (simp add: ends_in_def)
  have stop: "ends_in (err e) ?G" for e :: anyhow by (simp add: ends_in_def)
  have tail: "ends_in (if b then err e else m) ?G" if "ends_in m ?G" for b m and e :: anyhow
    using that stop by simp
  have last: "ends_in (if gone then do {
          c2 \<leftarrow> claim_endpoint E ?p name;
          (case c2 of
             Inr g \<Rightarrow> ok (Held g)
           | Inl e2 \<Rightarrow> if downcast_io e2 \<noteq> Some AlreadyExists then err e2 else endpoint_busy_report E ?p root) }
      else endpoint_busy_report E ?p root) ?G" for gone
    using claim [OF tail [OF busy]] busy by simp
  have rest: "ends_in (do { gone \<leftarrow> reclaim_stale_lock E ?p; if gone then do {
          c2 \<leftarrow> claim_endpoint E ?p name;
          (case c2 of
             Inr g \<Rightarrow> ok (Held g)
           | Inl e2 \<Rightarrow> if downcast_io e2 \<noteq> Some AlreadyExists then err e2 else endpoint_busy_report E ?p root) }
      else endpoint_busy_report E ?p root }) ?G"
    by (rule ends_in_bind [OF last])
  have "ends_in (acquire_endpoint_lock E locks root name lang host port) ?G"
    unfolding acquire_endpoint_lock_def Let_def by (rule ends_in_try, rule claim [OF tail [OF rest]]) simp
  then show "run_state (acquire_endpoint_lock E locks root name lang host port) w = (Inr (Held g), w') \<Longrightarrow> ?thesis"
    unfolding ends_in_def by (metis fst_conv)
qed

context fence
begin

section \<open>Breaks\<close>

lemma breaks_lock_rule:
  assumes "session_at dir"
  shows "within keeps (acquire_breaks_lock E dir)"
proof -
  have "within keeps (open_handle E (breaks_lock_path dir))"
    unfolding breaks_lock_path_def by (intro open_handle_rule in_session(1) [OF assms]) (simp add: starts_with_def)
  then show ?thesis
    by (auto simp: acquire_breaks_lock_def acquire_breaks_lock_polls_def check_breaks_lock_def Let_def
        intro!: rules flock_rules)
qed

lemma edit_rules:
  assumes "session_at dir"
  shows "within keeps (append_confirmed_breaks_in E dir raws)" "within keeps (remove_confirmed_breaks_in E dir raws)"
proof -
  have edit: "within keeps (edit_intent E dir f)" for f
  proof -
    have written: "within keeps (do { tmp \<leftarrow> atomic_tmp_name E dir ''stops.json'';
        write_then_rename E tmp (path_join dir ''stops.json'') c cannot_persist })" for c
    proof (rule bind_result [where G = "\<lambda>tmp. tmp \<in> N"])
      show "holds K (atomic_tmp_name E dir ''stops.json'') (\<lambda>tmp. tmp \<in> N)"
        by (rule tmp_rule [OF assms]) simp
      show "within keeps (write_then_rename E tmp (path_join dir ''stops.json'') c cannot_persist)" if "tmp \<in> N" for tmp
        using that by (rule write_then_rename_rule) (simp add: in_session(2) [OF assms] starts_with_def)
    qed
    show ?thesis by (auto simp: edit_intent_def Let_def intro!: rules written)
  qed
  show "within keeps (append_confirmed_breaks_in E dir raws)" "within keeps (remove_confirmed_breaks_in E dir raws)"
    by (auto simp: append_confirmed_breaks_in_def remove_confirmed_breaks_in_def
        intro!: rules breaks_lock_rule [OF assms] flock_rules edit)
qed

text \<open>Where the directory of a name is checked, it is that of a plain name.\<close>

lemma checked: 
  assumes "\<And>dir. check_name name = Inr () \<Longrightarrow> session_dir E name = Inr dir \<Longrightarrow> within keeps (f dir)"
  shows "within keeps (try_io (checked_session_dir E name) f)"
proof (rule try_result)
  show "holds K (checked_session_dir E name) (\<lambda>r. \<forall>d. r = Inr d \<longrightarrow> check_name name = Inr () \<and> session_dir E name = Inr d)"
    by (rule result [OF gates(4)])
      (auto simp: checked_session_dir_def split: prod.splits sum.splits)
qed (simp add: assms)

definition named_session :: "string \<Rightarrow> bool" where
  "named_session name = (\<forall>dir. check_name name = Inr () \<longrightarrow> session_dir E name = Inr dir \<longrightarrow> session_at dir)"

lemma confirmed_rules:
  assumes "named_session name"
  shows "within keeps (append_confirmed_breaks E name raws)" "within keeps (remove_confirmed_breaks E name raws)"
  using assms by (auto simp: append_confirmed_breaks_def remove_confirmed_breaks_def named_session_def
      intro!: checked edit_rules)

lemma breaks_commands:
  assumes "named_session name"
  shows "within keeps (dispatch_breaks E name b)"
proof -
  have command: "within keeps (breaks_command E name op body count target confirmed persist)"
    if "within keeps count" "\<And>raws. within keeps (persist raws)" for op body count target confirmed persist
    by (auto simp: breaks_command_def intro!: rules that)
  show ?thesis
  proof (cases b)
    case None
    then show ?thesis by (simp add: reads)
  next
    case (Some x)
    then show ?thesis
      by (cases x) (auto simp: cmd_breaks_add_def cmd_breaks_remove_def cmd_breaks_clear_def
          intro!: command rules persisted_count confirmed_rules assms)
  qed
qed

section \<open>Provisioning\<close>

text \<open>An adapter's directory is filled, its names opened by name or none of them; its lock beside it is opened.\<close>

definition adapter_at :: "string \<Rightarrow> bool" where
  "adapter_at d = (d \<noteq> [] \<and> last d \<noteq> CHR ''/'' \<and> {q. below d q \<and> q \<noteq> d} \<subseteq> D \<and> {q. below d q} \<subseteq> M \<and>
     ({q. below d q \<and> q \<noteq> d} \<subseteq> N \<or> {q. below d q \<and> q \<noteq> d} \<inter> N = {}))"

definition provisioned :: bool where
  "provisioned = (\<forall>A. adapters_dir E = Inr A \<longrightarrow> A \<in> M \<and>
     (\<forall>a\<in>{''java'', ''python'', ''node'', ''browser''}. provision_lock_path A a \<in> N \<and> adapter_at (path_join A a)))"

lemma provision_checks: "within keeps (check_provision_path E p b what)" "within keeps (file_matches E p s)"
  "within keeps (refuse_links E ps)" "within keeps (refuse_provision_link E p what)" "within keeps (path_is_file E p)"
  "within keeps (any_missing E c cs)" "within keeps (stale_sources E dir names stale)"
  "within keeps (refuse_symlink E p what)"
proof -
  show sym: "within keeps (refuse_symlink E p what)" for p what by (auto simp: refuse_symlink_def intro!: rules)
  then show link: "within keeps (refuse_provision_link E p what)" for p what by (simp add: refuse_provision_link_def)
  show check: "within keeps (check_provision_path E p b what)" for p b what
    by (auto simp: check_provision_path_def intro!: rules link)
  show match: "within keeps (file_matches E p s)" for p s by (auto simp: file_matches_def intro!: rules)
  show "within keeps (refuse_links E ps)" by (induction ps) (auto intro!: rules link split: sum.split)
  show "within keeps (path_is_file E p)" by (auto simp: path_is_file_def intro!: rules)
  show "within keeps (any_missing E c cs)" by (induction cs) (auto intro!: rules)
  show "within keeps (stale_sources E dir names stale)"
    by (induction names arbitrary: stale) (auto simp: Let_def intro!: rules check match)
qed

lemma provision_dir_rule: "d \<in> M \<Longrightarrow> within keeps (ensure_provision_dir E d)"
  by (auto simp: ensure_provision_dir_def ensure_real_dir_all_def Let_def
      intro!: rules provision_checks create_dir_all_rule)

lemma write_via_rule:
  assumes "tmp \<in> D" and "dest \<in> D" and "dest \<in> N \<Longrightarrow> tmp \<in> N"
  shows "within keeps (write_via E tmp dest source)"
  unfolding write_via_def
  by (rule bind, rule opened [OF assms(1)])
    (auto intro!: rules write_rule rename_rule remove_file_rule assms split: sum.split)

lemma provision_write_rule:
  assumes "adapter_at d" and "plain_segment n"
  shows "within keeps (atomic_write_provisioned E (path_join d n) source)"
proof -
  have d: "d \<noteq> []" "last d \<noteq> CHR ''/''"
    and in_D: "\<And>q. below d q \<Longrightarrow> q \<noteq> d \<Longrightarrow> q \<in> D"
    and in_N: "\<And>p q. below d p \<Longrightarrow> p \<noteq> d \<Longrightarrow> below d q \<Longrightarrow> q \<noteq> d \<Longrightarrow> p \<in> N \<Longrightarrow> q \<in> N"
    using assms(1) by (auto simp: adapter_at_def)
  have n: "\<not> starts_with n ''/''" using assms(2) by (cases n) (auto simp: plain_segment_def starts_with_def)
  have dest: "below d (path_join d n)" "path_join d n \<noteq> d"
    using below_join [OF d n] d n by (auto simp: path_join_def)
  have tmp: "below d (provision_tmp_path (path_join d n) pid j) \<and> provision_tmp_path (path_join d n) pid j \<noteq> d" for pid j
  proof -
    obtain x where "provision_tmp_path (path_join d n) pid j = d @ ''/'' @ x"
      using provision_tmp_in_dir [OF assms(2) d] by blast
    then show ?thesis by (simp add: below_def starts_with_def)
  qed
  have "holds K (provision_tmp_name E (path_join d n)) (\<lambda>tmp. below d tmp \<and> tmp \<noteq> d)"
  proof (rule result)
    show "within keeps (provision_tmp_name E (path_join d n))" by (auto simp: provision_tmp_name_def intro!: rules)
    show "below d a \<and> a \<noteq> d" if "run_state (provision_tmp_name E (path_join d n)) w = (a, w')" for w a w'
      using that tmp by (auto simp: provision_tmp_name_def State_Monad.bind_def)
  qed
  then show ?thesis
    unfolding atomic_write_provisioned_def
    by (rule bind_result) (auto intro!: write_via_rule in_D dest intro: in_N [OF dest])
qed

lemma adapter_made: "adapter_at d \<Longrightarrow> d \<in> M"
  "adapter_at d \<Longrightarrow> \<not> starts_with s ''/'' \<Longrightarrow> path_join d s \<in> M"
proof -
  show "d \<in> M" if "adapter_at d"
  proof -
    have "below d d" by (simp add: below_def)
    with that show ?thesis by (auto simp: adapter_at_def)
  qed
  show "path_join d s \<in> M" if "adapter_at d" "\<not> starts_with s ''/''"
    using that below_join [of d s] by (auto simp: adapter_at_def)
qed

lemma bridge_files:
  assumes "adapter_at d"
  shows "within keeps (ensure_pybridge_in E d)"
    and "plain_segment script \<Longrightarrow> within keeps (ensure_cdp_bridge_in E script d)"
proof -
  note d = provision_write_rule [OF assms] provision_dir_rule [OF adapter_made(1) [OF assms]]
  have shared: "within keeps (converge_shared E d names acc)" if "\<forall>n\<in>set names. plain_segment n" for names acc
    using that by (induction names arbitrary: acc) (auto simp: Let_def intro!: rules provision_checks d)
  have "\<forall>n\<in>set JS_SHARED. plain_segment n" by (simp add: JS_SHARED_def plain_segment_def)
  then have js: "within keeps (ensure_js_shared E d)"
    by (auto simp: ensure_js_shared_def intro!: rules provision_checks shared)
  show "within keeps (ensure_pybridge_in E d)"
    by (auto simp: ensure_pybridge_in_def Let_def plain_segment_def intro!: rules provision_checks d)
  show "within keeps (ensure_cdp_bridge_in E script d)" if "plain_segment script"
    by (auto simp: ensure_cdp_bridge_in_def Let_def intro!: rules provision_checks d js that)
qed

lemma adapter_paths:
  assumes provisioned
  shows "adapter_dir E = Inr d \<Longrightarrow> adapter_at d" "python_dir E = Inr d \<Longrightarrow> adapter_at d"
    "node_dir E = Inr d \<Longrightarrow> adapter_at d" "browser_dir E = Inr d \<Longrightarrow> adapter_at d"
  using assms
  by (auto simp: provisioned_def adapter_dir_def python_dir_def node_dir_def browser_dir_def adapter_path_def
      and_then_def split: sum.splits)

lemma locked_rule:
  assumes provisioned and "adapters_dir E = Inr A" and "a \<in> {''java'', ''python'', ''node'', ''browser''}"
    and "within keeps m"
  shows "within keeps (locked E A a m)"
proof -
  have "provision_lock_path A a \<in> N" using assms(1-3) by (auto simp: provisioned_def)
  then have "within keeps (open_provision_lock E (provision_lock_path A a))"
    by (auto simp: open_provision_lock_def intro!: rules provision_checks open_handle_rule flock_rules)
  then show ?thesis
    by (auto simp: locked_def acquire_provision_lock_def acquire_provision_lock_polls_def simp del: poll_lock.simps
        intro!: rules flock_rules assms(4))
qed

lemma under_lock_rule:
  assumes provisioned and "a \<in> {''java'', ''python'', ''node'', ''browser''}" and "within keeps m"
  shows "within keeps (under_lock E a m)"
proof -
  have "A \<in> M" if "adapters_dir E = Inr A" for A using assms(1) that by (simp add: provisioned_def)
  then show ?thesis
    unfolding under_lock_def by (auto intro!: try_lift rules provision_dir_rule locked_rule assms)
qed

lemma tools: "within keeps (ensure_node E)" "within keeps (ensure_py_fast E)" "within keeps (find_python_launcher E)"
  "within keeps (has_debugpy E p)" "within keeps (ensure_ws_marker_ok E d)"
proof -
  show "within keeps (ensure_node E)" by (auto simp: ensure_node_def intro!: rules process_rules)
  show has: "within keeps (has_debugpy E p)" for p
    by (auto simp: has_debugpy_def has_debugpy_timeout_def intro!: rules process_rules)
  have "within keeps (first_with_debugpy E ps)" for ps by (induction ps) (auto intro!: rules has)
  then show "within keeps (ensure_py_fast E)" by (auto simp: ensure_py_fast_def intro!: rules has)
  have "within keeps (launcher_on E ps)" for ps by (induction ps) (auto intro!: rules provision_checks)
  then show "within keeps (find_python_launcher E)"
    by (auto simp: find_python_launcher_def find_python_launcher_in_def intro!: rules split: option.split)
  show "within keeps (ensure_ws_marker_ok E d)" by (auto simp: ensure_ws_marker_ok_def intro!: rules)
qed

lemma ensure_compiled_rule: "provisioned \<Longrightarrow> within keeps (ensure_compiled E)"
proof -
  assume prov: provisioned
  have srcs: "within keeps (write_sources E d names)" if "adapter_at d" "\<forall>n\<in>set names. plain_segment n" for d names
    using that(2) by (induction names) (auto intro!: rules provision_write_rule that(1))
  have plain: "\<forall>n\<in>set JAVA_SOURCES. plain_segment n" by (simp add: JAVA_SOURCES_def plain_segment_def)
  have javac: "within keeps (compile_java E d c)" for d c
    by (auto simp: compile_java_def intro!: rules process_rules)
  have classes: "path_join d ''classes'' \<in> M" if "adapter_at d" for d
    using adapter_made(2) [OF that, of "''classes''"] by (simp add: starts_with_def)
  have "within keeps (ensure_compiled_locked E)"
    unfolding ensure_compiled_locked_def Let_def
    by (rule try_lift, drule adapter_paths(1) [OF prov])
      (auto intro!: rules provision_checks srcs plain javac provision_dir_rule classes)
  then show ?thesis unfolding ensure_compiled_def by (intro under_lock_rule prov) auto
qed

lemma ensure_py_rule: "provisioned \<Longrightarrow> within keeps (ensure_py E)"
proof -
  assume prov: provisioned
  have venv: "within keeps (create_venv E l d)" "within keeps (install_debugpy E v)" for l d v
    by (auto simp: create_venv_def install_debugpy_def intro!: rules process_rules tools split: prod.split)
  have made: "path_join d ''venv'' \<in> M" if "adapter_at d" for d
    using adapter_made(2) [OF that, of "''venv''"] by (simp add: starts_with_def)
  have tail: "within keeps (try_io (lift_result (python_dir E)) f)" if "\<And>d. adapter_at d \<Longrightarrow> within keeps (f d)" for f :: "string \<Rightarrow> (string result) io"
    by (rule try_lift) (auto dest: adapter_paths(2) [OF prov] intro: that)
  have "within keeps (ensure_py_locked E)"
    unfolding ensure_py_locked_def Let_def
    by (auto intro!: rules tools tail provision_checks provision_dir_rule made venv split: option.split)
  then have "within keeps (under_lock E ''python'' (ensure_py_locked E))" by (intro under_lock_rule prov) auto
  then show ?thesis by (auto simp: ensure_py_def intro!: rules tools split: option.split)
qed

lemma ws_rules:
  assumes provisioned
  shows "adapter_at d \<Longrightarrow> within keeps (ensure_ws_locked E d)" and "within keeps (ensure_ws E)"
proof -
  show ws: "within keeps (ensure_ws_locked E d)" if "adapter_at d" for d
    by (auto simp: ensure_ws_locked_def intro!: rules tools provision_checks process_rules provision_dir_rule
        adapter_made(1) [OF that])
  have "within keeps (try_io (lift_result (node_dir E)) (ensure_ws_locked E))"
    by (rule try_lift) (auto dest: adapter_paths(3) [OF assms] intro: ws)
  then have "within keeps (under_lock E ''node'' (try_io (lift_result (node_dir E)) (ensure_ws_locked E)))"
    by (intro under_lock_rule assms) auto
  then show "within keeps (ensure_ws E)" by (auto simp: ensure_ws_def intro!: rules tools)
qed

lemma bridge_program_rule:
  assumes provisioned
  shows "within keeps (bridge_program E dir spec)"
proof -
  have plain: "plain_segment ''nodebridge.js''" "plain_segment ''browserbridge.js''" by (simp_all add: plain_segment_def)
  have "within keeps (try_io (lift_result (python_dir E)) (ensure_pybridge_in E))"
    by (rule try_lift) (auto dest: adapter_paths(2) [OF assms] intro: bridge_files)
  then have py: "within keeps (ensure_pybridge E)" unfolding ensure_pybridge_def by (intro under_lock_rule assms) auto
  have "within keeps (try_io (lift_result (node_dir E)) (ensure_nodebridge_in E))"
    by (rule try_lift) (auto simp: ensure_nodebridge_in_def plain dest: adapter_paths(3) [OF assms] intro: bridge_files)
  then have node: "within keeps (ensure_nodebridge E)" unfolding ensure_nodebridge_def by (intro under_lock_rule assms) auto
  have inner: "within keeps (try_io (lift_result (node_dir E)) (\<lambda>node.
        try_io (lift_result (browser_dir E)) (\<lambda>browser. ensure_browserbridge_under E node browser)))"
    by (intro try_lift)
      (auto simp: ensure_browserbridge_under_def ensure_browserbridge_in_def plain
        dest!: adapter_paths(3) [OF assms] adapter_paths(4) [OF assms] intro!: rules ws_rules [OF assms] bridge_files)
  have "A \<in> M" if "adapters_dir E = Inr A" for A using assms that by (simp add: provisioned_def)
  then have browser: "within keeps (ensure_browserbridge E)"
    unfolding ensure_browserbridge_def
    by (auto intro!: try_lift rules provision_dir_rule locked_rule assms inner)
  show ?thesis
    by (auto simp: bridge_program_def
        intro!: rules py node browser tools ensure_py_rule ws_rules ensure_compiled_rule assms)
qed

section \<open>Closing\<close>

lemma delete_rule: "session_at dir \<Longrightarrow> within keeps (delete_dir E dir)"
  by (auto simp: delete_dir_def real_dir_for_delete_def intro!: rules remove_dir_rule dest: in_session(3))

lemma gate_rule: "lockable (startup_lock_path root name) \<Longrightarrow> within keeps (startup_close_gate E root name)"
  by (auto simp: startup_close_gate_def Let_def intro!: rules lock_reads quarantine_rule split: sum.split option.split)

lemma close_in_rule:
  assumes "check_name name = Inr () \<Longrightarrow> session_at (path_join root name)"
    and gate: "check_name name = Inr () \<Longrightarrow> within keeps (startup_close_gate E root name)"
  shows "within keeps (close_in E root name)"
proof -
  have death: "within keeps (await_death E n port deadline)" for n port deadline
    by (induction n) (auto intro!: rules split: sum.split)
  have unpublished: "within keeps (remove_unpublished_dir E root name dir b)" if "session_at dir" for dir b
    by (auto simp: remove_unpublished_dir_def intro!: rules delete_rule that)
  then have tail: "within keeps (close_tail E root name dir u c)" if "session_at dir" for dir u c
    using that by (auto simp: close_tail_def intro!: rules)
  then have dead: "within keeps (close_when_dead n E root name dir port c)" if "session_at dir" for n dir port c
    using that by (auto simp: close_when_dead_def intro!: rules death)
  have published: "within keeps (close_published E root name dir port)" if "session_at dir" for dir port
    using that by (auto simp: close_published_def remove_dir_after_foreign_probe_def Let_def
        intro!: rules dead delete_rule split: probe.split)
  have port: "within keeps (close_port E name dir)" for dir
    by (auto simp: close_port_def read_session_file_def Let_def intro!: rules)
  show ?thesis
    unfolding close_in_def Let_def
    using assms by (intro try_lift) (auto intro!: rules gate port published tail split: option.split)
qed

section \<open>Starting\<close>

lemma log_rule:
  assumes "q \<in> N" and "within keeps m"
  shows "within keeps (try_io (map_err h (create_trunc E q)) (\<lambda>_. m))"
  by (rule try_result [OF map_err_result [OF create_trunc_rule [OF assms(1)]]]) (rule assms(2))

lemma setup_rule:
  assumes provisioned and "session_at dir"
  shows "within keeps (setup_bridge E dir spec)"
proof -
  have start: "within keeps (start_bridge E spec program args)" for program args
    by (auto simp: start_bridge_def Let_def intro!: rules)
  have log: "path_join dir ''bridge.log'' \<in> N"
    using in_session(1) [OF assms(2), of "''bridge.log''"] by (simp add: starts_with_def)
  show ?thesis
    unfolding setup_bridge_def Let_def
    by (intro try_rule sidecar_rule [OF assms(2)] provision_checks log_rule [OF log] bridge_program_rule [OF assms(1)])
      (auto intro!: start split: prod.split)
qed

text \<open>The wait for the first stop may drop the directory, and nothing else.\<close>

lemma wait_rules:
  assumes "{q. below (start_dir s) q} \<subseteq> D"
  shows "within keeps (wait_ready E n s)"
proof -
  have discard: "within keeps (discard E s)"
    by (auto simp: discard_def intro!: rules process_rules remove_dir_rule assms)
  have routed: "within keeps (fail_routed E s phase message)" for phase message
    by (auto simp: fail_routed_def intro!: rules setup_failures)
  have setup_error: "within keeps (fail_with_setup_error E s failure)" for failure
    by (auto simp: fail_with_setup_error_def intro!: rules discard routed)
  have failed: "within keeps (after_failed_forward E s e)" for e
    by (auto simp: after_failed_forward_def intro!: rules left_on_disk discard routed setup_error split: option.split)
  have first: "within keeps (first_request E s)"
    by (auto simp: first_request_def first_forward_timeout_def intro!: rules left_on_disk failed split: sum.split)
  have exited: "within keeps (bridge_exited E s st)" for st
    by (auto simp: bridge_exited_def Let_def intro!: rules left_on_disk remove_dir_rule assms setup_failures split: option.split)
  have late: "within keeps (timed_out E s)"
    by (auto simp: timed_out_def intro!: rules process_rules left_on_disk remove_dir_rule assms)
  have "within keeps (wait_pass E s)"
    by (auto simp: wait_pass_def intro!: rules left_on_disk setup_error first exited late split: sum.split option.split)
  then show ?thesis by (induction n) (auto intro!: rules late split: option.split)
qed

lemma start_in_rule:
  assumes provisioned and "session_at dir"
  shows "within keeps (start_in E name dir spec endpoint listener deadline)"
proof -
  have dir: "q \<in> D" if "below dir q" for q using in_session(3) [OF assms(2)] that by blast
  have at: "dir \<in> D" by (rule in_session(4) [OF assms(2)])
  have sidecars: "path_join dir ''session.json'' \<in> D" "path_join dir ''error.json'' \<in> D" "path_join dir ''stops.json'' \<in> D"
    by (simp_all add: in_session(2) [OF assms(2)] starts_with_def)
  have fresh: "within keeps (fresh_dir E dir)"
    by (auto simp: fresh_dir_def real_dir_for_delete_def intro!: rules remove_dir_rule create_dir_rule remove_file_rule dir at sidecars)
  show ?thesis
    by (auto simp: start_in_def simp del: wait_ready.simps
        intro!: rules fresh setup_rule assms remove_dir_rule dir wait_rules split: sum.split)
qed

lemma holding_rule:
  "within keeps m \<Longrightarrow> within keeps (release (guard_path g) (guard_nonce g)) \<Longrightarrow> within keeps (holding release g m)"
  by (auto simp: holding_def intro!: rules)

lemma scans: "within keeps (find_live_endpoint_owner_in E root exclude host port)"
  "within keeps (find_live_legacy_sessions_in E root exclude)" "within keeps (owner_target_identity E root owner)"
proof -
  have owner: "within keeps (owns_endpoint E root exclude norm port name)" for norm name
    by (auto simp: owns_endpoint_def Let_def intro!: rules split: option.split)
  have first: "within keeps (first_that p xs)" if "\<And>x. within keeps (p x)" for p xs
    using that by (induction xs) (auto intro!: rules)
  show "within keeps (find_live_endpoint_owner_in E root exclude host port)"
    by (auto simp: find_live_endpoint_owner_in_def intro!: rules first owner split: sum.split)
  have legacy: "within keeps (live_legacy E root exclude name)" for name
    by (auto simp: live_legacy_def Let_def intro!: rules split: option.split)
  have all: "within keeps (all_that p xs)" if "\<And>x. within keeps (p x)" for p xs
    using that by (induction xs) (auto intro!: rules)
  show "within keeps (find_live_legacy_sessions_in E root exclude)"
    by (auto simp: find_live_legacy_sessions_in_def intro!: rules all legacy split: sum.split)
  show "within keeps (owner_target_identity E root owner)"
    by (auto simp: owner_target_identity_def sanitize_layered_identity_def identity_now_def intro!: rules split: option.split)
qed

lemma check_claimed_rule:
  assumes "lockable (guard_path g)"
  shows "within keeps (check_claimed E root name spec host port g)"
proof -
  have drop: "within keeps (drop_endpoint E g)" by (simp add: drop_endpoint_def release_endpoint_rule assms)
  have owned: "within keeps (owned_by E root spec host port owner b)" for owner b
    by (auto simp: owned_by_def intro!: rules scans)
  have legacy: "within keeps (legacy_live_failure E names requested)" for names requested
    by (auto simp: legacy_live_failure_def Let_def intro!: rules)
  show ?thesis
    by (auto simp: check_claimed_def Let_def intro!: rules drop scans owned legacy lock_reads split: option.split)
qed

lemma claim_attach_rule:
  assumes "\<And>locks. endpoint_locks_dir_for E root = Inr locks \<Longrightarrow> endpoints_at locks"
    and "plain_segment (spec_lang spec)"
  shows "holds K (claim_attach E root name spec endpoint) (\<lambda>r. \<forall>g. r = Inr (Some g) \<longrightarrow> lockable (guard_path g))"
proof (cases endpoint)
  case None
  then show ?thesis by (simp add: claim_attach_def ok_def holds_return)
next
  case (Some hp)
  obtain host port where hp: "hp = (host, port)" by fastforce
  let ?G = "\<lambda>r. \<forall>g. r = Inr (Some g) \<longrightarrow> lockable (guard_path g)"
  have owned: "holds K (owned_by E root spec host port owner b) ?G" for owner b
    by (rule result) (auto simp: owned_by_def intro!: rules scans split: prod.splits)
  have checked: "holds K (try_io (check_claimed E root name spec host port g) (\<lambda>g. ok (Some g))) ?G"
    if "lockable (guard_path g)" for g
  proof (rule holds_try)
    show "holds K (check_claimed E root name spec host port g) (\<lambda>r. \<forall>g'. r = Inr g' \<longrightarrow> g' = g)"
    proof (rule result [OF check_claimed_rule [OF that]])
      have "ends_in (check_claimed E root name spec host port g) (\<lambda>r w. \<forall>g'. r = Inr g' \<longrightarrow> g' = g)"
        by (auto simp: check_claimed_def owned_by_def Let_def intro!: ends_in_bind ends_in_answer split: option.split)
      then show "\<forall>g'. a = Inr g' \<longrightarrow> g' = g" if "run_state (check_claimed E root name spec host port g) w = (a, w')" for w a w'
        using that unfolding ends_in_def by (metis fst_conv)
    qed
  qed (auto simp: ok_def that intro: holds_return)
  have claimed: "holds K (try_io (acquire_endpoint_lock E locks root name (spec_lang spec) (normalize_attach_host host) port)
      (\<lambda>claim. case claim of
         Held g \<Rightarrow> try_io (check_claimed E root name spec host port g) (\<lambda>g. ok (Some g))
       | Busy busy \<Rightarrow> owned_by E root spec host port (busy_session busy) (\<not> busy_published busy))) ?G"
    if "endpoints_at locks" for locks
  proof (rule holds_try)
    show "holds K (acquire_endpoint_lock E locks root name (spec_lang spec) (normalize_attach_host host) port)
        (\<lambda>r. \<forall>g. r = Inr (Held g) \<longrightarrow> lockable (guard_path g))"
      using that assms(2)
      by (intro result [OF endpoint_lock_rule [OF that assms(2)]]) (auto dest: held_guard simp: endpoints_at_def)
  qed (auto intro: checked owned split: endpoint_claim.split)
  have locks: "holds K (lift_result (endpoint_locks_dir_for E root)) (\<lambda>r. r = endpoint_locks_dir_for E root)"
    by (simp add: lift_result_def holds_return)
  show ?thesis
    unfolding claim_attach_def Some hp option.case prod.case
    by (rule holds_try [OF locks], rule claimed, rule assms(1)) simp_all
qed

text \<open>Where a session is started.\<close>

definition root_at :: "string \<Rightarrow> string \<Rightarrow> bool" where
  "root_at root name =
     (root \<in> M \<and> (check_name name = Inr () \<longrightarrow> session_at (path_join root name) \<and> lockable (startup_lock_path root name)) \<and>
      (\<forall>locks. endpoint_locks_dir_for E root = Inr locks \<longrightarrow> endpoints_at locks))"

lemma start_claimed_rule:
  assumes provisioned and "session_at (path_join root name)" and "plain_segment (spec_lang spec)"
    and "\<And>locks. endpoint_locks_dir_for E root = Inr locks \<Longrightarrow> endpoints_at locks"
  shows "within keeps (start_claimed E root name spec deadline)"
proof -
  have refuse: "within keeps (refuse_existing E dir name)" for dir
    by (auto simp: refuse_existing_def intro!: rules)
  have claimed: "within keeps (try_io (claim_attach E root name spec endpoint) (\<lambda>guard.
      (case guard of
         None \<Rightarrow> start_in E name (path_join root name) spec endpoint listener deadline
       | Some g \<Rightarrow> holding (release_endpoint_lock E) g (start_in E name (path_join root name) spec endpoint listener deadline))))"
    for endpoint listener
    by (rule try_result [OF claim_attach_rule [OF assms(4,3)]])
      (auto intro!: start_in_rule holding_rule release_endpoint_rule assms(1,2) split: option.split)
  show ?thesis
    by (auto simp: start_claimed_def Let_def intro!: rules refuse claimed split: option.split)
qed

lemma spawn_in_parts:
  assumes "root \<in> M"
    and "\<And>deadline. check_name name = Inr () \<Longrightarrow>
      within keeps (try_io (acquire_startup_lock E (startup_lock_path root name)) (\<lambda>g.
        holding (release_startup_lock E) g (start_claimed E root name spec deadline)))"
  shows "within keeps (spawn_in E root name spec)"
proof -
  have deadline: "within keeps (spawn_deadline E wait)" for wait by (auto simp: spawn_deadline_def intro!: rules)
  show ?thesis
    unfolding spawn_in_def
    by (rule try_rule [OF deadline], rule try_lift) (auto intro!: rules create_dir_all_rule assms)
qed

lemma spawn_in_rule:
  assumes provisioned and "root_at root name" and "plain_segment (spec_lang spec)"
  shows "within keeps (spawn_in E root name spec)"
  using assms(2)
  by (intro spawn_in_parts try_guard [OF _ guards(1)] startup_lock_rules holding_rule start_claimed_rule assms(1,3))
    (auto simp: root_at_def startup_lock_rules)

text \<open>A startup lock that is there, younger than five minutes and kept by the others, is kept by a start and a close of
  its name: neither gets past it.\<close>

lemma young_lock_rules:
  assumes there: "\<And>k. K k \<Longrightarrow> files k (startup_lock_path root name) = Some (File i c m)"
    and young: "\<And>n. clock E n < m + STARTUP_LOCK_STALE"
  shows "root \<in> M \<Longrightarrow> within keeps (spawn_in E root name spec)" and "within keeps (startup_close_gate E root name)"
proof -
  show "within keeps (spawn_in E root name spec)" if "root \<in> M"
    by (rule spawn_in_parts [OF that], rule try_result [OF holds_acquire [OF shelter there young]]) simp_all
  have gated: "within keeps (do { stale \<leftarrow> stale_startup_mtime E t; if \<not> stale then x else f stale })"
    if "t = m" "within keeps x" for t x and f :: "bool \<Rightarrow> (unit result) io"
    unfolding that(1) by (rule bind_result [OF holds_young [OF shelter young]]) (simp add: that(2))
  show "within keeps (startup_close_gate E root name)"
    unfolding startup_close_gate_def Let_def
    by (auto intro!: rules lock_reads bind_result [OF holds_record(2) [OF shelter there]] gated split: sum.split option.split)
qed

section \<open>Commands\<close>

lemma seed_rule: "within keeps (seed_target_identity E tgt)"
  by (cases tgt) (auto simp: launch_seed_def attach_seed_def identity_now_def Let_def intro!: rules split: option.split)

text \<open>A command line's paths are in the fence.\<close>

definition fenced_session :: "string \<Rightarrow> bool" where
  "fenced_session name = (provisioned \<and> (\<forall>root. sessions_dir E = Inr root \<longrightarrow> root_at root name))"

lemma named_fenced: "fenced_session name \<Longrightarrow> named_session name"
  by (auto simp: fenced_session_def named_session_def session_dir_def root_at_def and_then_def split: sum.splits)

lemma close_rule: "fenced_session name \<Longrightarrow> within keeps (close E name)"
  unfolding close_def by (intro checked try_lift close_in_rule gate_rule) (auto simp: fenced_session_def root_at_def)

lemma spawn_rule: "fenced_session name \<Longrightarrow> plain_segment (spec_lang spec) \<Longrightarrow> within keeps (spawn E name spec)"
  unfolding spawn_def by (intro try_lift spawn_in_rule) (auto simp: fenced_session_def)

lemma cmd_spawn_rule:
  assumes "\<And>spec. spec_lang spec = lang \<Longrightarrow> within keeps (spawn E name spec)"
  shows "within keeps (cmd_spawn E name lang kind target s args)"
proof -
  have lang: "spec_lang spec = lang" if "spec_of lang kind target s args seed = Inr spec" for spec seed
    using that by (auto simp: spec_of_def and_then_def Let_def split: sum.splits)
  show ?thesis
    unfolding cmd_spawn_def by (intro bind seed_rule try_lift assms lang)
qed

lemma doctor_rule: "within keeps (doctor E)"
proof -
  have tool: "within keeps (probe_tool E program args)" for program args
    by (auto simp: probe_tool_def intro!: rules process_rules)
  have "within keeps (find_chrome_in E bins)" for bins
    by (induction bins) (auto intro!: rules process_rules split: sum.split)
  then show ?thesis
    by (auto simp: doctor_def ws_report_def venv_there_def find_chrome_def Let_def
        intro!: rules tool tools split: sum.split)
qed

lemma dispatch_parts:
  assumes "named_session name" and "within keeps (close E name)"
    and "\<And>spec. plain_segment (spec_lang spec) \<Longrightarrow> within keeps (spawn E name spec)"
  shows "within keeps (dispatch E name c)"
proof (cases "only_looks c")
  case True
  then show ?thesis
    by (cases "c = Doctor") (auto intro!: looking called_rule doctor_rule)
next
  case False
  note starts = called_rule [OF cmd_spawn_rule [OF assms(3)]]
  show ?thesis
  proof (cases c)
    case (Java x)
    then show ?thesis by (cases x) (auto simp: plain_segment_def intro!: starts)
  next
    case (Py x)
    then show ?thesis by (cases x) (auto simp: plain_segment_def intro!: starts)
  next
    case (Node x)
    then show ?thesis by (cases x) (auto simp: plain_segment_def intro!: starts)
  next
    case (Browser x)
    then show ?thesis by (cases x) (auto simp: plain_segment_def intro!: starts)
  next
    case Close
    then show ?thesis by (simp add: called_rule assms)
  next
    case (Breaks b)
    then show ?thesis by (simp add: called_rule breaks_commands assms)
  qed (use False in simp_all)
qed

lemma dispatch_rule: "fenced_session name \<Longrightarrow> within keeps (dispatch E name c)"
  by (intro dispatch_parts close_rule spawn_rule named_fenced)

end

end
