(* ===== verification/Confined.thy ===== *)
theory Confined
  imports Fence
begin

text \<open>
  Where the program writes: the fence around the state directory \<open>~/.agent-debugger\<close> and, inside it, around one
  session. Whatever the command, whatever fails and whatever the other processes do, a file outside is never
  changed, created or removed, and neither is a file of another session.
\<close>

section \<open>A path that is left alone\<close>

text \<open>The path \<open>p\<close> holds \<open>v\<close>, and no link lies where files are opened by name.\<close>

definition spared :: "string set \<Rightarrow> string \<Rightarrow> node option \<Rightarrow> kern \<Rightarrow> bool" where
  "spared N p v k = (inodes_ok k \<and> (\<forall>q\<in>N. not_link (files k q)) \<and> files k p = v)"

definition foreign :: "node option \<Rightarrow> nat \<Rightarrow> bool" where
  "foreign v i = (\<forall>c t. v \<noteq> Some (File i c t))"

lemma inodes_ok_Dir: "inodes_ok k \<Longrightarrow> inodes_ok (put_node p (Some (Dir t)) k)"
  by (fastforce simp: inodes_ok_def put_node_def)

lemma inodes_ok_emptied:
  assumes "inodes_ok k" and "files k q = Some (File i c m)"
  shows "inodes_ok (put_node q (Some (File i [] t)) k)"
proof -
  have "i < next_ino k" and "\<And>p c' m'. files k p = Some (File i c' m') \<Longrightarrow> p = q"
    using assms unfolding inodes_ok_def by blast+
  then show ?thesis using assms(1) by (fastforce simp: inodes_ok_def put_node_def)
qed

lemma inodes_ok_moved:
  assumes "inodes_ok k" and "files k p = Some n"
  shows "inodes_ok (k\<lparr>files := (files k)(p := None, q := Some n)\<rparr>)"
proof (cases "p = q")
  case True
  with assms have "(files k)(p := None, q := Some n) = files k" by auto
  with assms(1) show ?thesis by simp
qed (rule inodes_ok_rename [OF assms])

lemma inodes_ok_without: "inodes_ok k \<Longrightarrow> inodes_ok (without S k)"
  unfolding inodes_ok_def without_def by (auto split: if_splits)

lemma foreign_new: "inodes_ok k \<Longrightarrow> foreign (files k p) (next_ino k)"
  by (auto simp: foreign_def inodes_ok_def)

lemma append_foreign:
  assumes "foreign (files k p) i"
  shows "files (append_ino i s t k) p = files k p"
proof (cases "files k p")
  case (Some n)
  with assms show ?thesis by (cases n) (auto simp: append_ino_def foreign_def)
qed (simp add: append_ino_def)

lemma not_link_append: "not_link (files (append_ino i s t k) q) = not_link (files k q)"
proof (cases "files k q")
  case (Some n)
  then show ?thesis by (cases n) (auto simp: append_ino_def not_link_def)
qed (simp add: append_ino_def)

lemma not_link_simps [simp]: "not_link None" "not_link (Some (File i c t))" "not_link (Some (Dir t))"
  by (simp_all add: not_link_def)

lemma spared_create:
  assumes "q \<noteq> p" and "spared N p v k" and "files k q = None"
  shows "spared N p v (snd (k_create q t k))" and "fst (k_create q t k) = Inr i \<Longrightarrow> foreign v i"
proof -
  have k: "inodes_ok k" "files k p = v" "\<forall>q\<in>N. not_link (files k q)" using assms(2) by (simp_all add: spared_def)
  from inodes_ok_new [OF k(1) assms(3)]
  show "spared N p v (snd (k_create q t k))"
    using assms k by (auto simp: k_create_def spared_def put_node_def)
  show "fst (k_create q t k) = Inr i \<Longrightarrow> foreign v i"
    using foreign_new [OF k(1), of p] k(2) by (auto simp: k_create_def split: if_splits)
qed

lemma spared_create_new:
  assumes "q \<noteq> p" and "spared N p v k"
  shows "spared N p v (snd (k_create_new q t k))" and "fst (k_create_new q t k) = Inr i \<Longrightarrow> foreign v i"
  using assms spared_create [OF assms] by (auto simp: k_create_new_def split: if_splits)

lemma spared_open:
  assumes "q \<noteq> p" and "q \<in> N" and "spared N p v k"
  shows "spared N p v (snd (k_create_trunc q t k))" and "fst (k_create_trunc q t k) = Inr i \<Longrightarrow> foreign v i"
    and "spared N p v (snd (k_open_create q t k))"
proof -
  have k: "inodes_ok k" "files k p = v" "\<forall>q\<in>N. not_link (files k q)" using assms(3) by (simp_all add: spared_def)
  then have f: "follow k q = Some q" using assms(2) by (simp add: follow_not_link)
  note new = spared_create [OF assms(1,3)]
  have "spared N p v (put_node q (Some (File i [] t)) k) \<and> foreign v i" if "files k q = Some (File i c m)" for i c m
  proof
    show "spared N p v (put_node q (Some (File i [] t)) k)"
      using k assms(1) inodes_ok_emptied [OF k(1) that] by (auto simp: spared_def put_node_def)
    show "foreign v i" using k(1,2) that assms(1) by (auto simp: foreign_def inodes_ok_def)
  qed
  then show "spared N p v (snd (k_create_trunc q t k))" "fst (k_create_trunc q t k) = Inr i \<Longrightarrow> foreign v i"
    using new assms(3) by (auto simp: k_create_trunc_def f split: option.splits node.splits)
  show "spared N p v (snd (k_open_create q t k))"
    using new assms(3) by (auto simp: k_open_create_def f split: option.splits node.splits)
qed

lemma spared_append: "foreign v i \<Longrightarrow> spared N p v k \<Longrightarrow> spared N p v (append_ino i s t k)"
  by (auto simp: spared_def inodes_ok_append not_link_append append_foreign)

lemma spared_rename:
  assumes "a \<noteq> p" and "b \<noteq> p" and "b \<in> N \<Longrightarrow> a \<in> N" and "spared N p v k"
  shows "spared N p v (snd (k_rename a b k))"
proof (cases "files k a")
  case None
  with assms(4) show ?thesis by (simp add: k_rename_def)
next
  case (Some n)
  have k: "inodes_ok k" "files k p = v" "\<forall>q\<in>N. not_link (files k q)" using assms(4) by (simp_all add: spared_def)
  have "not_link (Some n)" if "b \<in> N" using k(3) assms(3) that Some by metis
  then have "spared N p v (k\<lparr>files := (files k)(a := None, b := Some n)\<rparr>)"
    using k assms(1-3) Some inodes_ok_moved [OF k(1) Some] by (auto simp: spared_def)
  with assms(4) Some show ?thesis by (auto simp: k_rename_def)
qed

lemma spared_without: "p \<notin> S \<Longrightarrow> spared N p v k \<Longrightarrow> spared N p v (without S k)"
  by (auto simp: spared_def inodes_ok_without) (auto simp: without_def)

lemma spared_Dir: "q \<noteq> p \<Longrightarrow> spared N p v k \<Longrightarrow> spared N p v (put_node q (Some (Dir t)) k)"
  by (auto simp: spared_def inodes_ok_Dir) (auto simp: put_node_def)

lemma spared_mkdirs: "v \<noteq> None \<or> p \<notin> set ps \<Longrightarrow> spared N p v k \<Longrightarrow> spared N p v (snd (k_mkdirs ps t k))"
proof (induction ps arbitrary: k)
  case (Cons q ps)
  have "spared N p v (put_node q (Some (Dir t)) k)" if "files k q = None"
    using Cons.prems that by (intro spared_Dir) (auto simp: spared_def)
  with Cons show ?case by (auto split: sum.split node.split)
qed simp

lemma spared_locks [simp]: "spared N p v (k\<lparr>flocks := f\<rparr>) = spared N p v k" "spared N p v (k\<lparr>next_fd := n\<rparr>) = spared N p v k"
  by (simp_all add: spared_def)

lemma spared_create_dir: "q \<noteq> p \<Longrightarrow> spared N p v k \<Longrightarrow> spared N p v (snd (k_create_dir q t k))"
  by (auto simp: k_create_dir_def spared_Dir)

section \<open>The region of a session\<close>

definition state_root :: "string \<Rightarrow> string" where
  "state_root h = path_join h ''.agent-debugger''"

definition adapter_names :: "string set" where
  "adapter_names = {''java'', ''python'', ''node'', ''browser''}"

text \<open>What a command on one session may touch: the session's directory, its startup lock with its quarantine,
  the endpoint locks and the adapters.\<close>

definition session_paths :: "nat \<Rightarrow> string \<Rightarrow> string \<Rightarrow> string set" where
  "session_paths pid root name = {q. below (path_join root name) q} \<union> {startup_lock_path root name} \<union>
     {q. starts_with q (root @ ''/.q-'' @ show_nat pid @ ''-'')}"

definition region :: "env \<Rightarrow> string \<Rightarrow> string set" where
  "region E name = (case agent_home E of Inl _ \<Rightarrow> {} | Inr h \<Rightarrow>
     (if check_name name = Inr () then session_paths (process_id E) (path_join (state_root h) ''sessions'') name else {}) \<union>
     {q. below (path_join (state_root h) ''endpoint-locks'') q} \<union> {q. below (path_join (state_root h) ''adapters'') q})"

text \<open>The adapters' own directories hold links of their own; nothing there is opened by name.\<close>

definition opened_names :: "env \<Rightarrow> string \<Rightarrow> string set" where
  "opened_names E name = region E name -
     (\<Union>h\<in>{h. agent_home E = Inr h}. \<Union>a\<in>adapter_names. {q. below (path_join (path_join (state_root h) ''adapters'') a) q})"

definition undisturbed :: "env \<Rightarrow> (kern \<Rightarrow> bool) \<Rightarrow> bool" where
  "undisturbed E K = (sheltered E K \<and> (\<forall>n argv limit k. K k \<longrightarrow> K (snd (runs E n argv limit k))))"

text \<open>The path itself is taken out of the fence, if it is in it.\<close>

definition spared_by :: "env \<Rightarrow> string \<Rightarrow> string \<Rightarrow> node option \<Rightarrow> kern \<Rightarrow> bool" where
  "spared_by E name p v k = (undisturbed E (spared (opened_names E name - {p}) p v) \<and>
     spared (opened_names E name - {p}) p v k)"

lemma path_prefixes_prefix: "q \<in> set (path_prefixes d) \<Longrightarrow> starts_with d q"
  by (auto simp: path_prefixes_def starts_with_def min_def simp del: upt_Suc)

text \<open>Directories that can be made, with their parents, without making \<open>p\<close>.\<close>

definition clear_of :: "string \<Rightarrow> node option \<Rightarrow> string set" where
  "clear_of p v = {d. v \<noteq> None \<or> \<not> starts_with d p}"

lemma spared_make_all: "d \<in> clear_of p v \<Longrightarrow> spared N p v k \<Longrightarrow> spared N p v (snd (k_mkdirs (path_prefixes d) t k))"
  by (rule spared_mkdirs) (auto simp: clear_of_def dest: path_prefixes_prefix)

text \<open>What every command keeps to.\<close>

interpretation confined: fence E "spared_by E name p v" "region E name - {p}" "opened_names E name - {p}"
    "clear_of p v" "foreign v"
  for E name p v
proof
  let ?D = "region E name - {p}" and ?N = "opened_names E name - {p}"
  show "sheltered E (spared_by E name p v)"
    by (auto simp: sheltered_def spared_by_def undisturbed_def)
  show "spared_by E name p v (snd (runs E n argv limit k))" if "spared_by E name p v k" for k n argv limit
    using that by (auto simp: spared_by_def undisturbed_def)
  show "spared_by E name p v (k\<lparr>flocks := f\<rparr>)" "spared_by E name p v (k\<lparr>next_fd := n\<rparr>)" if "spared_by E name p v k" for k f n
    using that by (simp_all add: spared_by_def)
  show "spared_by E name p v (snd (k_create_new q t k))" if "q \<in> ?D" "spared_by E name p v k" for q t k
    using that by (auto simp: spared_by_def intro: spared_create_new)
  show "foreign v i" if "q \<in> ?D" "spared_by E name p v k" "fst (k_create_new q t k) = Inr i" for q t k i
    using that spared_create_new(2) [of q p ?N v k t i] by (auto simp: spared_by_def)
  show "?N \<subseteq> ?D" by (auto simp: opened_names_def)
  show "spared_by E name p v (snd (k_create_trunc q t k))" "spared_by E name p v (snd (k_open_create q t k))"
    if "q \<in> ?N" "spared_by E name p v k" for q t k
    using that by (auto simp: spared_by_def intro!: spared_open)
  show "foreign v i" if "q \<in> ?N" "spared_by E name p v k" "fst (k_create_trunc q t k) = Inr i" for q t k i
    using that spared_open(2) [of q p ?N v k t i] by (auto simp: spared_by_def)
  show "spared_by E name p v (append_ino i s t k)" if "foreign v i" "spared_by E name p v k" for i s t k
    using that by (auto simp: spared_by_def intro: spared_append)
  show "spared_by E name p v (snd (k_rename a b k))" if "a \<in> ?D" "b \<in> ?D" "b \<in> ?N \<Longrightarrow> a \<in> ?N" "spared_by E name p v k"
    for a b k
    using that by (auto simp: spared_by_def intro!: spared_rename)
  show "spared_by E name p v (without S k)" if "S \<subseteq> ?D" "spared_by E name p v k" for S k
    using that by (auto simp: spared_by_def intro!: spared_without)
  show "spared_by E name p v (snd (k_create_dir q t k))" if "q \<in> ?D" "spared_by E name p v k" for q t k
    using that by (auto simp: spared_by_def intro!: spared_create_dir)
  show "spared_by E name p v (snd (k_mkdirs (path_prefixes d) t k))"
    if "d \<in> clear_of p v" "spared_by E name p v k" for d t k
    using that by (auto simp: spared_by_def intro!: spared_make_all)
qed

section \<open>The inode invariant\<close>

text \<open>The coarsest fence: no path is forbidden, and what is kept is that files do not share inodes. So what the
  proofs ask of the other processes is kept by every process that runs this program.\<close>

definition apart_by :: "env \<Rightarrow> kern \<Rightarrow> bool" where
  "apart_by E k = (undisturbed E inodes_ok \<and> inodes_ok k)"

lemma inodes_ok_create: "inodes_ok k \<Longrightarrow> files k q = None \<Longrightarrow> inodes_ok (snd (k_create q t k))"
  by (simp add: k_create_def inodes_ok_new)

lemma inodes_ok_calls:
  assumes "inodes_ok k"
  shows "inodes_ok (snd (k_create_new q t k))" "inodes_ok (snd (k_create_trunc q t k))" "inodes_ok (snd (k_open_create q t k))"
    "inodes_ok (snd (k_rename a b k))" "inodes_ok (snd (k_create_dir q t k))" "inodes_ok (snd (k_mkdirs ps t k))"
proof -
  show "inodes_ok (snd (k_create_new q t k))" "inodes_ok (snd (k_create_trunc q t k))" "inodes_ok (snd (k_open_create q t k))"
    "inodes_ok (snd (k_rename a b k))" "inodes_ok (snd (k_create_dir q t k))"
    using assms inodes_ok_emptied [OF assms] inodes_ok_moved [OF assms]
    by (auto simp: k_create_new_def k_create_trunc_def k_open_create_def k_rename_def k_create_dir_def
        inodes_ok_create inodes_ok_Dir split: option.split node.split)
  show "inodes_ok (snd (k_mkdirs ps t k))"
    using assms by (induction ps arbitrary: k) (auto simp: inodes_ok_Dir split: sum.split node.split)
qed

interpretation sound: fence E "apart_by E" UNIV UNIV UNIV "\<lambda>_. True" for E
  by unfold_locales
    (auto simp: apart_by_def undisturbed_def sheltered_def inodes_ok_calls inodes_ok_append inodes_ok_without)

section \<open>The paths of the code are in the region\<close>

lemma starts_with_iff: "starts_with s p \<longleftrightarrow> (\<exists>r. s = p @ r)"
proof
  assume "starts_with s p"
  then have "s = p @ drop (length p) s" unfolding starts_with_def by (metis append_take_drop_id)
  then show "\<exists>r. s = p @ r" ..
qed auto

lemma starts_with_same [simp]: "starts_with (b @ x) (b @ y) = starts_with x y"
  by (auto simp: starts_with_iff)

lemma join_plain: "d \<noteq> [] \<Longrightarrow> last d \<noteq> CHR ''/'' \<Longrightarrow> \<not> starts_with s ''/'' \<Longrightarrow> path_join d s = d @ ''/'' @ s"
  by (simp add: path_join_def)

lemma state_root_shape: "state_root h \<noteq> []" "last (state_root h) \<noteq> CHR ''/''"
  by (simp_all add: state_root_def path_join_def starts_with_def)

lemma state_dirs:
  "path_join (state_root h) ''sessions'' = state_root h @ ''/sessions''"
  "path_join (state_root h) ''endpoint-locks'' = state_root h @ ''/endpoint-locks''"
  "path_join (state_root h) ''adapters'' = state_root h @ ''/adapters''"
  by (simp_all add: join_plain [OF state_root_shape] starts_with_def)

lemma plain_not_absolute: "plain_segment n \<Longrightarrow> \<not> starts_with n ''/''"
  by (cases n) (auto simp: plain_segment_def starts_with_def)

lemma session_path: "plain_segment n \<Longrightarrow> path_join (b @ ''/sessions'') n = b @ ''/sessions/'' @ n"
  by (simp add: join_plain plain_not_absolute)

lemma adapter_path_shape: "a \<in> adapter_names \<Longrightarrow> path_join (b @ ''/adapters'') a = b @ ''/adapters/'' @ a"
  by (auto simp: adapter_names_def path_join_def starts_with_def)

lemma below_iff: "below d q \<longleftrightarrow> q = d \<or> (\<exists>r. q = d @ ''/'' @ r)"
  by (auto simp: below_def starts_with_iff)

lemma not_adapters: "a \<in> adapter_names \<Longrightarrow> c \<noteq> CHR ''a'' \<Longrightarrow> \<not> below (b @ ''/adapters/'' @ a) (b @ CHR ''/'' # c # s)"
  by (auto simp: below_iff)

lemma startup_lock_text: "plain_segment name \<Longrightarrow> startup_lock_path (b @ ''/sessions'') name = b @ ''/sessions/'' @ name @ ''.lock''"
proof -
  assume n: "plain_segment name"
  from plain_not_absolute [OF n] n have "\<not> starts_with (name @ ''.lock'') ''/''"
    by (cases name) (auto simp: starts_with_def plain_segment_def)
  then show ?thesis by (simp add: startup_lock_path_def join_plain)
qed

lemma beside:
  assumes "CHR ''/'' \<notin> set n" and "d \<noteq> []" and "last d \<noteq> CHR ''/''"
  shows "with_file_name (d @ ''/'' @ n) (quarantine_name pid x) = d @ ''/.q-'' @ show_nat pid @ ''-'' @ x @ ''.tmp''"
  using parent_of_child [OF assms(1), of d] assms(2,3)
  by (simp add: with_file_name_def quarantine_name_def join_plain starts_with_def)

lemma plain_no_slash: "plain_segment n \<Longrightarrow> CHR ''/'' \<notin> set n"
  by (auto simp: plain_segment_def)

lemma in_region:
  assumes "agent_home E = Inr h"
  shows "check_name name = Inr () \<Longrightarrow> q \<in> session_paths (process_id E) (state_root h @ ''/sessions'') name \<Longrightarrow> q \<in> region E name"
    and "below (state_root h @ ''/endpoint-locks'') q \<Longrightarrow> q \<in> region E name"
    and "below (state_root h @ ''/adapters'') q \<Longrightarrow> q \<in> region E name"
  using assms by (auto simp: region_def state_dirs)

lemma in_opened:
  assumes "agent_home E = Inr h"
  shows "q \<in> opened_names E name \<longleftrightarrow> q \<in> region E name \<and> (\<forall>a\<in>adapter_names. \<not> below (state_root h @ ''/adapters/'' @ a) q)"
  using assms by (auto simp: opened_names_def state_dirs adapter_path_shape)

lemma session_opened:
  assumes "agent_home E = Inr h" and "check_name name = Inr ()"
    and "q \<in> session_paths (process_id E) (state_root h @ ''/sessions'') name"
  shows "q \<in> opened_names E name"
proof -
  from assms(2) have n: "plain_segment name" by (simp add: check_name_plain)
  from assms(3) obtain s where "q = state_root h @ ''/s'' @ s"
    by (auto simp: session_paths_def session_path [OF n] startup_lock_text [OF n] below_iff starts_with_iff)
  then have "\<not> below (state_root h @ ''/adapters/'' @ a) q" if "a \<in> adapter_names" for a
    using not_adapters [OF that, of "CHR ''s''" "state_root h" s] by simp
  with in_region(1) [OF assms] show ?thesis by (simp add: in_opened [OF assms(1)])
qed

lemma endpoint_opened:
  assumes "agent_home E = Inr h" and "below (state_root h @ ''/endpoint-locks'') q"
  shows "q \<in> opened_names E name"
proof -
  from assms(2) obtain s where "q = state_root h @ ''/e'' @ s" by (auto simp: below_iff)
  then have "\<not> below (state_root h @ ''/adapters/'' @ a) q" if "a \<in> adapter_names" for a
    using not_adapters [OF that, of "CHR ''e''" "state_root h" s] by simp
  with in_region(2) [OF assms] show ?thesis by (simp add: in_opened [OF assms(1)])
qed

lemma provision_lock_text: "a \<in> adapter_names \<Longrightarrow> provision_lock_path (b @ ''/adapters'') a = b @ ''/adapters/'' @ a @ ''.lock''"
  by (auto simp: provision_lock_path_def adapter_names_def path_join_def starts_with_def)

lemma provision_lock_opened:
  assumes "agent_home E = Inr h" and "a \<in> adapter_names"
  shows "provision_lock_path (state_root h @ ''/adapters'') a \<in> opened_names E name"
proof -
  let ?q = "state_root h @ ''/adapters/'' @ a @ ''.lock''"
  have "provision_lock_path (state_root h @ ''/adapters'') a = ?q" by (rule provision_lock_text [OF assms(2)])
  moreover have "below (state_root h @ ''/adapters'') ?q" by (auto simp: below_iff)
  moreover have "\<not> below (state_root h @ ''/adapters/'' @ b) ?q" if "b \<in> adapter_names" for b
    using assms(2) that by (auto simp: below_iff adapter_names_def)
  ultimately show ?thesis using in_region(3) [OF assms(1)] by (simp add: in_opened [OF assms(1)])
qed

lemma adapter_inside:
  assumes "agent_home E = Inr h" and "a \<in> adapter_names" and "below (state_root h @ ''/adapters/'' @ a) q"
  shows "q \<in> region E name" and "q \<notin> opened_names E name" and "below (state_root h @ ''/adapters'') q"
proof -
  show b: "below (state_root h @ ''/adapters'') q" using assms(3) by (auto simp: below_iff)
  show "q \<in> region E name" by (rule in_region(3) [OF assms(1) b])
  show "q \<notin> opened_names E name" using assms(2,3) by (auto simp: in_opened [OF assms(1)])
qed

text \<open>So every command keeps to the fence of its session, where the directories it makes do not lead to \<open>p\<close>: the adapters,
  the session's directory, the endpoint locks and the startup lock are in it, unless \<open>p\<close> is among them.\<close>

lemma adapters_in_fence:
  assumes "agent_home E = Inr h" and made: "\<And>d. below (state_root h @ ''/adapters'') d \<Longrightarrow> d \<in> clear_of p v"
    and p: "\<not> below (state_root h @ ''/adapters'') p"
  shows "confined.provisioned E name p v"
proof -
  let ?b = "state_root h"
  have names: "{''java'', ''python'', ''node'', ''browser''} = adapter_names" by (simp add: adapter_names_def)
  have dir: "adapters_dir E = Inr (?b @ ''/adapters'')"
    using assms(1) state_dirs(3) [of h] by (simp add: adapters_dir_def and_then_def state_root_def)
  have adapter: "confined.adapter_at E name p v (path_join (?b @ ''/adapters'') a)" if "a \<in> adapter_names" for a
  proof -
    have "last (?b @ ''/adapters/'' @ a) \<noteq> CHR ''/''" using that by (auto simp: adapter_names_def)
    moreover have "{q. below (?b @ ''/adapters/'' @ a) q \<and> q \<noteq> ?b @ ''/adapters/'' @ a} \<inter> (opened_names E name - {p}) = {}"
      using adapter_inside(2) [OF assms(1) that] by auto
    ultimately show ?thesis
      using adapter_inside(1,3) [OF assms(1) that] made p
      by (auto simp: confined.adapter_at_def adapter_path_shape that)
  qed
  have "provision_lock_path (?b @ ''/adapters'') a \<in> opened_names E name - {p}" if "a \<in> adapter_names" for a
    using provision_lock_opened [OF assms(1) that] provision_lock_text [OF that] p by (auto simp: below_iff)
  then show ?thesis
    unfolding confined.provisioned_def names dir using made adapter by (auto simp: below_iff)
qed

lemma session_in_fence:
  assumes "agent_home E = Inr h" and "check_name name = Inr ()" and p: "\<not> below (state_root h @ ''/sessions/'' @ name) p"
  shows "confined.session_at E name p (path_join (state_root h @ ''/sessions'') name)"
proof -
  from assms(2) have n: "plain_segment name" by (simp add: check_name_plain)
  then have "last (state_root h @ ''/sessions/'' @ name) \<noteq> CHR ''/''"
    by (auto simp: plain_segment_def) (metis last_in_set)
  then show ?thesis
    using p session_opened [OF assms(1,2)] by (auto simp: confined.session_at_def session_path [OF n] session_paths_def)
qed

lemma nothing_out: "p \<notin> region E name \<Longrightarrow> region E name - {p} = region E name"
  "p \<notin> region E name \<Longrightarrow> opened_names E name - {p} = opened_names E name"
  by (auto simp: opened_names_def)

lemma startup_lock_in_fence:
  assumes "agent_home E = Inr h" and "check_name name = Inr ()" and "p \<notin> region E name"
  shows "confined.lockable E name p (startup_lock_path (state_root h @ ''/sessions'') name)"
proof -
  let ?b = "state_root h"
  from assms(2) have n: "plain_segment name" by (simp add: check_name_plain)
  have q: "with_file_name (?b @ ''/sessions/'' @ name @ ''.lock'') (quarantine_name (process_id E) x) =
      ?b @ ''/sessions/.q-'' @ show_nat (process_id E) @ ''-'' @ x @ ''.tmp''" for x
    using beside [of "name @ ''.lock''" "?b @ ''/sessions''" "process_id E" x] plain_no_slash [OF n] by simp
  have "with_file_name (?b @ ''/sessions/'' @ name @ ''.lock'') (quarantine_name (process_id E) x) \<in> region E name" for x
    unfolding q by (rule in_region(1) [OF assms(1,2)]) (simp add: session_paths_def starts_with_iff)
  moreover have "?b @ ''/sessions/'' @ name @ ''.lock'' \<in> opened_names E name"
    by (rule session_opened [OF assms(1,2)]) (simp add: session_paths_def startup_lock_text [OF n])
  ultimately show ?thesis
    unfolding confined.lockable_def unfolding startup_lock_text [OF n] nothing_out [OF assms(3)] by simp
qed

lemma endpoint_locks_in_fence:
  assumes "agent_home E = Inr h" and made: "state_root h @ ''/endpoint-locks'' \<in> clear_of p v"
    and p: "\<not> below (state_root h @ ''/endpoint-locks'') p"
    and "endpoint_locks_dir_for E (state_root h @ ''/sessions'') = Inr locks"
  shows "confined.endpoints_at E name p v locks"
proof -
  let ?b = "state_root h"
  have locks: "locks = ?b @ ''/endpoint-locks''"
    using parent_of_child [of "''sessions''" ?b] state_root_shape [of h] assms(4)
    by (simp add: endpoint_locks_dir_for_def state_dirs)
  have "confined.lockable E name p (endpoint_lock_path locks lang host port)" if "plain_segment lang" for lang host port
  proof -
    let ?n = "endpoint_lock_name lang host port"
    note n = endpoint_lock_name_plain [OF that, of host port]
    have path: "endpoint_lock_path locks lang host port = ?b @ ''/endpoint-locks/'' @ ?n"
      by (simp add: locks endpoint_lock_path_def join_plain plain_not_absolute [OF n])
    have q: "with_file_name (?b @ ''/endpoint-locks/'' @ ?n) (quarantine_name (process_id E) x) =
        ?b @ ''/endpoint-locks/.q-'' @ show_nat (process_id E) @ ''-'' @ x @ ''.tmp''" for x
      using beside [OF plain_no_slash [OF n], of "?b @ ''/endpoint-locks''" "process_id E" x] by simp
    have "with_file_name (?b @ ''/endpoint-locks/'' @ ?n) (quarantine_name (process_id E) x) \<in> region E name - {p}" for x
      using p unfolding q by (auto simp: below_iff intro!: in_region(2) [OF assms(1)])
    moreover have "?b @ ''/endpoint-locks/'' @ ?n \<in> opened_names E name - {p}"
      using p by (auto simp: below_iff intro!: endpoint_opened [OF assms(1)])
    ultimately show ?thesis by (simp add: confined.lockable_def path)
  qed
  with made show ?thesis by (simp add: confined.endpoints_at_def locks)
qed

lemma sessions_at: "agent_home E = Inr h \<Longrightarrow> sessions_dir E = Inr (state_root h @ ''/sessions'')"
  using state_dirs(1) [of h] by (simp add: sessions_dir_def and_then_def state_root_def)

lemma in_fence:
  assumes "agent_home E = Inr h" and "p \<notin> region E name"
    and made: "state_root h @ ''/sessions'' \<in> clear_of p v" "state_root h @ ''/endpoint-locks'' \<in> clear_of p v"
      "\<And>d. below (state_root h @ ''/adapters'') d \<Longrightarrow> d \<in> clear_of p v"
  shows "confined.fenced_session E name p v name"
proof -
  have "\<not> below (state_root h @ ''/adapters'') p" "\<not> below (state_root h @ ''/endpoint-locks'') p"
    using in_region(2,3) [OF assms(1)] assms(2) by blast+
  note parts = adapters_in_fence [OF assms(1) made(3) this(1)] endpoint_locks_in_fence [OF assms(1) made(2) this(2)]
  have "\<not> below (state_root h @ ''/sessions/'' @ name) p" if n: "check_name name = Inr ()"
    using in_region(1) [OF assms(1) n, of p] assms(2) n by (auto simp: session_paths_def session_path check_name_plain)
  then show ?thesis
    using parts made(1) session_in_fence [OF assms(1)] startup_lock_in_fence [OF assms(1) _ assms(2)]
    by (simp add: confined.fenced_session_def confined.root_at_def sessions_at [OF assms(1)])
qed

lemma spared_by_run:
  assumes "within (confined.keeps E name p v) m" and "undisturbed E (spared (opened_names E name - {p}) p v)"
    and "spared (opened_names E name - {p}) p v (kern w)" and "run_state m w = (r, w')"
  shows "files (kern w') p = v \<and> (\<exists>new. history w' = history w @ new \<and> list_all (\<lambda>k. files k p = v) new)"
proof -
  from assms(2,3) have "spared_by E name p v (kern w)" by (simp add: spared_by_def)
  with withinD [OF assms(1,4)]
  have "spared_by E name p v (kern w')" "\<exists>new. history w' = history w @ new \<and> (\<forall>k\<in>set new. spared_by E name p v k)"
    by (simp_all add: confined.keeps_def)
  then show ?thesis by (auto simp: spared_by_def spared_def list_all_iff)
qed

lemma spared_run:
  assumes "agent_home E = Inr h"
    and "state_root h @ ''/sessions'' \<in> clear_of p v" "state_root h @ ''/endpoint-locks'' \<in> clear_of p v"
      "\<And>d. below (state_root h @ ''/adapters'') d \<Longrightarrow> d \<in> clear_of p v"
    and "p \<notin> region E name" and "undisturbed E (spared (opened_names E name) p v)"
    and "spared (opened_names E name) p v (kern w)" and "run_state (dispatch E name c) w = (r, w')"
  shows "files (kern w') p = v \<and> (\<exists>new. history w' = history w @ new \<and> list_all (\<lambda>k. files k p = v) new)"
proof -
  note N = nothing_out(2) [OF assms(5)]
  have "within (confined.keeps E name p v) (dispatch E name c)"
    by (rule confined.dispatch_rule [OF in_fence]) (use assms(1-5) in auto)
  from spared_by_run [OF this, unfolded N, OF assms(6-8)] show ?thesis .
qed

text \<open>For the witnesses: a file beside the state directory and one of another session.\<close>

definition notes_world :: world where
  "notes_world = world_of (demo_files @ [(''/h/notes'', File 7 ''mine'' 0),
     (''/h/.agent-debugger/sessions/api/stops.json'', File 8 ''{S}'' 0)])"

lemma notes_files:
  "files (kern notes_world) ''/h/notes'' = Some (File 7 ''mine'' 0)"
  "files (kern notes_world) ''/h/.agent-debugger/sessions/api/stops.json'' = Some (File 8 ''{S}'' 0)"
  by (simp_all add: notes_world_def demo_files_def demo_dir_def)

lemma notes_spared: "spared N p (files (kern notes_world) p) (kern notes_world)"
proof -
  have "inodes_ok (kern notes_world)"
    by (simp add: inodes_ok_world_of notes_world_def demo_files_def)
  moreover have "not_link (files (kern notes_world) q)" for q
    by (simp add: notes_world_def demo_files_def)
  ultimately show ?thesis by (simp add: spared_def)
qed

lemma demo_undisturbed: "undisturbed (demo_env l) K"
  by (auto simp: undisturbed_def sheltered_def demo_env_def still_env_def)

lemma demo_home: "agent_home (demo_env l) = Inr ''/h''"
  by (simp add: agent_home_def trim_def is_whitespace_single is_cont_def code_def)

lemma demo_root: "state_root ''/h'' = ''/h/.agent-debugger''"
  by (simp add: state_root_def path_join_def starts_with_def)

section \<open>Inodes stay apart\<close>

lemma everywhere: "sound.fenced_session E name"
proof (cases "agent_home E")
  case (Inl e)
  then show ?thesis
    by (simp add: sound.fenced_session_def sound.provisioned_def adapters_dir_def sessions_dir_def and_then_def)
next
  case (Inr h)
  have adapter: "sound.adapter_at (path_join (state_root h @ ''/adapters'') a)" if "a \<in> adapter_names" for a
    using that by (auto simp: sound.adapter_at_def adapter_path_shape) (auto simp: adapter_names_def)
  have session: "sound.session_at (path_join (state_root h @ ''/sessions'') name)" if "check_name name = Inr ()"
    using that by (auto simp: sound.session_at_def check_name_plain session_path plain_segment_def split: if_splits)
      (metis last_in_set)
  have dirs: "adapters_dir E = Inr (state_root h @ ''/adapters'')" "sessions_dir E = Inr (state_root h @ ''/sessions'')"
    using Inr state_dirs [of h] by (simp_all add: adapters_dir_def sessions_dir_def and_then_def state_root_def)
  show ?thesis
    using adapter session
    by (simp add: sound.fenced_session_def sound.provisioned_def sound.root_at_def sound.endpoints_at_def
        sound.lockable_def dirs adapter_names_def)
qed



section \<open>Nothing outside\<close>

lemma below_prefix:
  assumes "below b d" and "starts_with d p"
  shows "below b p \<or> starts_with b p"
proof (cases "d = b")
  case False
  with assms obtain r s where "p @ s = b @ CHR ''/'' # r"
    by (auto simp: below_iff starts_with_iff) metis
  then consider us where "p = b @ us" "us @ s = CHR ''/'' # r" | us where "b = p @ us"
    by (auto simp: append_eq_append_conv2)
  then show ?thesis
  proof cases
    case 1
    then show ?thesis by (cases us) (auto simp: below_iff)
  qed (simp add: starts_with_iff)
qed (use assms in simp)

lemma region_inside: "agent_home E = Inr h \<Longrightarrow> q \<in> region E name \<Longrightarrow> below (state_root h) q"
proof -
  assume home: "agent_home E = Inr h" and q: "q \<in> region E name"
  have "below (state_root h) q" if "check_name name = Inr ()" "q \<in> session_paths (process_id E) (state_root h @ ''/sessions'') name"
  proof -
    from that have n: "plain_segment name" by (simp add: check_name_plain)
    show ?thesis
      using that(2) by (auto simp: session_paths_def session_path [OF n] startup_lock_text [OF n] below_iff starts_with_iff)
  qed
  with home q show ?thesis by (auto simp: region_def state_dirs below_iff split: if_splits)
qed



section \<open>Sessions apart\<close>



end
