(* ===== verification/Standing.thy ===== *)
theory Standing
  imports Confined
begin

text \<open>
  A startup lock stands: as long as its record is younger than five minutes no command of any other process removes or
  changes it, and the start that owns it keeps it in every state until it lets it go. What a start relies on is so
  what every other process that runs this program guarantees.
\<close>

section \<open>The lock in the fence\<close>

text \<open>The record's path is not in a session's directory, nor in what commands on other sessions may touch.\<close>

lemma startup_lock_place:
  assumes "agent_home E = Inr h" and "check_name name = Inr ()"
  defines "lock \<equiv> startup_lock_path (path_join (state_root h) ''sessions'') name"
  shows "lock = state_root h @ ''/sessions/'' @ name @ ''.lock''"
    and "\<not> below (state_root h @ ''/sessions/'' @ name) lock" and "\<not> below (state_root h @ ''/endpoint-locks'') lock"
    and "\<not> below (state_root h @ ''/adapters'') lock"
proof -
  show l: "lock = state_root h @ ''/sessions/'' @ name @ ''.lock''"
    using assms(2) by (simp add: lock_def state_dirs startup_lock_text check_name_plain)
  show "\<not> below (state_root h @ ''/sessions/'' @ name) lock" "\<not> below (state_root h @ ''/endpoint-locks'') lock"
    "\<not> below (state_root h @ ''/adapters'') lock"
    by (auto simp: l below_iff)
qed

lemma startup_lock_elsewhere:
  assumes "agent_home E = Inr h" and "check_name name = Inr ()" and "\<not> starts_with name ''.q-''"
    and "other \<noteq> name" and "other \<noteq> name @ ''.lock''"
  shows "startup_lock_path (path_join (state_root h) ''sessions'') name \<notin> region E other"
proof -
  let ?l = "name @ ''.lock''"
  note place = startup_lock_place [OF assms(1,2)]
  from assms(2) have n: "plain_segment name" by (simp add: check_name_plain)
  have "?l \<noteq> other @ ''/'' @ r" for r
  proof
    assume "?l = other @ ''/'' @ r"
    then have "CHR ''/'' \<in> set ?l" by simp
    with plain_no_slash [OF n] show False by simp
  qed
  moreover have "?l \<noteq> ''.q-'' @ r" for r
    using assms(3) by (auto simp: starts_with_iff append_eq_Cons_conv)
  ultimately have "?l \<notin> {other, other @ ''.lock''} \<and> (\<forall>r. ?l \<noteq> other @ ''/'' @ r \<and> ?l \<noteq> ''.q-'' @ r)"
    using assms(4,5) by auto
  then have "startup_lock_path (path_join (state_root h) ''sessions'') name \<notin>
      session_paths (process_id E) (path_join (state_root h) ''sessions'') other" if "plain_segment other"
    using that by (auto simp: startup_lock_text n session_paths_def state_dirs session_path below_iff starts_with_iff)
  then show ?thesis
    using place(3,4) assms(1) by (auto simp: region_def state_dirs check_name_plain)
qed

text \<open>For the witnesses: the name \<open>api\<close> is being started by somebody else.\<close>

definition standing_env :: env where
  "standing_env = (demo_env ''py'')\<lparr>clock := \<lambda>_. 6\<rparr>"

definition standing_world :: world where
  "standing_world = world_of (demo_files @ [(''/h/.agent-debugger/sessions/api.lock'', File 9 ''8-1-0'' 5)])"

lemma standing_facts:
  "agent_home standing_env = Inr ''/h''" "check_name ''api'' = Inr ()" "\<not> starts_with ''api'' ''.q-''"
  "startup_lock_path (path_join (state_root ''/h'') ''sessions'') ''api'' = ''/h/.agent-debugger/sessions/api.lock''"
  "files (kern standing_world) ''/h/.agent-debugger/sessions/api.lock'' = Some (File 9 ''8-1-0'' 5)"
  "\<forall>n. clock standing_env n < 5 + secs 300" "undisturbed standing_env K"
  by (simp_all add: standing_env_def agent_home_def trim_def is_whitespace_single is_cont_def code_def check_name_plain
      plain_segment_def starts_with_def startup_lock_path_def demo_root path_join_def standing_world_def demo_files_def
      demo_dir_def secs_def undisturbed_def sheltered_def demo_env_def still_env_def)

lemma standing_spared: "spared N p (files (kern standing_world) p) (kern standing_world)"
proof -
  have "inodes_ok (kern standing_world)"
    by (simp add: inodes_ok_world_of standing_world_def demo_files_def)
  moreover have "not_link (files (kern standing_world) q)" for q
    by (simp add: standing_world_def demo_files_def)
  ultimately show ?thesis by (simp add: spared_def)
qed

section \<open>Nobody else removes it\<close>

lemma young_lock_kept:
  assumes "agent_home E = Inr h" and "check_name name = Inr ()"
    and "lock = startup_lock_path (path_join (state_root h) ''sessions'') name" and "\<forall>n. clock E n < m + secs 300"
  shows "within (confined.keeps E name lock (Some (File i c m))) (dispatch E name cmd)"
proof -
  let ?v = "Some (File i c m)" and ?root = "state_root h @ ''/sessions''"
  note place = startup_lock_place [OF assms(1,2), folded assms(3)]
  have root: "path_join (state_root h) ''sessions'' = ?root" by (rule state_dirs)
  have there: "files k (startup_lock_path ?root name) = ?v" if "spared_by E name lock ?v k" for k
    using that by (simp add: spared_by_def spared_def assms(3) root)
  have young: "clock E n < m + STARTUP_LOCK_STALE" for n using assms(4) by (simp add: STARTUP_LOCK_STALE_def)
  note young_rules = confined.young_lock_rules [OF there young]
  note dir = session_in_fence [OF assms(1,2) place(2)]
  have close: "within (confined.keeps E name lock ?v) (close E name)"
    unfolding close_def sessions_at [OF assms(1)]
    by (intro confined.checked confined.try_lift confined.close_in_rule) (auto intro: dir young_rules(2))
  have start: "within (confined.keeps E name lock ?v) (spawn E name spec)" for spec
    unfolding spawn_def sessions_at [OF assms(1)]
    by (intro confined.try_lift) (auto simp: clear_of_def intro!: young_rules(1))
  have "confined.named_session E name lock name"
    using dir by (auto simp: confined.named_session_def session_dir_def sessions_at [OF assms(1)] and_then_def split: sum.splits)
  from confined.dispatch_parts [OF this close start] show ?thesis .
qed



section \<open>Its owner keeps it\<close>

text \<open>Every state of the release but the last has the record, and the last has none unless a call failed.\<close>

lemma release_lets_go:
  assumes "spared_by E name lock (Some (File i nonce m)) (kern w)" and "valid_utf8 nonce"
    and "run_state (release_startup_lock E lock nonce) w = (u, w')"
  shows "(\<exists>new last. history w' = history w @ new @ [last] \<and> list_all (\<lambda>k. files k lock = Some (File i nonce m)) new) \<and>
    (files (kern w') lock = None \<or> (\<exists>n e. fault E n = Some e))"
proof -
  let ?there = "\<lambda>k. files k lock = Some (File i nonce m)"
  have there: "?there k" if "spared_by E name lock (Some (File i nonce m)) k" for k
    using that by (simp add: spared_by_def spared_def)
  note sees = confined.sees [where name = name and p = lock and v = "Some (File i nonce m)"]
  have first: "?there (seen E w)" and second: "?there (seen E (moved E w))"
    using sees [OF assms(1)] sees [of E "moved E w"] by (simp_all add: there)
  show ?thesis
    using assms(3) first second k_read_there [OF first assms(2)]
    by (auto simp: release_startup_lock_def startup_lock_is_mine_def read_to_string_def remove_file_def k_remove_file_def
        State_Monad.bind_def put_node_def split: option.splits if_splits)
qed

text \<open>C14: A start keeps its startup lock and then lets it go: from the moment it owns it, whatever fails and whatever the
  start comes to, the record is there unchanged in every state but the last, if the others leave it alone; and in
  the last it is gone, unless some call failed.\<close>

theorem start_keeps_lock:
  assumes "agent_home E = Inr h" and "check_name name = Inr ()" and "plain_segment (spec_lang spec)"
    and "root = path_join (state_root h) ''sessions''" and "lock = startup_lock_path root name"
    and "guard_path g = lock" and "files (kern w) lock = Some (File i (guard_nonce g) m)" and "valid_utf8 (guard_nonce g)"
    and "undisturbed E (spared (opened_names E name - {lock}) lock (files (kern w) lock))"
    and "spared (opened_names E name - {lock}) lock (files (kern w) lock) (kern w)"
    and "run_state (holding (release_startup_lock E) g (start_claimed E root name spec deadline)) w = (r, w')"
  shows "(\<exists>new last. history w' = history w @ new @ [last] \<and>
      list_all (\<lambda>k. files k lock = Some (File i (guard_nonce g) m)) new) \<and>
    (files (kern w') lock = None \<or> (\<exists>n e. fault E n = Some e))"
proof -
  let ?v = "files (kern w) lock" and ?start = "start_claimed E root name spec deadline"
  note place = startup_lock_place [OF assms(1,2), folded assms(4), folded assms(5)]
  have root: "root = state_root h @ ''/sessions''" by (simp add: assms(4) state_dirs)
  have made: "d \<in> clear_of lock ?v" for d by (simp add: clear_of_def assms(7))
  have start: "within (confined.keeps E name lock ?v) ?start"
    unfolding root
    by (rule confined.start_claimed_rule [OF adapters_in_fence [OF assms(1) made place(4)]
          session_in_fence [OF assms(1,2) place(2)] assms(3) endpoint_locks_in_fence [OF assms(1) made place(3)]])
  obtain w1 u where body: "run_state ?start w = (r, w1)" and rel: "run_state (release_startup_lock E lock (guard_nonce g)) w1 = (u, w')"
    using assms(6,11) by (auto simp: holding_def State_Monad.bind_def split: prod.splits)
  have "spared_by E name lock ?v (kern w1)"
    using withinD [OF start body] assms(9,10) by (simp add: confined.keeps_def spared_by_def)
  from release_lets_go [OF this [unfolded assms(7)] assms(8) rel] spared_by_run [OF start assms(9,10) body]
  obtain a b last where "history w1 = history w @ a" "history w' = history w1 @ b @ [last]"
    "list_all (\<lambda>k. files k lock = Some (File i (guard_nonce g) m)) (a @ b)"
    "files (kern w') lock = None \<or> (\<exists>n e. fault E n = Some e)" by (auto simp: assms(7))
  then show ?thesis by (metis append.assoc)
qed

theorem start_keeps_lock_witness:
  "files (kern (snd (run_state (holding (release_startup_lock standing_env)
     \<lparr>guard_path = ''/h/.agent-debugger/sessions/api.lock'', guard_nonce = ''8-1-0''\<rparr>
     (start_claimed standing_env ''/h/.agent-debugger/sessions'' ''api'' demo_spec 9)) standing_world)))
     ''/h/.agent-debugger/sessions/api.lock'' = None"
proof -
  let ?g = "\<lparr>guard_path = ''/h/.agent-debugger/sessions/api.lock'', guard_nonce = ''8-1-0''\<rparr>"
  have root: "''/h/.agent-debugger/sessions'' = path_join (state_root ''/h'') ''sessions''"
    by (simp add: demo_root path_join_def starts_with_def)
  have lang: "plain_segment (spec_lang demo_spec)" by (simp add: demo_spec_def plain_segment_def)
  have lock: "''/h/.agent-debugger/sessions/api.lock'' = startup_lock_path ''/h/.agent-debugger/sessions'' ''api''"
    by (simp add: standing_facts(4) root)
  have guard: "guard_path ?g = ''/h/.agent-debugger/sessions/api.lock''"
    "files (kern standing_world) ''/h/.agent-debugger/sessions/api.lock'' = Some (File 9 (guard_nonce ?g) 5)"
    "valid_utf8 (guard_nonce ?g)" by (simp_all add: standing_facts(5) code_def)
  have "fault standing_env n = None" for n by (simp add: standing_env_def)
  with start_keeps_lock [OF standing_facts(1,2) lang root lock guard standing_facts(7) standing_spared surjective_pairing]
  show ?thesis by simp
qed

end
