(* ===== verification/Admission.thy ===== *)
theory Admission
  imports Report Endpoint Spawn_Lifecycle
begin

text \<open>
  Whether an attach may go on (\<open>check_claimed\<close> of \<open>spawn_lifecycle.rs\<close>): with the endpoint's lock in hand it scans the
  sessions for a live owner of the endpoint and for live sessions of an older release, and gives the lock back when
  it finds one.
\<close>

section \<open>What the scans find\<close>

text \<open>The entries of the sessions' directory, in an environment that lists it as \<open>ns\<close>.\<close>

definition entries_of :: "string list \<Rightarrow> string \<Rightarrow> kern \<Rightarrow> string list" where
  "entries_of ns root k = (case k_read_dir ns (path_join root) root k of Inl _ \<Rightarrow> [] | Inr names \<Rightarrow> map from_utf8_lossy names)"

text \<open>A live session of an older release: a real directory of another name without current markers, whose kind is
  attach or launch in a language other than the browser's, and whose daemon is alive.\<close>

definition legacy_at :: "env \<Rightarrow> nat \<Rightarrow> u16 set \<Rightarrow> kern \<Rightarrow> string \<Rightarrow> string \<Rightarrow> string \<Rightarrow> bool" where
  "legacy_at E t up k root exclude name =
     (let dir = path_join root name in
      name \<noteq> exclude \<and> plain_segment name \<and> is_dir (files k dir) \<and>
      \<not> (marked_v2 E k (path_join dir ''lang.json'') \<and> marked_v2 E k (path_join dir ''stops.json'')) \<and>
      Option.bind (json_at E k (path_join dir ''lang.json'')) (\<lambda>v. str_field v ''lang'') \<noteq> Some ''browser'' \<and>
      Option.bind (json_at E k (path_join dir ''session.json'')) (\<lambda>v. str_field v ''kind'') \<in> {Some ''attach'', Some ''launch''} \<and>
      alive_at E t up k dir)"

lemma settled_quiet: "settled E t up \<Longrightarrow> quiet E"
  by (simp add: settled_def quiet_def)

lemma answers_entries:
  assumes "settled E t up" and "\<forall>n. dir_names E n root = ns" and "\<And>names. answers k (f (Inr names)) (g (map from_utf8_lossy names))"
    and "\<And>e. answers k (f (Inl e)) (g [])"
  shows "answers k (State_Monad.bind (read_dir E root) f) (g (entries_of ns root k))"
proof (rule answers_bind)
  show "answers k (read_dir E root) (k_read_dir ns (path_join root) root k)"
    using settled_simps [OF assms(1)] assms(2) by (simp add: answers_def)
  show "answers k (f (k_read_dir ns (path_join root) root k)) (g (entries_of ns root k))"
    using assms(3,4) by (simp add: entries_of_def split: sum.split)
qed

lemma answers_find_owner:
  assumes "settled E t up" and "\<forall>n. dir_names E n root = ns"
  shows "answers k (find_live_endpoint_owner_in E root exclude host port)
    (find (owner_at E t up k root exclude host port) (entries_of ns root k))"
  unfolding find_live_endpoint_owner_in_def
  by (rule answers_entries [OF assms])
    (simp_all add: answers_return answers_first_that [OF answers_owner [OF assms(1)]])

lemma answers_legacy:
  assumes "settled E t up"
  shows "answers k (live_legacy E root exclude name) (legacy_at E t up k root exclude name)"
proof -
  let ?dir = "path_join root name"
  note files = answers_files [OF settled_quiet [OF assms]]
  have "answers k (do { m \<leftarrow> symlink_metadata E ?dir;
      if m \<noteq> Inr TDir then State_Monad.return False
      else do { v2 \<leftarrow> cli_markers_v2 E ?dir;
        if v2 then State_Monad.return False
        else do { lang \<leftarrow> session_lang_opt E ?dir;
          if lang = Some ''browser'' then State_Monad.return False
          else do { sess \<leftarrow> read_json_opt E (path_join ?dir ''session.json'');
            (case Option.bind sess (\<lambda>v. str_field v ''kind'') of
               None \<Rightarrow> State_Monad.return False
             | Some c \<Rightarrow> if c = ''attach'' \<or> c = ''launch'' then daemon_alive_in E ?dir else State_Monad.return False) } } } })
     (\<not> k_lstat ?dir k \<noteq> Inr TDir \<and> \<not> (marked_v2 E k (path_join ?dir ''lang.json'') \<and> marked_v2 E k (path_join ?dir ''stops.json'')) \<and>
      \<not> Option.bind (json_at E k (path_join ?dir ''lang.json'')) (\<lambda>v. str_field v ''lang'') = Some ''browser'' \<and>
      Option.bind (json_at E k (path_join ?dir ''session.json'')) (\<lambda>v. str_field v ''kind'') \<in> {Some ''attach'', Some ''launch''} \<and>
      alive_at E t up k ?dir)"
    by (rule answers_bind [OF files(4)], rule answers_unless, rule answers_bind [OF files(5)], rule answers_unless,
        rule answers_bind [OF files(3)], rule answers_unless, rule answers_kind [OF assms])
  then show ?thesis
    by (auto simp: live_legacy_def legacy_at_def Let_def check_name_plain k_lstat_dir intro: answers_return)
qed

lemma answers_all_that: "(\<And>x. answers k (p x) (q x)) \<Longrightarrow> answers k (all_that p xs) (filter q xs)"
proof (induction xs)
  case (Cons x xs)
  show ?case
    unfolding all_that.simps
    by (rule answers_bind [OF Cons.prems], rule answers_bind [OF Cons.IH [OF Cons.prems]], rule answers_return) simp
qed (simp add: answers_return)

lemma answers_find_legacy:
  assumes "settled E t up" and "\<forall>n. dir_names E n root = ns"
  shows "answers k (find_live_legacy_sessions_in E root exclude)
    (sort (filter (legacy_at E t up k root exclude) (entries_of ns root k)))"
  unfolding find_live_legacy_sessions_in_def
  by (rule answers_entries [OF assms, where g = "\<lambda>xs. sort (filter (legacy_at E t up k root exclude) xs)"])
    (simp_all add: answers_return, rule answers_bind [OF answers_all_that [OF answers_legacy [OF assms(1)]]], rule answers_return, rule refl)

section \<open>The decision\<close>

text \<open>The lock is in hand: its record holds the nonce of the guard.\<close>

definition in_hand :: "env \<Rightarrow> lock_guard \<Rightarrow> kern \<Rightarrow> bool" where
  "in_hand E g k = (\<exists>i raw m. files k (guard_path g) = Some (File i raw m) \<and> valid_utf8 raw \<and>
     nonce_in E raw = Some (guard_nonce g))"

lemma leads_drop:
  assumes "quiet E" and "in_hand E g k"
  shows "leads k (drop_endpoint E g) (\<lambda>_ l. l = put_node (guard_path g) None k)"
proof -
  from assms(2) obtain i raw m where f: "files k (guard_path g) = Some (File i raw m)" "valid_utf8 raw"
    "nonce_in E raw = Some (guard_nonce g)" unfolding in_hand_def by blast
  have "answers k (read_json_opt E (guard_path g)) (to_option (from_str (codec E) raw))"
    unfolding read_json_opt_def read_to_string_def
    by (rule answers_bind [OF answers_look [OF assms(1)]]) (simp add: k_read_there [OF f(1,2)] answers_return)
  then show ?thesis
    unfolding drop_endpoint_def release_endpoint_lock_def
    by (rule leads_after)
      (use f in \<open>auto simp: nonce_in_def leads_def remove_file_def k_remove_file_def State_Monad.bind_def quiet_simps [OF assms(1)]\<close>)
qed

lemma answers_in_hand:
  assumes "quiet E" and "in_hand E g k"
  shows "answers k (still_holds_endpoint E g) True"
proof -
  from assms(2) obtain i raw m where f: "files k (guard_path g) = Some (File i raw m)" "valid_utf8 raw"
    "nonce_in E raw = Some (guard_nonce g)" unfolding in_hand_def by blast
  have "holds_attempts E 10 g = holds_attempts E (Suc 9) g" by simp
  then show ?thesis
    unfolding still_holds_endpoint_def read_to_string_def holds_attempts.simps
    by (simp only: holds_attempts.simps read_to_string_def)
      (rule answers_bind [OF answers_look [OF assms(1)]], use f in \<open>simp add: k_read_there [OF f(1,2)] nonce_in_def answers_return\<close>)
qed

lemma leads_identity:
  assumes "quiet E"
  shows "leads k (owner_target_identity E root owner) (\<lambda>_ l. l = k)"
    and "leads k (unavailable_identity E reason) (\<lambda>_ l. l = k)"
  by (rule leads_kept [OF assms], auto simp: owner_target_identity_def sanitize_layered_identity_def identity_now_def
      intro!: kept.composed kept.reads split: option.split)+

lemma leads_owned:
  assumes "quiet E"
  shows "leads k (owned_by E root spec host port owner b) (\<lambda>r l. l = k \<and>
    (\<exists>id. r = Inl (endpoint_owned_failure owner b (spec_lang spec) host port id (spec_requested spec))))"
  unfolding owned_by_def
  by (rule leads_bind [OF leads_identity(1) [OF assms]]) (auto simp: err_def intro!: leads_return)

text \<open>The sessions named in the message are those in the way.\<close>

definition legacy_message :: "string list \<Rightarrow> string" where
  "legacy_message names = ''attach failed: unsupported live legacy session(s) '' @
     quoted (join_with ([CHR 0x27] @ '', '' @ [CHR 0x27]) names) @ ''; close them first and retry''"

lemma leads_legacy_failure:
  assumes "quiet E"
  shows "leads k (legacy_live_failure E (join_with ([CHR 0x27] @ '', '' @ [CHR 0x27]) names) requested)
    (\<lambda>e l. l = k \<and> (\<exists>diagnosis id. e = attach_failure (legacy_message names) None diagnosis id requested))"
  unfolding legacy_live_failure_def Let_def legacy_message_def
  by (rule leads_bind [OF leads_identity(2) [OF assms]]) (auto intro!: leads_return)

text \<open>C28: An attach that holds its endpoint's lock goes on exactly when no session is in its way: when a listed session is a
  live owner of the endpoint it fails and names that session, when a session of an older release is alive it fails
  and names those, in both cases after giving the lock back; otherwise the lock stays in hand. Nothing else is changed.\<close>

theorem attach_admission:
  assumes "settled E t up" and "\<forall>n. dir_names E n root = ns" and "in_hand E g (kern w)"
    and "run_state (check_claimed E root name spec host port g) w = (r, w')"
  shows "case find (owner_at E t up (kern w) root name host port) (entries_of ns root (kern w)) of
      Some owner \<Rightarrow>
        (\<exists>id. r = Inl (endpoint_owned_failure owner False (spec_lang spec) host port id (spec_requested spec))) \<and>
        kern w' = put_node (guard_path g) None (kern w)
    | None \<Rightarrow> (case sort (filter (legacy_at E t up (kern w) root name) (entries_of ns root (kern w))) of
        [] \<Rightarrow> r = Inr g \<and> kern w' = kern w
      | names \<Rightarrow>
          (\<exists>diagnosis id. r = Inl (attach_failure (legacy_message names) None diagnosis id (spec_requested spec))) \<and>
          kern w' = put_node (guard_path g) None (kern w))"
proof -
  let ?k = "kern w"
  let ?owner = "find (owner_at E t up ?k root name host port) (entries_of ns root ?k)"
  let ?legacy = "sort (filter (legacy_at E t up ?k root name) (entries_of ns root ?k))"
  have quiet: "quiet E" by (rule settled_quiet [OF assms(1)])
  note drop = leads_drop [OF quiet assms(3)]
  show ?thesis
  proof (cases ?owner)
    case (Some owner)
    have "leads ?k (check_claimed E root name spec host port g) (\<lambda>r l. l = put_node (guard_path g) None ?k \<and>
        (\<exists>id. r = Inl (endpoint_owned_failure owner False (spec_lang spec) host port id (spec_requested spec))))"
      unfolding check_claimed_def
      by (rule leads_after [OF answers_find_owner [OF assms(1,2)]], unfold Some option.case, rule leads_bind [OF drop])
        (use leads_owned [OF quiet] in simp)
    from leadsD [OF this assms(4)] show ?thesis by (simp add: Some)
  next
    case None
    show ?thesis
    proof (cases ?legacy)
      case Nil
      have "leads ?k (check_claimed E root name spec host port g) (\<lambda>r l. l = ?k \<and> r = Inr g)"
        unfolding check_claimed_def
        by (rule leads_after [OF answers_find_owner [OF assms(1,2)]], unfold None option.case,
            rule leads_after [OF answers_find_legacy [OF assms(1,2)]], unfold Nil)
          (simp, rule leads_after [OF answers_in_hand [OF quiet assms(3)]], simp add: ok_def leads_return)
      from leadsD [OF this assms(4)] show ?thesis by (simp add: None Nil)
    next
      case (Cons x xs)
      have "leads ?k (check_claimed E root name spec host port g) (\<lambda>r l. l = put_node (guard_path g) None ?k \<and>
          (\<exists>diagnosis id. r = Inl (attach_failure (legacy_message (x # xs)) None diagnosis id (spec_requested spec))))"
        unfolding check_claimed_def
        by (rule leads_after [OF answers_find_owner [OF assms(1,2)]], unfold None option.case,
            rule leads_after [OF answers_find_legacy [OF assms(1,2)]], unfold Cons)
          (simp only: list.distinct not_False_eq_True if_True, rule leads_bind [OF drop], rule leads_bind [OF leads_legacy_failure [OF quiet]], auto simp: err_def intro!: leads_return)
      from leadsD [OF this assms(4)] show ?thesis by (simp add: None Cons)
    qed
  qed
qed

text \<open>In the witness the session \<open>cart\<close> is attached to the endpoint, and \<open>old\<close> is only a link to it.\<close>

definition admission_env :: env where
  "admission_env = owner_env\<lparr>codec := table_serde [(''{S}'', owner_intent), (''{L}'', demo_lang ''py''), (''{P}'', owner_session),
     (''{N}'', jobj [(''nonce'', VString ''42-0'')])]\<rparr>"

definition admission_world :: world where
  "admission_world = world_of [
     (''/s'', Dir 0), (''/s/old'', Link ''/s/cart''), (''/s/cart'', Dir 0),
     (''/s/cart/lang.json'', File 1 ''{L}'' 0), (''/s/cart/stops.json'', File 2 ''{S}'' 0),
     (''/s/cart/session.json'', File 3 ''{P}'' 0), (''/e/x.lock'', File 4 ''{N}'' 0)]"

lemma admission_files:
  "files (kern admission_world) ''/s'' = Some (Dir 0)"
  "files (kern admission_world) ''/s/old'' = Some (Link ''/s/cart'')" "files (kern admission_world) ''/s/cart'' = Some (Dir 0)"
  "files (kern admission_world) ''/s/cart/lang.json'' = Some (File 1 ''{L}'' 0)"
  "files (kern admission_world) ''/s/cart/stops.json'' = Some (File 2 ''{S}'' 0)"
  "files (kern admission_world) ''/s/cart/session.json'' = Some (File 3 ''{P}'' 0)"
  "files (kern admission_world) ''/e/x.lock'' = Some (File 4 ''{N}'' 0)"
  by (simp_all add: admission_world_def)

theorem attach_admission_witness:
  "\<exists>id w'. run_state (check_claimed admission_env ''/s'' ''new'' demo_spec ''db'' 5678
        \<lparr>guard_path = ''/e/x.lock'', guard_nonce = ''42-0''\<rparr>) admission_world =
      (Inl (endpoint_owned_failure ''cart'' False (spec_lang demo_spec) ''db'' 5678 id (spec_requested demo_spec)), w') \<and>
     files (kern w') ''/e/x.lock'' = None"
proof -
  let ?k = "kern admission_world" and ?g = "\<lparr>guard_path = ''/e/x.lock'', guard_nonce = ''42-0''\<rparr>"
  have settled: "settled admission_env 0 {4000}"
    by (auto simp: settled_def admission_env_def owner_env_def alone_def)
  have listing: "\<forall>n. dir_names admission_env n ''/s'' = [''old'', ''cart'']"
    by (simp add: admission_env_def owner_env_def)
  have joins: "path_join ''/s'' ''old'' = ''/s/old''" "path_join ''/s'' ''cart'' = ''/s/cart''"
    "path_join ''/s/cart'' f = (if starts_with f ''/'' then f else ''/s/cart/'' @ f)" for f
    by (simp_all add: path_join_def starts_with_def)
  note texts = admission_files(4-7) [THEN k_read_there]
  have reads: "json_at admission_env ?k ''/s/cart/lang.json'' = Some (demo_lang ''py'')"
    "json_at admission_env ?k ''/s/cart/stops.json'' = Some owner_intent"
    "json_at admission_env ?k ''/s/cart/session.json'' = Some owner_session"
    by (simp_all add: json_at_def texts admission_env_def table_serde_def code_def)
  have "nonce_in admission_env ''{N}'' = Some ''42-0''"
    by (simp add: nonce_in_def admission_env_def table_serde_def jobj_def json_get_def str_field_def as_str_def)
  then have hand: "in_hand admission_env ?g ?k"
    by (simp add: in_hand_def admission_files code_def)
  have "\<not> owner_at admission_env 0 {4000} ?k ''/s'' ''new'' ''db'' 5678 ''old''"
    by (simp add: owner_at_def joins admission_files)
  moreover have "owner_at admission_env 0 {4000} ?k ''/s'' ''new'' ''db'' 5678 ''cart''"
    by (simp add: owner_at_def alive_at_def joins reads starts_with_def plain_segment_def admission_files)
      (simp add: owner_intent_def owner_session_def demo_lang_def intent_endpoint_def json_access
        num_def u16_try_from_def attach_exclusive_def)
  moreover have "entries_of [''old'', ''cart''] ''/s'' ?k = [''old'', ''cart'']"
    by (simp add: entries_of_def k_read_dir_def k_stat_def follow_def numeral_eq_Suc joins admission_files utf8_step_def code_def)
  ultimately have found: "find (owner_at admission_env 0 {4000} ?k ''/s'' ''new'' ''db'' 5678)
      (entries_of [''old'', ''cart''] ''/s'' ?k) = Some ''cart''" by simp
  obtain r w' where run: "run_state (check_claimed admission_env ''/s'' ''new'' demo_spec ''db'' 5678 ?g) admission_world = (r, w')"
    by fastforce
  from attach_admission [OF settled listing hand run, unfolded found option.case] obtain id
    where "r = Inl (endpoint_owned_failure ''cart'' False (spec_lang demo_spec) ''db'' 5678 id (spec_requested demo_spec))"
      and "kern w' = put_node ''/e/x.lock'' None ?k"
    by (simp only: lock_guard.simps) blast
  with run have "run_state (check_claimed admission_env ''/s'' ''new'' demo_spec ''db'' 5678 ?g) admission_world =
      (Inl (endpoint_owned_failure ''cart'' False (spec_lang demo_spec) ''db'' 5678 id (spec_requested demo_spec)), w') \<and>
      files (kern w') ''/e/x.lock'' = None" by (simp add: put_node_def)
  then show ?thesis by blast
qed

end
