(* ===== verification/Spec2Isabelle.thy ===== *)
theory Spec2Isabelle
  imports Completion Report Company Mac Standing Admission
begin

text \<open>
  The command line debugger of \<open>src/src\<close>, modelled from its Rust sources, and what makes it correct.

  \<^bold>\<open>The program.\<close> A command (\<open>start\<close>, \<open>attach\<close>, \<open>step\<close>, \<open>break\<close>, \<open>status\<close>, \<open>close\<close>, ...) is one short-lived process. A
  session is a directory below the user's home, with the routing language, the intent and the published port
  in JSON files, and a bridge: a background process, one program per debugged language, that answers framed JSON
  requests on a local port. Nothing else is shared. Several commands run at once, each of them may be
  killed at any call, and so may a bridge; what keeps them from each other's state are lock files claimed by
  exclusive creation, kernel file locks, atomic renames, and probes of ports and processes.

  \<^bold>\<open>The machine.\<close> \<open>World\<close> has the file system, kernel locks, clock, ports and other programs as one state (\<open>world\<close>, with
  the shared part \<open>kern\<close>) and an environment (\<open>env\<close>): before every system call the others may do anything
  (\<open>interfere\<close>), then the call fails (\<open>fault\<close>) or takes effect. Both are functions of the number of calls made, so
  a statement over all environments is one over all interleavings and all transient errors. The operations
  are state-passing programs (\<open>'a io\<close>) over \<open>State_Monad\<close>; an error is the left side of a sum. A path is its text,
  and \<open>to_string_lossy\<close> of one is the identity on valid text; only the last component of a path may be a link.
  \<open>serde_json\<close> is a parameter (the \<open>codec\<close>), used through \<open>reads_back\<close>: what is printed parses again. What a bridge answers
  (\<open>peer\<close>), what \<open>lsof\<close>, \<open>pgrep\<close>, \<open>javac\<close> and the others do and print (\<open>runs\<close>), and when a process ends (\<open>reaped\<close>) are the
  environment's. Rendering a value as JSON text does not fail, and texts fit into memory.

  \<^bold>\<open>The theories\<close>, by the file of \<open>src/src\<close> they model:
  \<^item> what the sources use of Rust: \<open>Prelude\<close> (widths, results, saturation), \<open>Rust_Str\<close> (UTF-8, trimming, splitting, numbers),
    \<open>Rust_Net\<close> (\<open>IpAddr\<close>), \<open>Json\<close> (\<open>serde_json::Value\<close>), \<open>Failure\<close> (\<open>anyhow\<close> errors);
  \<^item> \<open>dap.rs\<close> in \<open>Dap\<close>, \<open>client.rs\<close> in \<open>Client\<close>;
  \<^item> \<open>session/paths.rs\<close> in \<open>Paths\<close>, \<open>session/sidecar.rs\<close> in \<open>Sidecar\<close>, \<open>session/forward.rs\<close> in \<open>Forward\<close>,
    \<open>session/identity.rs\<close> in \<open>Identity\<close>, \<open>session/breaks.rs\<close> in \<open>Flock\<close> (the file lock) and \<open>Breaks\<close>, \<open>session/attach.rs\<close> in
    \<open>Attach\<close>, \<open>session/close_status.rs\<close> in \<open>Close_Status\<close>, \<open>session/spawn_lifecycle.rs\<close> in \<open>Spawn_Lifecycle\<close>;
  \<^item> \<open>session/locks.rs\<close> in \<open>Locks\<close>, with the startup lock as a protocol in \<open>Starters\<close>, the endpoint lock in \<open>Endpoint\<close>, both of
    them beside other claimants in \<open>Company\<close>, and the takeover of abandoned locks in \<open>Progress\<close> and \<open>Endpoint\<close>;
  \<^item> \<open>bridge.rs\<close> in \<open>Process\<close> (running and killing programs) and \<open>Bridge\<close> (provisioning of the adapters), \<open>doctor.rs\<close> in \<open>Doctor\<close>;
  \<^item> \<open>cli.rs\<close> in \<open>Cli\<close>, \<open>spawn.rs\<close> in \<open>Spawn\<close>, \<open>output.rs\<close> and \<open>fmt.rs\<close> in \<open>Output\<close>, \<open>main.rs\<close> in \<open>Dispatch\<close>;
  \<^item> all of them together: what a command may write in \<open>Fence\<close> and \<open>Confined\<close>, that nobody takes a
    startup lock away from its owner in \<open>Standing\<close>, when an attach may go on in \<open>Admission\<close>, starts and closes that succeed in \<open>Completion\<close>,
    what \<open>status\<close> reports in \<open>Report\<close>;
  \<^item> what \<open>identity.rs\<close> and \<open>locks.rs\<close> compile to without \<open>/proc\<close> in \<open>Mac\<close>.
  A function keeps its name; a struct is a record, an enum a datatype, and a method of one a function on it. Early returns
  and \<open>?\<close> are \<open>try_io\<close>; a guard that is dropped is the call of its release (\<open>holding\<close>, \<open>guarded\<close>).

  \<^bold>\<open>Ways of reasoning.\<close> \<open>Hoare\<close> has rules for programs beside others: \<open>passes\<close> speaks of every state of a run, \<open>within\<close> of what a
  run leaves alone. The locale \<open>keeping\<close> gives the rules of composition for any preorder of worlds, and \<open>reading\<close> extends it by
  every function that only reads; their interpretations are what is unchanged (\<open>unchanged\<close>, \<open>kept\<close>, \<open>steadied\<close>), not sent
  (\<open>unsent\<close>), not run (\<open>idle\<close>), only logged (\<open>logged\<close>, \<open>probes\<close>), and running programs but writing no file (\<open>tame\<close>). \<open>fence\<close> (in \<open>Fence\<close>)
  extends \<open>reading\<close> by every function that writes: its laws say which paths a call may make, replace, remove and open by
  name, and \<open>Confined\<close> interprets it on the region of a session, less one path (\<open>confined\<close>), and on the inode invariant (\<open>sound\<close>). \<open>holds\<close> (in \<open>Locks\<close>) keeps an
  invariant of the shared state through a run, \<open>answers\<close> and \<open>leads\<close>, \<open>lands\<close> (in \<open>Quiet\<close>, \<open>Progress\<close>) say that a run ends and in what. \<open>plays\<close> (in \<open>Company\<close>)
  is rely and guarantee: beside others that keep to a protocol between any two calls (\<open>company\<close>) each call is a step of it,
  too; the locale \<open>approving\<close> has the rules for claiming and giving back a lock file, interpreted for both locks (\<open>plain\<close>, \<open>live\<close>). The
  other locales are interfaces between components: \<open>frame_codec\<close> (\<open>dap\<close>) for the framing, \<open>ordered_map\<close> (\<open>btree\<close>) for JSON objects,
  \<open>prefix_code\<close> (\<open>escaped\<close>) for lock names, \<open>exclusive_lock\<close> (\<open>flock\<close>) for kernel locks, \<open>claim_lock\<close> (\<open>startup\<close>, \<open>attaching\<close>) for
  lock files that follow the protocol of \<open>Starters\<close>, and \<open>polling\<close> for loops with a deadline.

  \<^bold>\<open>What is shown.\<close>
  \<^item> \<^emph>\<open>Locks.\<close> \<open>Starters\<close> gives an abstract protocol of any number of claimants of one path, failing anywhere. Both locks
    run by its steps, whatever the others do between two calls and whichever call fails (refinement), no reachable
    state has two owners (invariant), a live owner is never dispossessed, whatever
    command anybody else runs, a start keeps its lock until it is done, and a lock whose owner died at any point is taken over (liveness). Distinct endpoints have distinct lock files.
  \<^item> \<^emph>\<open>Starting.\<close> A second start of a name fails, a live session is not replaced, a start completes when its bridge
    publishes and answers, and otherwise leaves nothing behind; an attach
    goes on exactly when no live session is in its way; why an attach failed is reported by the phase the bridge names.
  \<^item> \<^emph>\<open>Closing.\<close> A live or starting session is not deleted; a dying one is closed, and its directory is all that goes.
  \<^item> \<^emph>\<open>Files.\<close> Sidecars change atomically under faults; no concurrent update of the persisted breakpoints is lost;
    provisioning converges to the embedded texts; names stay inside their directory.
  \<^item> \<^emph>\<open>Talking to bridges.\<close> Frames round-trip in any chunks, bounds hold, corrupt frames fail, requests end; a command is
    sent once, after all gates, to the routed target; probes and scans decide what they should.
  \<^item> \<^emph>\<open>Identity.\<close> Secrets do not reach the output, shown identities have the layered shape and bounded size.
  \<^item> \<^emph>\<open>The program as a whole.\<close> Whatever the command, the faults and the interleaving, no file outside the state directory
    is touched, nor one of another session, and the inode invariant that the other theorems start
    from is kept. Without \<open>--human\<close> one JSON object and the matching exit code come out; queries change no file and run no
    program, and status reports exactly the sessions there are; the user's program gets exactly its arguments.

  \<^bold>\<open>Fuel.\<close> A loop with a deadline has as many passes as fit at its poll interval, and one or two more: 401 for the breaks
  lock, 10002 for provisioning, 76 for the death of a closed daemon, 201 for a reap, 21 for settling, ten a second and two for the wait of a
  start (\<open>spawn_polls\<close>). The interpretations of \<open>polling\<close> (\<open>lock_poll\<close>, \<open>death_poll\<close>, \<open>exit_poll\<close>, \<open>wait_poll\<close>, \<open>settle_poll\<close>) show
  that more change nothing when each pass takes its interval. \<open>KILL_DEPTH\<close>, 4194304, is the largest process number of Linux; no chain
  of processes is longer. Links are followed 40 times, as Linux does; the cap loop of an identity runs as often as it has
  characters (\<open>cap_loop_settles\<close>). The read loops of \<open>Client\<close> and of the probe recurse over the script of what the socket
  answers, which the environment ends by hanging up.

  \<^bold>\<open>Not modelled.\<close> The bridges themselves (Python, JavaScript, Java), which are the peer; the parser of the command
  line (clap), of which \<open>command_parsed\<close> keeps the declared ranges; installation and scripts; the \<open>Debug\<close> and \<open>Display\<close>
  implementations that only derive or delegate; positions inside messages about invalid UTF-8; module declarations. The functions
  built on liveness and listeners are modelled over the Linux lookups.
\<close>

end
